(* ===== verification/Prelude.thy ===== *)
theory Prelude
  imports Main "HOL-Library.Word" "HOL-Library.Char_ord" "HOL-Library.List_Lexorder"
    "HOL-Library.Multiset" "HOL-Library.Sublist"
begin

text \<open>
  What the component theories share: the result type of fallible code (\<open>'e + 'a\<close>) and its
  sequencing, sequencing of fallible code over a state that keeps the effects made before a
  failure, decimal rendering of numbers, reachability of a step relation with the invariant
  rule as a locale, and facts on lists, maps and sorting used by several components.

  A Rust \<^verbatim>\<open>String\<close> is the list of its UTF-8 bytes, a HOL \<^typ>\<open>string\<close>, so \<^verbatim>\<open>len()\<close> is
  \<^const>\<open>length\<close> and the derived order is Rust's byte order. Times and durations are
  numbers of nanoseconds, a \<^typ>\<open>nat\<close>.
\<close>

named_theorems result_simps \<open>case analysis of fallible computations\<close>

type_synonym byte = "8 word"
type_synonym instant = nat
type_synonym duration = nat
type_synonym usize = "64 word"

definition from_millis :: "nat \<Rightarrow> duration" where
  "from_millis n = n * 1000000"

definition from_secs :: "nat \<Rightarrow> duration" where
  "from_secs n = n * 1000000000"

text \<open>\<^verbatim>\<open>u64::try_from(..).unwrap_or(u64::MAX)\<close>.\<close>

definition saturating_u64 :: "nat \<Rightarrow> 64 word" where
  "saturating_u64 n = (if n < 2 ^ 64 then of_nat n else - 1)"

lemma unat_saturating_u64: "unat (saturating_u64 n) = min n (2 ^ 64 - 1)"
  by (simp add: saturating_u64_def unat_of_nat take_bit_nat_eq_self unsigned_minus_1_eq_mask mask_eq_exp_minus_1)


section \<open>Fallible computations\<close>

definition bindE :: "'e + 'a \<Rightarrow> ('a \<Rightarrow> 'e + 'b) \<Rightarrow> 'e + 'b" where
  "bindE m f = (case m of Inl e \<Rightarrow> Inl e | Inr a \<Rightarrow> f a)"

definition map_err :: "('e \<Rightarrow> 'f) \<Rightarrow> 'e + 'a \<Rightarrow> 'f + 'a" where
  "map_err g m = (case m of Inl e \<Rightarrow> Inl (g e) | Inr a \<Rightarrow> Inr a)"

definition ok_or :: "'e \<Rightarrow> 'a option \<Rightarrow> 'e + 'a" where
  "ok_or e m = (case m of None \<Rightarrow> Inl e | Some a \<Rightarrow> Inr a)"

definition unwrap_or :: "'a \<Rightarrow> 'e + 'a \<Rightarrow> 'a" where
  "unwrap_or d m = (case m of Inl _ \<Rightarrow> d | Inr a \<Rightarrow> a)"

lemma bindE_simps [simp]:
  "bindE (Inl e) f = Inl e" "bindE (Inr a) f = f a"
  by (simp_all add: bindE_def)

lemma map_err_simps [simp]:
  "map_err g (Inl e) = Inl (g e)" "map_err g (Inr a) = Inr a"
  by (simp_all add: map_err_def)

lemma ok_or_simps [simp]: "ok_or e None = Inl e" "ok_or e (Some a) = Inr a"
  by (simp_all add: ok_or_def)

lemma unwrap_or_simps [simp]: "unwrap_or d (Inl e) = d" "unwrap_or d (Inr a) = a"
  by (simp_all add: unwrap_or_def)

lemma bindE_eq_Inr [result_simps]: "bindE m f = Inr b \<longleftrightarrow> (\<exists>a. m = Inr a \<and> f a = Inr b)"
  by (cases m) auto

lemma bindE_eq_Inl [result_simps]:
  "bindE m f = Inl e \<longleftrightarrow> m = Inl e \<or> (\<exists>a. m = Inr a \<and> f a = Inl e)"
  by (cases m) auto

lemma map_err_eq_Inr [result_simps]: "map_err g m = Inr a \<longleftrightarrow> m = Inr a"
  by (cases m) auto

lemma map_err_eq_Inl [result_simps]: "map_err g m = Inl f \<longleftrightarrow> (\<exists>e. m = Inl e \<and> f = g e)"
  by (cases m) auto

lemma ok_or_eq_Inr [result_simps]: "ok_or e m = Inr a \<longleftrightarrow> m = Some a"
  by (cases m) auto

lemma ok_or_eq_Inl [result_simps]: "ok_or e m = Inl f \<longleftrightarrow> m = None \<and> f = e"
  by (cases m) auto


section \<open>Fallible computations over a state\<close>

text \<open>
  A failure keeps the state reached so far: a tool that has created a directory and then fails
  to write the file leaves the directory behind.
\<close>

type_synonym ('w, 'e, 'a) io = "'w \<Rightarrow> ('e + 'a) \<times> 'w"

definition retI :: "'a \<Rightarrow> ('w, 'e, 'a) io" where
  "retI a w = (Inr a, w)"

definition failI :: "'e \<Rightarrow> ('w, 'e, 'a) io" where
  "failI e w = (Inl e, w)"

definition bindI :: "('w, 'e, 'a) io \<Rightarrow> ('a \<Rightarrow> ('w, 'e, 'b) io) \<Rightarrow> ('w, 'e, 'b) io" where
  "bindI m f w = (case m w of (Inl e, w') \<Rightarrow> (Inl e, w') | (Inr a, w') \<Rightarrow> f a w')"

definition liftE :: "('e + 'a) \<Rightarrow> ('w, 'e, 'a) io" where
  "liftE r w = (r, w)"

definition readI :: "('w \<Rightarrow> 'e + 'a) \<Rightarrow> ('w, 'e, 'a) io" where
  "readI f w = (f w, w)"

lemma bindI_eq_Inr [result_simps]:
  "bindI m f w = (Inr b, w') \<longleftrightarrow> (\<exists>a w1. m w = (Inr a, w1) \<and> f a w1 = (Inr b, w'))"
  by (auto simp: bindI_def split: prod.splits sum.splits)

lemma bindI_eq_Inl [result_simps]:
  "bindI m f w = (Inl e, w') \<longleftrightarrow>
     m w = (Inl e, w') \<or> (\<exists>a w1. m w = (Inr a, w1) \<and> f a w1 = (Inl e, w'))"
  by (auto simp: bindI_def split: prod.splits sum.splits)

lemma io_base_eq [result_simps]:
  "retI a w = (r, w') \<longleftrightarrow> r = Inr a \<and> w' = w"
  "failI e w = (r, w') \<longleftrightarrow> r = Inl e \<and> w' = w"
  "liftE x w = (r, w') \<longleftrightarrow> x = r \<and> w' = w"
  "readI g w = (r, w') \<longleftrightarrow> g w = r \<and> w' = w"
  by (auto simp: retI_def failI_def liftE_def readI_def)

text \<open>A guard with an early return has been passed by every run that succeeds.\<close>

lemma guard_eq_Inr [result_simps]:
  "(if b then failI e else m) w = (Inr a, w') \<longleftrightarrow> \<not> b \<and> m w = (Inr a, w')"
  by (simp add: failI_def)


section \<open>Decimal rendering\<close>

definition digit_char :: "nat \<Rightarrow> char" where
  "digit_char d = char_of (48 + d)"

fun show_nat :: "nat \<Rightarrow> string" where
  "show_nat n =
     (if n < 10 then [digit_char n] else show_nat (n div 10) @ [digit_char (n mod 10)])"

declare show_nat.simps [simp del]

definition read_nat :: "string \<Rightarrow> nat" where
  "read_nat s = foldl (\<lambda>acc c. 10 * acc + (of_char c - 48)) 0 s"

lemma of_char_digit: "d < 10 \<Longrightarrow> (of_char (digit_char d) :: nat) = 48 + d"
  by (simp add: digit_char_def)

lemma read_show_nat: "read_nat (show_nat n) = n"
proof (induction n rule: show_nat.induct)
  case (1 n)
  show ?case
  proof (cases "n < 10")
    case True
    then show ?thesis by (simp add: show_nat.simps [of n] read_nat_def of_char_digit)
  next
    case False
    with 1 have "read_nat (show_nat (n div 10)) = n div 10" by simp
    with False show ?thesis
      by (simp add: show_nat.simps [of n] read_nat_def of_char_digit)
  qed
qed

lemma show_nat_inject [simp]: "show_nat m = show_nat n \<longleftrightarrow> m = n"
  by (metis read_show_nat)


section \<open>Step relations and invariants\<close>

inductive reach :: "('s \<Rightarrow> bool) \<Rightarrow> ('s \<Rightarrow> 's \<Rightarrow> bool) \<Rightarrow> 's \<Rightarrow> bool" for start step where
  reach_start: "start s \<Longrightarrow> reach start step s"
| reach_step: "reach start step s \<Longrightarrow> step s t \<Longrightarrow> reach start step t"

text \<open>
  The interface of a data refinement: a step relation whose steps are, under an abstraction
  function, steps of a specification or no change at all.
\<close>

locale simulation =
  fixes start :: "'s \<Rightarrow> bool"
    and step :: "'s \<Rightarrow> 's \<Rightarrow> bool"
    and inv :: "'s \<Rightarrow> bool"
    and spec_start :: "'a \<Rightarrow> bool"
    and spec_step :: "'a \<Rightarrow> 'a \<Rightarrow> bool"
    and abst :: "'s \<Rightarrow> 'a"
  assumes reach_inv: "reach start step s \<Longrightarrow> inv s"
    and abst_start: "start s \<Longrightarrow> spec_start (abst s)"
    and abst_step: "inv s \<Longrightarrow> step s t \<Longrightarrow> abst t = abst s \<or> spec_step (abst s) (abst t)"
begin

lemma reach_abst: "reach start step s \<Longrightarrow> reach spec_start spec_step (abst s)"
proof (induction rule: reach.induct)
  case (reach_start s)
  then show ?case by (intro reach.reach_start abst_start)
next
  case (reach_step s t)
  with abst_step [OF reach_inv, of s t] show ?case by (auto intro: reach.reach_step)
qed

lemma step_refines: "reach start step s \<Longrightarrow> step s t \<Longrightarrow> abst t = abst s \<or> spec_step (abst s) (abst t)"
  by (rule abst_step [OF reach_inv])

end

text \<open>
  The interface between a component's step relation and what is proved of its reachable
  states: a predicate that holds initially and is kept by every step.
\<close>

locale step_invariant =
  fixes start :: "'s \<Rightarrow> bool"
    and step :: "'s \<Rightarrow> 's \<Rightarrow> bool"
    and inv :: "'s \<Rightarrow> bool"
  assumes inv_start: "start s \<Longrightarrow> inv s"
    and inv_step: "inv s \<Longrightarrow> step s t \<Longrightarrow> inv t"
begin

lemma reach_inv: "reach start step s \<Longrightarrow> inv s"
  by (induction rule: reach.induct) (blast intro: inv_start inv_step)+

lemma steps_inv: "step\<^sup>*\<^sup>* s t \<Longrightarrow> inv s \<Longrightarrow> inv t"
  by (induction rule: rtranclp_induct) (blast intro: inv_step)+

lemma reach_trans_step: "reach start step s \<Longrightarrow> step s t \<Longrightarrow> inv t"
  by (blast intro: reach_inv inv_step)

end


section \<open>Lists, maps and sorting\<close>

lemma map_of_sort_key:
  "distinct (map fst kvs) \<Longrightarrow> map_of (sort_key fst kvs) = map_of kvs"
proof (rule map_of_eqI)
  show "set (map fst (sort_key fst kvs)) = set (map fst kvs)" by simp
next
  assume d: "distinct (map fst kvs)"
  have "mset (map fst (sort_key fst kvs)) = mset (map fst kvs)" by simp
  with d have d': "distinct (map fst (sort_key fst kvs))"
    using mset_eq_imp_distinct_iff by blast
  show "\<forall>k\<in>set (map fst (sort_key fst kvs)). map_of (sort_key fst kvs) k = map_of kvs k"
  proof
    fix k assume "k \<in> set (map fst (sort_key fst kvs))"
    then obtain v where "(k, v) \<in> set kvs" by auto
    with d d' show "map_of (sort_key fst kvs) k = map_of kvs k"
      by (simp add: map_of_is_SomeI)
  qed
qed

lemma filter_key_singleton:
  assumes "distinct (map f xs)" and "k \<in> set xs"
  shows "filter (\<lambda>x. f k = f x) xs = [k]"
  using assms
proof (induction xs)
  case Nil
  then show ?case by simp
next
  case (Cons x xs)
  show ?case
  proof (cases "k = x")
    case True
    with Cons.prems have "filter (\<lambda>y. f k = f y) xs = []"
      by (auto simp: filter_empty_conv)
    with True show ?thesis by simp
  next
    case False
    with Cons.prems have k: "k \<in> set xs" by auto
    then have "f k \<in> f ` set xs" by simp
    with Cons.prems have "f k \<noteq> f x" by auto
    with Cons k show ?thesis by simp
  qed
qed

text \<open>Sorting by a key that is injective on the list forgets the order it is given in.\<close>

lemma sort_key_unique:
  assumes "mset xs = mset ys" and "distinct (map f xs)"
  shows "sort_key f xs = sort_key f ys"
proof (rule properties_for_sort_key)
  show "mset (sort_key f ys) = mset xs" using assms(1) by simp
next
  have "mset (map f (sort_key f ys)) = mset (map f xs)"
    using assms(1) by simp
  then have d: "distinct (map f (sort_key f ys))"
    using assms(2) mset_eq_imp_distinct_iff by blast
  fix k assume k: "k \<in> set (sort_key f ys)"
  then have "k \<in> set xs" using assms(1) by (metis set_mset_mset set_sort)
  with k d assms(2)
  show "filter (\<lambda>x. f k = f x) (sort_key f ys) = filter (\<lambda>x. f k = f x) xs"
    by (simp add: filter_key_singleton)
qed simp

end
