(* ===== verification/Json.thy ===== *)
theory Json
  imports Prelude
begin

text \<open>
  JSON values as \<^verbatim>\<open>serde_json::Value\<close> represents them and the accessors the program uses.
  An object is the list of its entries in iteration order (ascending keys, the default
  map of the crate); a number keeps the three representations of \<^verbatim>\<open>serde_json::Number\<close>,
  a float as its text, which no code inspects.
\<close>

datatype json_number = PosInt "64 word" | NegInt int | Float string

datatype json =
    JNull
  | JBool bool
  | JNumber json_number
  | JString string
  | JArray "json list"
  | JObject "(string \<times> json) list"

definition json_object :: "(string \<times> json) list \<Rightarrow> json" where
  "json_object kvs = JObject (sort_key fst kvs)"

definition json_usize :: "nat \<Rightarrow> json" where
  "json_usize n = JNumber (PosInt (word_of_nat n))"

fun json_get :: "json \<Rightarrow> string \<Rightarrow> json option" where
  "json_get (JObject kvs) key = map_of kvs key"
| "json_get _ _ = None"

fun as_str :: "json \<Rightarrow> string option" where
  "as_str (JString s) = Some s"
| "as_str _ = None"

fun as_bool :: "json \<Rightarrow> bool option" where
  "as_bool (JBool b) = Some b"
| "as_bool _ = None"

fun as_u64 :: "json \<Rightarrow> 64 word option" where
  "as_u64 (JNumber (PosInt n)) = Some n"
| "as_u64 _ = None"

fun as_array :: "json \<Rightarrow> json list option" where
  "as_array (JArray xs) = Some xs"
| "as_array _ = None"

fun as_object :: "json \<Rightarrow> (string \<times> json) list option" where
  "as_object (JObject kvs) = Some kvs"
| "as_object _ = None"

fun_cases as_str_SomeE [elim!]: "as_str v = Some s"
fun_cases as_u64_SomeE [elim!]: "as_u64 v = Some n"
fun_cases as_array_SomeE [elim!]: "as_array v = Some xs"

text \<open>The field \<open>key\<close> of \<open>arguments\<close> when it is a string.\<close>

definition json_str :: "json \<Rightarrow> string \<Rightarrow> string option" where
  "json_str v key = Option.bind (json_get v key) as_str"

definition json_u64 :: "json \<Rightarrow> string \<Rightarrow> 64 word option" where
  "json_u64 v key = Option.bind (json_get v key) as_u64"

lemma json_get_object [simp]:
  "distinct (map fst kvs) \<Longrightarrow> json_get (json_object kvs) key = map_of kvs key"
  by (simp add: json_object_def map_of_sort_key)

lemma json_str_object [simp]:
  "distinct (map fst kvs) \<Longrightarrow> json_str (json_object kvs) key = Option.bind (map_of kvs key) as_str"
  by (simp add: json_str_def)

end
