(* ===== verification/Protocol.thy ===== *)
theory Protocol
  imports Json
begin

text \<open>
  The crate \<^verbatim>\<open>executor-protocol\<close>: the messages exchanged by the Windows host and the
  WSL guest (\<^verbatim>\<open>model.rs\<close>, \<^verbatim>\<open>message.rs\<close>) and the length-prefixed framing that carries
  them (\<^verbatim>\<open>framing.rs\<close>).
  \<^item> A reader is the bytes still to arrive and how the stream ends after them: a clean end
    of file, or an I/O error. A writer is what has been written and, when the transport is
    going to fail, after how many more bytes and with which error.
  \<^item> JSON encoding and decoding (\<^verbatim>\<open>serde_json\<close>) are parameters \<open>to_vec\<close> and \<open>from_slice\<close> of
    the framing functions.
\<close>

section \<open>Messages\<close>

record execution_request =
  er_id :: string
  er_tool :: string
  er_arguments :: json

record execution_result =
  res_execution_id :: string
  res_tool :: string
  res_content :: json
  res_is_error :: bool

record tool_descriptor =
  td_name :: string
  td_description :: string
  td_input_schema :: json

definition PROTOCOL_VERSION :: "32 word" where
  "PROTOCOL_VERSION = 2"

datatype client_message =
    CM_Hello "32 word" string string
  | CM_Execute execution_request "64 word option"
  | CM_Cancel string
  | CM_ListTools string
  | CM_Shutdown

record protocol_failure =
  pf_code :: string
  pf_message :: string

definition ProtocolFailure_new :: "string \<Rightarrow> string \<Rightarrow> protocol_failure" where
  "ProtocolFailure_new code message = \<lparr>pf_code = code, pf_message = message\<rparr>"

datatype server_message =
    SM_HelloAck "32 word" string
  | SM_Accepted string
  | SM_Started string string string
  | SM_Progress string string string "json option"
  | SM_Completed execution_result
  | SM_CancelAcknowledged string bool
  | SM_Tools string "tool_descriptor list"
  | SM_Failed "string option" protocol_failure
  | SM_ShutdownAck


section \<open>Framing\<close>

datatype io_error = UnexpectedEof | IoFailure string

datatype frame_error =
    FE_Io io_error
  | FE_TooLarge nat nat
  | FE_Serialization string

definition DEFAULT_MAX_FRAME_SIZE :: nat where
  "DEFAULT_MAX_FRAME_SIZE = 8 * 1024 * 1024"

record reader =
  rd_bytes :: "byte list"
  rd_failure :: "string option"

record writer =
  wr_bytes :: "byte list"
  wr_limit :: "(nat \<times> string) option"

text \<open>\<^verbatim>\<open>AsyncReadExt::read_exact\<close>: all the bytes asked for, or the error the stream ends with.\<close>

definition read_exact :: "nat \<Rightarrow> reader \<Rightarrow> (io_error + byte list) \<times> reader" where
  "read_exact n r =
     (if n \<le> length (rd_bytes r)
      then (Inr (take n (rd_bytes r)), r\<lparr>rd_bytes := drop n (rd_bytes r)\<rparr>)
      else (Inl (case rd_failure r of None \<Rightarrow> UnexpectedEof | Some e \<Rightarrow> IoFailure e),
            r\<lparr>rd_bytes := []\<rparr>))"

text \<open>\<^verbatim>\<open>AsyncWriteExt::write_all\<close>: a transport that fails has taken a prefix of the bytes.\<close>

definition write_all :: "byte list \<Rightarrow> writer \<Rightarrow> (io_error + unit) \<times> writer" where
  "write_all bs w =
     (case wr_limit w of
        None \<Rightarrow> (Inr (), w\<lparr>wr_bytes := wr_bytes w @ bs\<rparr>)
      | Some (n, e) \<Rightarrow>
          if length bs \<le> n
          then (Inr (), w\<lparr>wr_bytes := wr_bytes w @ bs, wr_limit := Some (n - length bs, e)\<rparr>)
          else (Inl (IoFailure e),
                w\<lparr>wr_bytes := wr_bytes w @ take n bs, wr_limit := Some (0, e)\<rparr>))"

definition u32_to_be_bytes :: "32 word \<Rightarrow> byte list" where
  "u32_to_be_bytes w =
     [ucast (drop_bit 24 w), ucast (drop_bit 16 w), ucast (drop_bit 8 w), ucast w]"

definition u32_from_be_bytes :: "byte list \<Rightarrow> 32 word" where
  "u32_from_be_bytes bs = foldl (\<lambda>acc b. or (push_bit 8 acc) (ucast b)) 0 bs"

definition read_frame ::
  "(byte list \<Rightarrow> string + 'a) \<Rightarrow> nat \<Rightarrow> reader \<Rightarrow> (frame_error + 'a option) \<times> reader"
where
  "read_frame from_slice maximum r =
     (case read_exact 4 r of
        (Inl UnexpectedEof, r1) \<Rightarrow> (Inr None, r1)
      | (Inl e, r1) \<Rightarrow> (Inl (FE_Io e), r1)
      | (Inr header, r1) \<Rightarrow>
          let len = unat (u32_from_be_bytes header) in
          if maximum < len then (Inl (FE_TooLarge len maximum), r1)
          else
            (case read_exact len r1 of
               (Inl e, r2) \<Rightarrow> (Inl (FE_Io e), r2)
             | (Inr payload, r2) \<Rightarrow>
                 (case from_slice payload of
                    Inl e \<Rightarrow> (Inl (FE_Serialization e), r2)
                  | Inr m \<Rightarrow> (Inr (Some m), r2))))"

definition write_frame ::
  "('a \<Rightarrow> string + byte list) \<Rightarrow> 'a \<Rightarrow> writer \<Rightarrow> (frame_error + unit) \<times> writer"
where
  "write_frame to_vec message w =
     (case to_vec message of
        Inl e \<Rightarrow> (Inl (FE_Serialization e), w)
      | Inr payload \<Rightarrow>
          if 2 ^ 32 \<le> length payload
          then (Inl (FE_TooLarge (length payload) (2 ^ 32 - 1)), w)
          else
            (case write_all (u32_to_be_bytes (word_of_nat (length payload))) w of
               (Inl e, w1) \<Rightarrow> (Inl (FE_Io e), w1)
             | (Inr _, w1) \<Rightarrow>
                 (case write_all payload w1 of
                    (Inl e, w2) \<Rightarrow> (Inl (FE_Io e), w2)
                  | (Inr _, w2) \<Rightarrow> (Inr (), w2))))"

text \<open>
  The two loops over frames: a writer task sends the messages it receives one after the other
  and stops at the first failure; a reading loop takes messages until the clean end or an error.
\<close>

fun write_frames ::
  "('a \<Rightarrow> string + byte list) \<Rightarrow> 'a list \<Rightarrow> writer \<Rightarrow> (frame_error + unit) \<times> writer"
where
  "write_frames to_vec [] w = (Inr (), w)"
| "write_frames to_vec (m # ms) w =
     (case write_frame to_vec m w of
        (Inl e, w1) \<Rightarrow> (Inl e, w1)
      | (Inr _, w1) \<Rightarrow> write_frames to_vec ms w1)"

lemma read_exact_shrinks:
  "read_exact n r = (res, r') \<Longrightarrow> length (rd_bytes r') \<le> length (rd_bytes r)"
  by (auto simp: read_exact_def split: if_splits)

lemma read_exact_ok:
  "read_exact n r = (Inr bs, r') \<longleftrightarrow>
     n \<le> length (rd_bytes r) \<and> bs = take n (rd_bytes r) \<and> r' = r\<lparr>rd_bytes := drop n (rd_bytes r)\<rparr>"
  by (auto simp: read_exact_def split: if_splits)

lemma read_frame_Some_shrinks:
  assumes "read_frame from_slice maximum r = (Inr (Some m), r')"
  shows "length (rd_bytes r') < length (rd_bytes r)"
  using assms
  by (auto simp: read_frame_def Let_def read_exact_ok
      split: prod.splits sum.splits io_error.splits if_splits)

function read_frames ::
  "(byte list \<Rightarrow> string + 'a) \<Rightarrow> nat \<Rightarrow> reader \<Rightarrow> 'a list \<times> (frame_error + unit) \<times> reader"
where
  "read_frames from_slice maximum r =
     (case read_frame from_slice maximum r of
        (Inl e, r1) \<Rightarrow> ([], Inl e, r1)
      | (Inr None, r1) \<Rightarrow> ([], Inr (), r1)
      | (Inr (Some m), r1) \<Rightarrow>
          (case read_frames from_slice maximum r1 of (ms, res, r2) \<Rightarrow> (m # ms, res, r2)))"
  by pat_completeness auto
termination
  by (relation "measure (\<lambda>(f, n, r). length (rd_bytes r))")
    (auto dest!: sym [of "(Inr (Some _), _)"] read_frame_Some_shrinks)

declare read_frames.simps [simp del]


section \<open>The framing round trip\<close>

lemma u32_be_bytes_length [simp]: "length (u32_to_be_bytes w) = 4"
  by (simp add: u32_to_be_bytes_def)

lemma u32_be_bytes_inverse [simp]: "u32_from_be_bytes (u32_to_be_bytes w) = w"
proof (rule bit_word_eqI)
  fix n assume "n < LENGTH(32)"
  then consider "n < 8" | "8 \<le> n" "n < 16" | "16 \<le> n" "n < 24" | "24 \<le> n" "n < 32"
    by fastforce
  then show "bit (u32_from_be_bytes (u32_to_be_bytes w)) n = bit w n"
    unfolding u32_from_be_bytes_def u32_to_be_bytes_def
    by cases (auto simp: bit_simps)
qed

lemma write_all_ok:
  "write_all bs w = (Inr u, w') \<Longrightarrow> wr_bytes w' = wr_bytes w @ bs"
  by (auto simp: write_all_def split: option.splits if_splits)

definition frame_bytes :: "byte list \<Rightarrow> byte list" where
  "frame_bytes payload = u32_to_be_bytes (word_of_nat (length payload)) @ payload"

lemma write_frame_ok:
  assumes "write_frame to_vec m w = (Inr u, w')"
  obtains payload where "to_vec m = Inr payload" "length payload < 2 ^ 32"
    "wr_bytes w' = wr_bytes w @ frame_bytes payload"
  using assms that
  by (auto simp: write_frame_def frame_bytes_def dest!: write_all_ok
      split: sum.splits prod.splits if_splits)

lemma read_frame_frame_bytes:
  assumes "rd_bytes r = frame_bytes payload @ rest"
    and "length payload \<le> maximum" and "length payload < 2 ^ 32"
    and "from_slice payload = Inr m"
  shows "read_frame from_slice maximum r = (Inr (Some m), r\<lparr>rd_bytes := rest\<rparr>)"
proof -
  have "unat (word_of_nat (length payload) :: 32 word) = length payload"
    using assms(3) by (simp add: unat_of_nat take_bit_nat_eq_self)
  with assms show ?thesis
    by (simp add: read_frame_def read_exact_def frame_bytes_def Let_def)
qed

lemma read_frames_written:
  assumes codec: "\<forall>m\<in>set ms. \<forall>payload. to_vec m = Inr payload \<longrightarrow> from_slice payload = Inr m"
    and small: "\<forall>m\<in>set ms. \<forall>payload. to_vec m = Inr payload \<longrightarrow> length payload \<le> maximum"
    and ok: "write_frames to_vec ms w = (Inr (), w')"
  shows "\<exists>bs. wr_bytes w' = wr_bytes w @ bs \<and>
    (\<forall>rest e. read_frames from_slice maximum \<lparr>rd_bytes = bs @ rest, rd_failure = e\<rparr> =
       (case read_frames from_slice maximum \<lparr>rd_bytes = rest, rd_failure = e\<rparr> of
          (ms', res, r) \<Rightarrow> (ms @ ms', res, r)))"
  using codec small ok
proof (induction ms arbitrary: w)
  case Nil
  then show ?case by (auto split: prod.splits)
next
  case (Cons m ms)
  from Cons.prems(3) obtain w1 where w1: "write_frame to_vec m w = (Inr (), w1)"
    and rest: "write_frames to_vec ms w1 = (Inr (), w')"
    by (auto split: prod.splits sum.splits)
  from w1 obtain payload where p: "to_vec m = Inr payload" "length payload < 2 ^ 32"
    "wr_bytes w1 = wr_bytes w @ frame_bytes payload"
    by (rule write_frame_ok)
  with Cons.prems(1,2) have max: "length payload \<le> maximum" and decoded: "from_slice payload = Inr m" by simp_all
  have "\<forall>m\<in>set ms. \<forall>payload. to_vec m = Inr payload \<longrightarrow> from_slice payload = Inr m"
    "\<forall>m\<in>set ms. \<forall>payload. to_vec m = Inr payload \<longrightarrow> length payload \<le> maximum"
    using Cons.prems(1,2) by simp_all
  from Cons.IH [OF this rest] obtain bs where
    bs: "wr_bytes w' = wr_bytes w1 @ bs" and
    read: "\<And>rest e. read_frames from_slice maximum \<lparr>rd_bytes = bs @ rest, rd_failure = e\<rparr> =
       (case read_frames from_slice maximum \<lparr>rd_bytes = rest, rd_failure = e\<rparr> of
          (ms', res, r) \<Rightarrow> (ms @ ms', res, r))"
    by auto
  have "read_frame from_slice maximum
      \<lparr>rd_bytes = frame_bytes payload @ bs @ rest, rd_failure = e\<rparr> =
        (Inr (Some m), \<lparr>rd_bytes = bs @ rest, rd_failure = e\<rparr>)" for rest e
    using read_frame_frame_bytes [of "\<lparr>rd_bytes = frame_bytes payload @ bs @ rest, rd_failure = e\<rparr>"
        payload "bs @ rest" maximum from_slice m]
      max p(1,2) decoded by simp
  then have "read_frames from_slice maximum
      \<lparr>rd_bytes = frame_bytes payload @ bs @ rest, rd_failure = e\<rparr> =
       (case read_frames from_slice maximum \<lparr>rd_bytes = rest, rd_failure = e\<rparr> of
          (ms', res, r) \<Rightarrow> (m # ms @ ms', res, r))" for rest e
    by (subst read_frames.simps) (simp add: read split: prod.splits)
  with bs p(3) show ?case by (intro exI [of _ "frame_bytes payload @ bs"]) simp
qed

text \<open>
  (C11) Any sequence of messages written to a connection is read back as exactly that sequence, in order, and whatever follows
  it in the stream is read as if it came first: the bytes of the sequence are consumed and no others. When nothing follows,
  that is the clean end of the stream. Asked of the messages of the sequence is that the JSON library reads
  back what it wrote for them, and that none of their encodings exceeds the reader's maximum.
\<close>

theorem frames_round_trip:
  assumes codec: "\<forall>m\<in>set ms. \<forall>payload. to_vec m = Inr payload \<longrightarrow> from_slice payload = Inr m"
    and small: "\<forall>m\<in>set ms. \<forall>payload. to_vec m = Inr payload \<longrightarrow> length payload \<le> maximum"
    and ok: "write_frames to_vec ms w = (Inr (), w')"
  shows "\<exists>bs. wr_bytes w' = wr_bytes w @ bs \<and>
    (\<forall>rest e. read_frames from_slice maximum \<lparr>rd_bytes = bs @ rest, rd_failure = e\<rparr> =
       (case read_frames from_slice maximum \<lparr>rd_bytes = rest, rd_failure = e\<rparr> of
          (ms', res, r) \<Rightarrow> (ms @ ms', res, r))) \<and>
    read_frames from_slice maximum \<lparr>rd_bytes = bs, rd_failure = None\<rparr> =
      (ms, Inr (), \<lparr>rd_bytes = [], rd_failure = None\<rparr>)"
proof -
  from read_frames_written [OF codec small ok] obtain bs where bs: "wr_bytes w' = wr_bytes w @ bs"
    and read: "\<forall>rest e. read_frames from_slice maximum \<lparr>rd_bytes = bs @ rest, rd_failure = e\<rparr> =
       (case read_frames from_slice maximum \<lparr>rd_bytes = rest, rd_failure = e\<rparr> of
          (ms', res, r) \<Rightarrow> (ms @ ms', res, r))" by blast
  have "read_frames from_slice maximum \<lparr>rd_bytes = [], rd_failure = None\<rparr> =
          ([], Inr (), \<lparr>rd_bytes = [], rd_failure = None\<rparr>)"
    by (subst read_frames.simps) (simp add: read_frame_def read_exact_def)
  with read [rule_format, of "[]" None]
  have "read_frames from_slice maximum \<lparr>rd_bytes = bs, rd_failure = None\<rparr> =
      (ms, Inr (), \<lparr>rd_bytes = [], rd_failure = None\<rparr>)"
    by simp
  with bs read show ?thesis by blast
qed

text \<open>A codec of two messages, enough to run the framing on.\<close>

definition sample_to_vec :: "client_message \<Rightarrow> string + byte list" where
  "sample_to_vec m =
     (case m of CM_Shutdown \<Rightarrow> Inr [9]
      | CM_Hello v _ _ \<Rightarrow> if m = CM_Hello v [] [] then Inr (1 # u32_to_be_bytes v) else Inl ''text''
      | _ \<Rightarrow> Inl ''unsupported'')"

definition sample_from_slice :: "byte list \<Rightarrow> string + client_message" where
  "sample_from_slice bs =
     (case bs of
        b # rest \<Rightarrow>
          if b = 9 then Inr CM_Shutdown
          else if b = 1 then Inr (CM_Hello (u32_from_be_bytes rest) [] []) else Inl ''unknown tag''
      | [] \<Rightarrow> Inl ''empty'')"

lemma sample_codec:
  "\<forall>m payload. sample_to_vec m = Inr payload \<longrightarrow> sample_from_slice payload = Inr m"
  by (auto simp: sample_to_vec_def sample_from_slice_def
      split: client_message.splits if_splits)

theorem frames_round_trip_witness:
  "\<exists>w'. write_frames sample_to_vec [CM_Hello 2 [] [], CM_Shutdown] \<lparr>wr_bytes = [], wr_limit = None\<rparr> =
      (Inr (), w') \<and>
    read_frames sample_from_slice DEFAULT_MAX_FRAME_SIZE \<lparr>rd_bytes = wr_bytes w', rd_failure = None\<rparr> =
      ([CM_Hello 2 [] [], CM_Shutdown], Inr (), \<lparr>rd_bytes = [], rd_failure = None\<rparr>)"
proof -
  obtain w' where w: "write_frames sample_to_vec [CM_Hello 2 [] [], CM_Shutdown]
      \<lparr>wr_bytes = [], wr_limit = None\<rparr> = (Inr (), w')"
    by (simp add: write_frame_def write_all_def sample_to_vec_def)
  have small: "\<forall>m\<in>set [CM_Hello 2 [] [], CM_Shutdown].
      \<forall>payload. sample_to_vec m = Inr payload \<longrightarrow> length payload \<le> DEFAULT_MAX_FRAME_SIZE"
    by (auto simp: sample_to_vec_def DEFAULT_MAX_FRAME_SIZE_def)
  have codec: "\<forall>m\<in>set [CM_Hello 2 [] [], CM_Shutdown].
      \<forall>payload. sample_to_vec m = Inr payload \<longrightarrow> sample_from_slice payload = Inr m"
    using sample_codec by blast
  show ?thesis using w frames_round_trip [OF codec small w] by auto
qed

text \<open>
  What one call of \<open>read_frame\<close> does with a stream that ends cleanly, by how much of a frame
  is there: no header byte or a partial header is the clean end; a length above the maximum is
  refused before any payload byte is read; a payload that is cut short is an I/O error; a
  complete frame is decoded and exactly its bytes are consumed.
\<close>

theorem read_frame_outcomes:
  fixes bs :: "byte list"
  defines "len \<equiv> unat (u32_from_be_bytes (take 4 bs))"
  shows "read_frame from_slice maximum \<lparr>rd_bytes = bs, rd_failure = None\<rparr> =
    (if length bs < 4 then (Inr None, \<lparr>rd_bytes = [], rd_failure = None\<rparr>)
     else if maximum < len
     then (Inl (FE_TooLarge len maximum), \<lparr>rd_bytes = drop 4 bs, rd_failure = None\<rparr>)
     else if length bs < 4 + len
     then (Inl (FE_Io UnexpectedEof), \<lparr>rd_bytes = [], rd_failure = None\<rparr>)
     else (map_err FE_Serialization (bindE (from_slice (take len (drop 4 bs))) (\<lambda>m. Inr (Some m))),
           \<lparr>rd_bytes = drop (4 + len) bs, rd_failure = None\<rparr>))"
  by (auto simp: read_frame_def read_exact_def len_def Let_def add.commute
      split: sum.splits)

end
