(* ===== verification/Paths.thy ===== *)
theory Paths
  imports Prelude
begin

text \<open>
  Unix paths as \<^verbatim>\<open>std::path\<close> compares them: a path is the sequence of its components, so
  repeated separators, a trailing separator and inner \<^verbatim>\<open>.\<close> components do not count.
  \<open>path_components\<close> is \<^verbatim>\<open>Path::components\<close> of a string, \<open>path_display\<close> the text of a path.
  The other functions are the \<^verbatim>\<open>Path\<close>/\<^verbatim>\<open>PathBuf\<close> methods the program calls.
\<close>

datatype path_component = RootDir | CurDir | ParentDir | Normal string

type_synonym path = "path_component list"

section \<open>Splitting and joining text\<close>

text \<open>\<^verbatim>\<open>str::split\<close> by one character: always at least one piece.\<close>

fun split_on :: "char \<Rightarrow> string \<Rightarrow> string list" where
  "split_on c [] = [[]]"
| "split_on c (x # xs) =
     (if x = c then [] # split_on c xs
      else (case split_on c xs of [] \<Rightarrow> [[x]] | p # ps \<Rightarrow> (x # p) # ps))"

text \<open>\<^verbatim>\<open>[String]::join\<close>.\<close>

fun join_with :: "string \<Rightarrow> string list \<Rightarrow> string" where
  "join_with sep [] = []"
| "join_with sep [s] = s"
| "join_with sep (s # ss) = s @ sep @ join_with sep ss"

lemma split_on_nonempty [simp]: "split_on c s \<noteq> []"
  by (cases s) (auto split: list.splits)

lemma split_on_no_sep: "c \<notin> set s \<Longrightarrow> split_on c s = [s]"
  by (induction s) auto

lemma split_on_append_sep: "c \<notin> set s \<Longrightarrow> split_on c (s @ c # t) = s # split_on c t"
  by (induction s) auto

lemma split_on_pieces: "p \<in> set (split_on c s) \<Longrightarrow> c \<notin> set p"
  by (induction s arbitrary: p) (auto split: if_splits list.splits)

lemma split_on_join:
  "ss \<noteq> [] \<Longrightarrow> list_all (\<lambda>s. c \<notin> set s) ss \<Longrightarrow> split_on c (join_with [c] ss) = ss"
  by (induction "[c]" ss rule: join_with.induct) (simp_all add: split_on_no_sep split_on_append_sep)


section \<open>Components\<close>

definition segment_component :: "string \<Rightarrow> path_component" where
  "segment_component s = (if s = ''..'' then ParentDir else Normal s)"

definition inner_components :: "string list \<Rightarrow> path" where
  "inner_components segs =
     map segment_component (filter (\<lambda>s. s \<noteq> [] \<and> s \<noteq> ''.'') segs)"

definition path_components :: "string \<Rightarrow> path" where
  "path_components s =
     (let segs = split_on CHR ''/'' s in
      if s \<noteq> [] \<and> hd s = CHR ''/'' then RootDir # inner_components segs
      else if hd segs = ''.'' then CurDir # inner_components (tl segs)
      else inner_components segs)"

fun component_text :: "path_component \<Rightarrow> string" where
  "component_text RootDir = ''/''"
| "component_text CurDir = ''.''"
| "component_text ParentDir = ''..''"
| "component_text (Normal s) = s"

definition path_display :: "path \<Rightarrow> string" where
  "path_display p =
     (case p of RootDir # q \<Rightarrow> CHR ''/'' # join_with ''/'' (map component_text q)
      | _ \<Rightarrow> join_with ''/'' (map component_text p))"

text \<open>The component sequences that \<^verbatim>\<open>components()\<close> can yield.\<close>

fun plain_component :: "path_component \<Rightarrow> bool" where
  "plain_component (Normal s) \<longleftrightarrow> s \<noteq> [] \<and> s \<noteq> ''.'' \<and> s \<noteq> ''..'' \<and> CHR ''/'' \<notin> set s"
| "plain_component ParentDir \<longleftrightarrow> True"
| "plain_component _ \<longleftrightarrow> False"

definition path_wf :: "path \<Rightarrow> bool" where
  "path_wf p \<longleftrightarrow>
     (case p of [] \<Rightarrow> True
      | c # q \<Rightarrow> (plain_component c \<or> c = RootDir \<or> c = CurDir) \<and> list_all plain_component q)"

definition is_absolute :: "path \<Rightarrow> bool" where
  "is_absolute p \<longleftrightarrow> (case p of RootDir # _ \<Rightarrow> True | _ \<Rightarrow> False)"

definition path_join :: "path \<Rightarrow> path \<Rightarrow> path" where
  "path_join p q =
     (if is_absolute q then q else if p = [] then q else p @ filter (\<lambda>c. c \<noteq> CurDir) q)"

definition path_parent :: "path \<Rightarrow> path option" where
  "path_parent p = (if p = [] \<or> last p = RootDir then None else Some (butlast p))"

definition path_pop :: "path \<Rightarrow> path" where
  "path_pop p = (case path_parent p of None \<Rightarrow> p | Some q \<Rightarrow> q)"

definition file_name :: "path \<Rightarrow> string option" where
  "file_name p =
     (if p = [] then None else (case last p of Normal s \<Rightarrow> Some s | _ \<Rightarrow> None))"

definition path_starts_with :: "path \<Rightarrow> path \<Rightarrow> bool" where
  "path_starts_with p base \<longleftrightarrow> prefix base p"

definition strip_prefix :: "path \<Rightarrow> path \<Rightarrow> path option" where
  "strip_prefix p base = (if prefix base p then Some (drop (length base) p) else None)"

text \<open>\<^verbatim>\<open>Path::extension\<close>: after the last dot of the file name, unless that dot is its first byte.\<close>

definition path_extension :: "path \<Rightarrow> string option" where
  "path_extension p =
     (case file_name p of
        None \<Rightarrow> None
      | Some s \<Rightarrow>
          let pieces = split_on CHR ''.'' s in
          if length pieces < 2 \<or> join_with ''.'' (butlast pieces) = [] then None
          else Some (last pieces))"

lemma inner_components_plain: 
  "(\<And>s. s \<in> set segs \<Longrightarrow> CHR ''/'' \<notin> set s) \<Longrightarrow> list_all plain_component (inner_components segs)"
  by (auto simp: inner_components_def segment_component_def list_all_iff)

lemma path_components_wf: "path_wf (path_components s)"
proof -
  have "\<And>p. p \<in> set (split_on CHR ''/'' s) \<Longrightarrow> CHR ''/'' \<notin> set p"
    by (rule split_on_pieces)
  then have "list_all plain_component (inner_components (split_on CHR ''/'' s))"
    "list_all plain_component (inner_components (tl (split_on CHR ''/'' s)))"
    by (auto intro!: inner_components_plain dest: list.set_sel(2) [OF split_on_nonempty])
  then show ?thesis
    by (auto simp: path_components_def path_wf_def Let_def split: list.splits)
qed

lemma segment_component_text: "plain_component c \<Longrightarrow> segment_component (component_text c) = c"
  by (cases c) (auto simp: segment_component_def)

lemma inner_components_text:
  "list_all plain_component q \<Longrightarrow> inner_components (map component_text q) = q"
proof (induction q)
  case (Cons c q)
  then show ?case
    by (cases c) (auto simp: inner_components_def segment_component_def)
qed (simp add: inner_components_def)

lemma component_text_no_slash: "plain_component c \<Longrightarrow> CHR ''/'' \<notin> set (component_text c)"
  by (cases c) auto

lemma component_text_plain:
  "plain_component c \<Longrightarrow> component_text c \<noteq> [] \<and> component_text c \<noteq> ''.''"
  by (cases c) auto

lemma split_display:
  assumes "list_all plain_component q" and "q \<noteq> []"
  shows "split_on CHR ''/'' (join_with ''/'' (map component_text q)) = map component_text q"
  using assms by (intro split_on_join) (auto simp: list_all_iff component_text_no_slash)

lemma join_with_Cons: "ss \<noteq> [] \<Longrightarrow> join_with sep (s # ss) = s @ sep @ join_with sep ss"
  by (cases ss) auto

lemma path_components_display_plain:
  assumes "list_all plain_component (c # q)"
  shows "path_components (join_with ''/'' (map component_text (c # q))) = c # q"
proof -
  let ?t = "join_with ''/'' (map component_text (c # q))"
  have split: "split_on CHR ''/'' ?t = map component_text (c # q)"
    using assms by (intro split_display) auto
  from assms have c: "plain_component c" by simp
  have "?t \<noteq> [] \<and> hd ?t \<noteq> CHR ''/''"
  proof -
    obtain u where u: "?t = component_text c @ u" by (cases q) auto
    have "hd (component_text c) \<in> set (component_text c)"
      using component_text_plain [OF c] by simp
    then have "hd (component_text c) \<noteq> CHR ''/''"
      using component_text_no_slash [OF c] by metis
    with u component_text_plain [OF c] show ?thesis by simp
  qed
  then show ?thesis
    using split component_text_plain [OF c] inner_components_text [OF assms]
    by (simp add: path_components_def Let_def)
qed

text \<open>Rendering a path and reading it back gives the same components.\<close>

lemma path_components_display: "path_wf p \<Longrightarrow> path_components (path_display p) = p"
proof (cases p)
  case Nil
  then show ?thesis
    by (simp add: path_display_def path_components_def inner_components_def)
next
  case (Cons c q)
  assume "path_wf p"
  with Cons have q: "list_all plain_component q"
    and c: "plain_component c \<or> c = RootDir \<or> c = CurDir"
    by (auto simp: path_wf_def)
  from c consider "plain_component c" | "c = RootDir" | "c = CurDir" by blast
  then show ?thesis
  proof cases
    case 1
    then have "c \<noteq> RootDir" by auto
    with 1 q Cons show ?thesis
      using path_components_display_plain [of c q]
      by (cases c) (simp_all add: path_display_def)
  next
    case 2
    have "inner_components (split_on CHR ''/'' (join_with ''/'' (map component_text q))) = q"
      using q split_display [OF q] inner_components_text [OF q]
      by (cases "q = []") (auto simp: inner_components_def)
    with 2 Cons show ?thesis
      by (simp add: path_display_def path_components_def inner_components_def)
  next
    case 3
    show ?thesis
    proof (cases "q = []")
      case True
      with 3 Cons show ?thesis
        by (simp add: path_display_def path_components_def inner_components_def)
    next
      case False
      then have "join_with ''/'' (map component_text (CurDir # q)) =
          ''.'' @ CHR ''/'' # join_with ''/'' (map component_text q)"
        by (simp add: join_with_Cons)
      with 3 Cons False q show ?thesis
        by (simp add: path_display_def path_components_def split_display inner_components_text)
    qed
  qed
qed

end
