(* ===== verification/Core.thy ===== *)
theory Core
  imports Protocol Paths
begin

text \<open>
  The vocabulary of the crate \<^verbatim>\<open>executor-core\<close>: errors and their stable codes
  (\<^verbatim>\<open>error.rs\<close>), configuration and per-submission controls (\<^verbatim>\<open>config.rs\<close>), observations
  (\<^verbatim>\<open>observer.rs\<close>), and the interface a tool implements (\<^verbatim>\<open>tool.rs\<close>).

  Time and interference are explicit. A cancellation token is the instant at which it becomes
  cancelled, if ever. An asynchronous operation is a \<open>run\<close>: the observations it makes, with
  their instants, and the instant and outcome of its end, if it ends. A tool describes its run
  by offsets from the instant it is started at, so it cannot finish before it starts.
\<close>

section \<open>Errors\<close>

datatype execution_error =
    ToolExecution string string
  | ToolValidation string string
  | ToolNotFound string
  | BlockingWorker string
  | TimedOut string
  | Cancelled string
  | Panicked string
  | ExecutorClosed
  | Other string

fun error_code :: "execution_error \<Rightarrow> string" where
  "error_code (ToolExecution _ _) = ''execution_error''"
| "error_code (BlockingWorker _) = ''execution_error''"
| "error_code (ToolValidation _ _) = ''validation_error''"
| "error_code (ToolNotFound _) = ''tool_not_found''"
| "error_code (TimedOut _) = ''timed_out''"
| "error_code (Cancelled _) = ''cancelled''"
| "error_code (Panicked _) = ''execution_panic''"
| "error_code ExecutorClosed = ''executor_closed''"
| "error_code (Other _) = ''execution_error''"

text \<open>The \<^verbatim>\<open>Display\<close> implementation derived from the \<^verbatim>\<open>#[error]\<close> attributes.\<close>

fun error_text :: "execution_error \<Rightarrow> string" where
  "error_text (ToolExecution tool m) = ''tool `'' @ tool @ ''` execution failed: '' @ m"
| "error_text (ToolValidation tool m) = ''tool `'' @ tool @ ''` validation failed: '' @ m"
| "error_text (ToolNotFound tool) = ''tool `'' @ tool @ ''` not found''"
| "error_text (BlockingWorker m) = ''blocking worker failed: '' @ m"
| "error_text (TimedOut m) = m"
| "error_text (Cancelled m) = m"
| "error_text (Panicked m) = ''tool panicked: '' @ m"
| "error_text ExecutorClosed = ''executor is shut down''"
| "error_text (Other m) = m"


section \<open>Environments\<close>

text \<open>A \<^verbatim>\<open>HashMap<String, String>\<close> of variables: inserting replaces, and a loop inserts one by one.\<close>

definition set_env :: "string \<Rightarrow> string \<Rightarrow> (string \<times> string) list \<Rightarrow> (string \<times> string) list" where
  "set_env k v env = filter (\<lambda>(k', _). k' \<noteq> k) env @ [(k, v)]"

definition set_envs :: "(string \<times> string) list \<Rightarrow> (string \<times> string) list \<Rightarrow> (string \<times> string) list" where
  "set_envs kvs env = fold (\<lambda>(k, v). set_env k v) kvs env"

lemma map_of_set_env: "map_of (set_env k v env) = (map_of env)(k \<mapsto> v)"
proof
  fix x
  have "map_of (filter (\<lambda>(k', _). k' \<noteq> k) env) x = (if x = k then None else map_of env x)"
    by (induction env) auto
  then show "map_of (set_env k v env) x = ((map_of env)(k \<mapsto> v)) x"
    by (auto simp: set_env_def map_add_def split: option.splits)
qed

lemma map_of_set_envs: "map_of (set_envs kvs env) = map_of env ++ map_of (rev kvs)"
  unfolding set_envs_def
proof (induction kvs arbitrary: env)
  case (Cons kv kvs)
  then show ?case
    by (cases kv) (auto simp: map_of_set_env map_add_def fun_eq_iff split: option.splits)
qed simp


section \<open>Configuration and submission controls\<close>

type_synonym token = "instant option"

record executor_config =
  ec_cwd :: path
  ec_env :: "(string \<times> string) list"
  ec_tool_timeout :: "duration option"
  ec_concurrency_limit :: usize

text \<open>\<open>current_dir\<close> is what \<^verbatim>\<open>std::env::current_dir\<close> returns.\<close>

definition ExecutorConfig_default :: "path option \<Rightarrow> executor_config" where
  "ExecutorConfig_default current_dir =
     \<lparr>ec_cwd = (case current_dir of Some d \<Rightarrow> d | None \<Rightarrow> path_components ''.''),
      ec_env = [], ec_tool_timeout = None, ec_concurrency_limit = 1\<rparr>"

record submission_controls =
  sc_deadline :: "instant option"
  sc_cancellation :: token

definition SubmissionControls_new :: submission_controls where
  "SubmissionControls_new = \<lparr>sc_deadline = None, sc_cancellation = None\<rparr>"

definition with_timeout :: "instant \<Rightarrow> duration \<Rightarrow> submission_controls \<Rightarrow> submission_controls" where
  "with_timeout now timeout c = c\<lparr>sc_deadline := Some (now + timeout)\<rparr>"

definition with_cancellation :: "token \<Rightarrow> submission_controls \<Rightarrow> submission_controls" where
  "with_cancellation t c = c\<lparr>sc_cancellation := t\<rparr>"


section \<open>Observations\<close>

datatype execution_event =
    EV_Started string string string
  | EV_Progress string string string "json option"
  | EV_Failed string string execution_error "string list" path "string list"

fun is_failed_event :: "execution_event \<Rightarrow> bool" where
  "is_failed_event (EV_Failed _ _ _ _ _ _) = True"
| "is_failed_event _ = False"

fun event_execution_id :: "execution_event \<Rightarrow> string" where
  "event_execution_id (EV_Started i _ _) = i"
| "event_execution_id (EV_Progress i _ _ _) = i"
| "event_execution_id (EV_Failed i _ _ _ _ _) = i"

text \<open>
  An observer is what its \<^verbatim>\<open>on_event\<close> does: return, or panic with some payload. \<open>notify\<close>
  gives the events delivered; a panic of the observer is caught and dropped.
\<close>

datatype panic_payload = PanicString string | PanicStr string | PanicOther

datatype 'a outcome = Returned 'a | Panic panic_payload

type_synonym observer = "execution_event \<Rightarrow> unit outcome"

definition notify :: "observer option \<Rightarrow> execution_event \<Rightarrow> execution_event list" where
  "notify obs event =
     (case obs of
        None \<Rightarrow> []
      | Some on_event \<Rightarrow> (case on_event event of Returned _ \<Rightarrow> [event] | Panic _ \<Rightarrow> [event]))"

record progress_reporter =
  pr_observer :: "observer option"
  pr_execution_id :: string
  pr_tool :: string

definition ProgressReporter_emit ::
  "progress_reporter \<Rightarrow> string \<Rightarrow> json option \<Rightarrow> execution_event list"
where
  "ProgressReporter_emit p message data =
     notify (pr_observer p) (EV_Progress (pr_execution_id p) (pr_tool p) message data)"


section \<open>Tools\<close>

record tool_context =
  tc_execution_id :: string
  tc_cwd :: path
  tc_env :: "(string \<times> string) list"
  tc_deadline :: "instant option"
  tc_cancellation :: token
  tc_progress :: progress_reporter

record tool_definition =
  tdef_name :: string
  tdef_description :: string
  tdef_input_schema :: json

definition ToolDescriptor_from :: "tool_definition \<Rightarrow> tool_descriptor" where
  "ToolDescriptor_from d =
     \<lparr>td_name = tdef_name d, td_description = tdef_description d,
      td_input_schema = tdef_input_schema d\<rparr>"

text \<open>
  What an asynchronous call of a tool does once started: the progress reports it emits, each
  at an offset from the start, and its end, if it has one.
\<close>

record 'a activity =
  act_progress :: "(duration \<times> string \<times> json option) list"
  act_end :: "(duration \<times> 'a outcome) option"

record tool =
  t_definition :: tool_definition
  t_is_concurrency_safe :: "json \<Rightarrow> bool outcome"
  t_invocation_detail :: "json \<Rightarrow> string outcome"
  t_validate :: "json \<Rightarrow> tool_context \<Rightarrow> (execution_error + unit) activity"
  t_invoke :: "json \<Rightarrow> tool_context \<Rightarrow> (execution_error + json) activity"

text \<open>The methods a tool inherits when it does not define them.\<close>

definition default_is_concurrency_safe :: "json \<Rightarrow> bool outcome" where
  "default_is_concurrency_safe _ = Returned False"

definition default_invocation_detail :: "json \<Rightarrow> string outcome" where
  "default_invocation_detail _ = Returned []"

definition default_validate :: "json \<Rightarrow> tool_context \<Rightarrow> (execution_error + unit) activity" where
  "default_validate _ _ = \<lparr>act_progress = [], act_end = Some (0, Returned (Inr ()))\<rparr>"

text \<open>
  \<^verbatim>\<open>ToolContext::run_blocking\<close>: the operation runs on a worker thread, given the token; a
  panic of the worker is reported as an error, never propagated.
\<close>

definition run_blocking ::
  "(panic_payload \<Rightarrow> string) \<Rightarrow> tool_context \<Rightarrow> (token \<Rightarrow> (execution_error + 'a) outcome) \<Rightarrow>
     execution_error + 'a"
where
  "run_blocking join_error ctx operation =
     (case operation (tc_cancellation ctx) of
        Returned r \<Rightarrow> r
      | Panic p \<Rightarrow> Inl (BlockingWorker (join_error p)))"


section \<open>Runs\<close>

record 'a run =
  run_events :: "(instant \<times> execution_event) list"
  run_end :: "(instant \<times> 'a outcome) option"

definition run_of :: "instant \<Rightarrow> execution_event list \<Rightarrow> 'a outcome \<Rightarrow> 'a run" where
  "run_of t evs out = \<lparr>run_events = map (\<lambda>e. (t, e)) evs, run_end = Some (t, out)\<rparr>"

definition run_bind :: "'a run \<Rightarrow> ('a \<Rightarrow> instant \<Rightarrow> 'b run) \<Rightarrow> 'b run" where
  "run_bind r f =
     (case run_end r of
        None \<Rightarrow> \<lparr>run_events = run_events r, run_end = None\<rparr>
      | Some (t, Panic p) \<Rightarrow> \<lparr>run_events = run_events r, run_end = Some (t, Panic p)\<rparr>
      | Some (t, Returned a) \<Rightarrow>
          \<lparr>run_events = run_events r @ run_events (f a t), run_end = run_end (f a t)\<rparr>)"

definition start_activity :: "progress_reporter \<Rightarrow> instant \<Rightarrow> 'a activity \<Rightarrow> 'a run" where
  "start_activity p t a =
     \<lparr>run_events =
        concat (map (\<lambda>(off, m, d). map (\<lambda>e. (t + off, e)) (ProgressReporter_emit p m d))
          (filter (\<lambda>(off, _). case act_end a of None \<Rightarrow> True | Some (n, _) \<Rightarrow> off \<le> n)
             (act_progress a))),
      run_end = map_option (\<lambda>(off, out). (t + off, out)) (act_end a)\<rparr>"

text \<open>Number of failure observations in a run.\<close>

definition failed_events :: "(instant \<times> execution_event) list \<Rightarrow> (instant \<times> execution_event) list"
where
  "failed_events evs = filter (\<lambda>(_, e). is_failed_event e) evs"

lemma failed_events_simps [simp]:
  "failed_events [] = []"
  "failed_events (x # xs) = (if is_failed_event (snd x) then [x] else []) @ failed_events xs"
  "failed_events (xs @ ys) = failed_events xs @ failed_events ys"
  by (auto simp: failed_events_def split: prod.splits)

lemma notify_cases: "notify obs e = (if obs = None then [] else [e])"
  by (auto simp: notify_def split: option.splits outcome.splits)

lemma failed_events_progress [simp]:
  "failed_events (run_events (start_activity p t a)) = []"
  by (auto simp: failed_events_def start_activity_def ProgressReporter_emit_def notify_cases
      filter_empty_conv)

lemma run_end_start [simp]:
  "run_end (start_activity p t a) = map_option (\<lambda>(off, out). (t + off, out)) (act_end a)"
  by (simp add: start_activity_def)

lemma run_end_run_of [simp]: "run_end (run_of t evs out) = Some (t, out)"
  by (simp add: run_of_def)

lemma run_events_run_of [simp]: "run_events (run_of t evs out) = map (\<lambda>e. (t, e)) evs"
  by (simp add: run_of_def)

end
