(* ===== verification/Registry.thy ===== *)
theory Registry
  imports Core
begin

text \<open>
  The tool registry (\<^verbatim>\<open>executor-core/src/registry.rs\<close>). The \<^verbatim>\<open>HashMap\<close> from names to
  registered tools is an association list: its order stands for the iteration order of the
  hash map, on which nothing observable may depend. The JSON-schema compiler
  (\<^verbatim>\<open>jsonschema::validator_for\<close>) is the parameter \<open>validator_for\<close>: an error text, or the
  compiled validator, which yields the error text for arguments it refuses.

  The interface other components rely on is the locale \<open>tool_table\<close>: registering a fresh name
  succeeds and changes the lookup of that name only, registering a taken name fails.
\<close>

type_synonym validator = "json \<Rightarrow> string option"

record registered_tool =
  rt_implementation :: tool
  rt_definition :: tool_definition
  rt_validator :: "validator option"

datatype registry_error = DuplicateTool string

type_synonym tool_registry = "(string \<times> registered_tool) list"

definition validate_arguments :: "registered_tool \<Rightarrow> json \<Rightarrow> execution_error + unit" where
  "validate_arguments rt arguments =
     (case rt_validator rt of
        None \<Rightarrow> Inr ()
      | Some validator \<Rightarrow>
          (case validator arguments of
             None \<Rightarrow> Inr ()
           | Some e \<Rightarrow> Inl (ToolValidation (tdef_name (rt_definition rt)) e)))"

definition ToolRegistry_new :: tool_registry where
  "ToolRegistry_new = []"

definition registered ::
  "(json \<Rightarrow> string + validator) \<Rightarrow> tool \<Rightarrow> registered_tool"
where
  "registered validator_for t =
     \<lparr>rt_implementation = t, rt_definition = t_definition t,
      rt_validator =
        (case validator_for (tdef_input_schema (t_definition t)) of
           Inl _ \<Rightarrow> None | Inr v \<Rightarrow> Some v)\<rparr>"

definition register ::
  "(json \<Rightarrow> string + validator) \<Rightarrow> tool \<Rightarrow> tool_registry \<Rightarrow> registry_error + tool_registry"
where
  "register validator_for t reg =
     (let name = tdef_name (t_definition t) in
      if map_of reg name \<noteq> None then Inl (DuplicateTool name)
      else Inr ((name, registered validator_for t) # reg))"

definition resolve :: "tool_registry \<Rightarrow> string \<Rightarrow> execution_error + registered_tool" where
  "resolve reg name = ok_or (ToolNotFound name) (map_of reg name)"

definition registry_get :: "tool_registry \<Rightarrow> string \<Rightarrow> execution_error + tool" where
  "registry_get reg name = bindE (resolve reg name) (\<lambda>rt. Inr (rt_implementation rt))"

definition registry_definition :: "tool_registry \<Rightarrow> string \<Rightarrow> execution_error + tool_definition" where
  "registry_definition reg name = bindE (resolve reg name) (\<lambda>rt. Inr (rt_definition rt))"

definition registry_list :: "tool_registry \<Rightarrow> tool_descriptor list" where
  "registry_list reg =
     sort_key td_name (map (\<lambda>(_, rt). ToolDescriptor_from (rt_definition rt)) reg)"

text \<open>The invariant: one entry per name, and each entry is filed under its own name.\<close>

definition registry_wf :: "tool_registry \<Rightarrow> bool" where
  "registry_wf reg \<longleftrightarrow>
     distinct (map fst reg) \<and> list_all (\<lambda>(n, rt). tdef_name (rt_definition rt) = n) reg"

lemma registry_wf_new [simp]: "registry_wf ToolRegistry_new"
  by (simp add: registry_wf_def ToolRegistry_new_def)

lemma register_eq_Inr [result_simps]:
  "register vf t reg = Inr reg' \<longleftrightarrow>
     map_of reg (tdef_name (t_definition t)) = None \<and>
     reg' = (tdef_name (t_definition t), registered vf t) # reg"
  by (auto simp: register_def Let_def)

lemma register_wf: "registry_wf reg \<Longrightarrow> register vf t reg = Inr reg' \<Longrightarrow> registry_wf reg'"
  by (auto simp: registry_wf_def result_simps registered_def map_of_eq_None_iff)


section \<open>The interface of a table of named tools\<close>

locale tool_table =
  fixes empty :: 'r
    and add :: "'t \<Rightarrow> 'r \<Rightarrow> registry_error + 'r"
    and lookup :: "'r \<Rightarrow> string \<Rightarrow> 'e option"
    and name_of :: "'t \<Rightarrow> string"
    and entry :: "'t \<Rightarrow> 'e"
  assumes lookup_empty: "lookup empty n = None"
    and add_fresh: "lookup r (name_of t) = None \<Longrightarrow>
      \<exists>r'. add t r = Inr r' \<and> lookup r' = (lookup r)(name_of t \<mapsto> entry t)"
    and add_taken: "lookup r (name_of t) = Some e \<Longrightarrow> add t r = Inl (DuplicateTool (name_of t))"
begin

text \<open>Registering a sequence of tools, stopping at the first failure (\<^verbatim>\<open>?\<close>).\<close>

fun add_all :: "'t list \<Rightarrow> 'r \<Rightarrow> registry_error + 'r" where
  "add_all [] r = Inr r"
| "add_all (t # ts) r = bindE (add t r) (add_all ts)"

lemma add_Inr: "add t r = Inr r' \<Longrightarrow> lookup r' = (lookup r)(name_of t \<mapsto> entry t)"
  using add_fresh [of r t] add_taken [of r t] by (cases "lookup r (name_of t)") auto

lemma add_monotone: "add t r = Inr r' \<Longrightarrow> lookup r n = Some e \<Longrightarrow> lookup r' n = Some e"
  using add_Inr [of t r r'] add_taken [of r t] by (auto split: if_splits)

lemma add_all_fresh:
  "distinct (map name_of ts) \<Longrightarrow> \<forall>t\<in>set ts. lookup r (name_of t) = None \<Longrightarrow>
     \<exists>r'. add_all ts r = Inr r' \<and>
       lookup r' = lookup r ++ map_of (map (\<lambda>t. (name_of t, entry t)) ts)"
proof (induction ts arbitrary: r)
  case Nil
  then show ?case by simp
next
  case (Cons t ts)
  then have "lookup r (name_of t) = None" by simp
  from add_fresh [OF this] obtain r1
    where r1: "add t r = Inr r1" "lookup r1 = (lookup r)(name_of t \<mapsto> entry t)"
    by blast
  have "\<forall>u\<in>set ts. lookup r1 (name_of u) = None"
    using Cons.prems r1(2) by (auto simp: image_iff)
  with Cons.IH [of r1] Cons.prems(1) obtain r' where "add_all ts r1 = Inr r'"
    "lookup r' = lookup r1 ++ map_of (map (\<lambda>t. (name_of t, entry t)) ts)"
    by fastforce
  moreover have "map_of (map (\<lambda>t. (name_of t, entry t)) ts) (name_of t) = None"
    using Cons.prems(1) by (auto simp: map_of_eq_None_iff image_iff)
  ultimately show ?case
    using r1 by (intro exI [of _ r']) (auto simp: map_add_def fun_eq_iff split: option.splits)
qed

lemma add_all_duplicate:
  "\<not> distinct (map name_of ts) \<or> (\<exists>t\<in>set ts. lookup r (name_of t) \<noteq> None) \<Longrightarrow>
     \<exists>n. add_all ts r = Inl (DuplicateTool n)"
proof (induction ts arbitrary: r)
  case Nil
  then show ?case by simp
next
  case (Cons t ts)
  show ?case
  proof (cases "lookup r (name_of t)")
    case None
    from add_fresh [OF this] obtain r1
      where r1: "add t r = Inr r1" "lookup r1 = (lookup r)(name_of t \<mapsto> entry t)"
      by blast
    have "\<not> distinct (map name_of ts) \<or> (\<exists>u\<in>set ts. lookup r1 (name_of u) \<noteq> None)"
      using Cons.prems None r1(2) by (auto simp: image_iff)
    from Cons.IH [OF this] r1(1) show ?thesis by simp
  qed (simp add: add_taken)
qed

end

interpretation reg: tool_table ToolRegistry_new "register vf" map_of
  "\<lambda>t. tdef_name (t_definition t)" "registered vf"
  for vf :: "json \<Rightarrow> string + validator"
  by unfold_locales (auto simp: ToolRegistry_new_def register_def Let_def)



section \<open>Properties\<close>

text \<open>
  Registration never replaces a tool. It succeeds exactly on a name that did not resolve;
  then that name resolves to the tool that was registered, every other name resolves as before
  and the registry invariant is kept. A name that resolves is refused as a duplicate.
\<close>

theorem register_resolve:
  "case register vf t reg of
     Inl e \<Rightarrow>
       e = DuplicateTool (tdef_name (t_definition t)) \<and>
       (\<exists>rt. resolve reg (tdef_name (t_definition t)) = Inr rt)
   | Inr reg' \<Rightarrow>
       resolve reg (tdef_name (t_definition t)) = Inl (ToolNotFound (tdef_name (t_definition t))) \<and>
       resolve reg' (tdef_name (t_definition t)) = Inr (registered vf t) \<and>
       (\<forall>n. n \<noteq> tdef_name (t_definition t) \<longrightarrow> resolve reg' n = resolve reg n) \<and>
       (registry_wf reg \<longrightarrow> registry_wf reg')"
proof (cases "register vf t reg")
  case (Inl e)
  then show ?thesis
    by (auto simp: register_def resolve_def Let_def split: if_splits)
next
  case (Inr reg')
  have none: "map_of reg (tdef_name (t_definition t)) = None"
    using Inr by (simp add: result_simps)
  have "map_of reg' = (map_of reg)(tdef_name (t_definition t) \<mapsto> registered vf t)"
    using Inr by (rule reg.add_Inr)
  with none show ?thesis
    unfolding Inr sum.case using register_wf [OF _ Inr] by (simp add: resolve_def)
qed

theorem register_resolve_witness:
  "\<exists>t reg'. register (\<lambda>_. Inl ''bad schema'') t ToolRegistry_new = Inr reg' \<and>
     resolve reg' ''Read'' = Inr (registered (\<lambda>_. Inl ''bad schema'') t) \<and>
     rt_validator (registered (\<lambda>_. Inl ''bad schema'') t) = None"
proof -
  define t where "t = \<lparr>t_definition = \<lparr>tdef_name = ''Read'', tdef_description = [], tdef_input_schema = JNull\<rparr>,
    t_is_concurrency_safe = default_is_concurrency_safe,
    t_invocation_detail = default_invocation_detail, t_validate = default_validate,
    t_invoke = (\<lambda>_ _. \<lparr>act_progress = [], act_end = None\<rparr>)\<rparr>"
  have "register (\<lambda>_. Inl ''bad schema'') t ToolRegistry_new =
      Inr [(''Read'', registered (\<lambda>_. Inl ''bad schema'') t)]"
    by (simp add: register_def ToolRegistry_new_def t_def)
  moreover from this register_resolve [where vf = "\<lambda>_. Inl ''bad schema''" and t = t and reg = ToolRegistry_new]
  have "resolve [(''Read'', registered (\<lambda>_. Inl ''bad schema'') t)] ''Read'' =
      Inr (registered (\<lambda>_. Inl ''bad schema'') t)"
    by (simp add: t_def)
  ultimately show ?thesis by (auto simp: registered_def)
qed

lemma registry_list_names: "map td_name (registry_list reg) = sort (map (\<lambda>(_, rt). tdef_name (rt_definition rt)) reg)"
proof -
  have "sorted (map td_name (registry_list reg))" by (simp add: registry_list_def)
  moreover have "mset (map td_name (registry_list reg)) = mset (map (\<lambda>(_, rt). tdef_name (rt_definition rt)) reg)"
    by (simp add: registry_list_def ToolDescriptor_from_def image_mset.compositionality
        comp_def case_prod_unfold)
  ultimately show ?thesis by (metis properties_for_sort)
qed

lemma registry_wf_names:
  "registry_wf reg \<Longrightarrow> map (\<lambda>(_, rt). tdef_name (rt_definition rt)) reg = map fst reg"
  by (auto simp: registry_wf_def list_all_iff)

text \<open>
  The capability snapshot is deterministic: it has one descriptor per registered tool,
  in strictly ascending order of names, and it does not depend on the iteration order of the
  hash map.
\<close>

theorem registry_list_deterministic:
  assumes "registry_wf reg" and "mset reg' = mset reg"
  shows "registry_list reg' = registry_list reg \<and>
    map td_name (registry_list reg) = sorted_list_of_set (set (map fst reg)) \<and>
    sorted_wrt (<) (map td_name (registry_list reg))"
proof (intro conjI)
  let ?d = "\<lambda>(_ :: string, rt). ToolDescriptor_from (rt_definition rt)"
  have dist: "distinct (map fst reg)" using assms(1) by (simp add: registry_wf_def)
  have names: "map td_name (registry_list reg) = sort (map fst reg)"
    unfolding registry_list_names registry_wf_names [OF assms(1)] ..
  have d: "map td_name (map ?d reg) = map fst reg"
    using registry_wf_names [OF assms(1)]
    by (simp add: ToolDescriptor_from_def case_prod_unfold comp_def)
  have "distinct (map td_name (map ?d reg))" unfolding d by (rule dist)
  moreover have "mset (map ?d reg) = mset (map ?d reg')" using assms(2) by simp
  ultimately show "registry_list reg' = registry_list reg"
    unfolding registry_list_def by (metis sort_key_unique)
  show "map td_name (registry_list reg) = sorted_list_of_set (set (map fst reg))"
    unfolding names sorted_list_of_set_sort_remdups distinct_remdups_id [OF dist] ..
  then show "sorted_wrt (<) (map td_name (registry_list reg))"
    by (simp add: strict_sorted_list_of_set)
qed

theorem registry_list_deterministic_witness:
  "\<exists>a b. a \<noteq> b \<and> registry_list [(''b'', b), (''a'', a)] = registry_list [(''a'', a), (''b'', b)] \<and>
     map td_name (registry_list [(''a'', a), (''b'', b)]) = [''a'', ''b'']"
proof -
  define mk where "mk n = registered (\<lambda>_. Inl [])
    \<lparr>t_definition = \<lparr>tdef_name = n, tdef_description = [], tdef_input_schema = JNull\<rparr>,
     t_is_concurrency_safe = default_is_concurrency_safe,
     t_invocation_detail = default_invocation_detail, t_validate = default_validate,
     t_invoke = (\<lambda>_ _. \<lparr>act_progress = [], act_end = None\<rparr>)\<rparr>" for n
  have def: "tdef_name (rt_definition (mk n)) = n" for n
    by (simp add: mk_def registered_def)
  have "registry_wf [(''a'', mk ''a''), (''b'', mk ''b'')]"
    by (simp add: registry_wf_def def)
  from registry_list_deterministic [OF this, of "[(''b'', mk ''b''), (''a'', mk ''a'')]"]
  have "registry_list [(''b'', mk ''b''), (''a'', mk ''a'')] =
      registry_list [(''a'', mk ''a''), (''b'', mk ''b'')]"
    "map td_name (registry_list [(''a'', mk ''a''), (''b'', mk ''b'')]) =
      sorted_list_of_set {''a'', ''b''}"
    by simp_all
  moreover have "sorted_list_of_set {''a'', ''b''} = [''a'', ''b'']"
    using sorted_list_of_set_sort_remdups [of "[''a'', ''b'']"] by simp
  moreover have "mk ''a'' \<noteq> mk ''b''"
  proof
    assume "mk ''a'' = mk ''b''"
    then have "tdef_name (rt_definition (mk ''a'')) = tdef_name (rt_definition (mk ''b''))" by simp
    then show False unfolding def by simp
  qed
  ultimately show ?thesis by (intro exI [of _ "mk ''a''"] exI [of _ "mk ''b''"] conjI) simp_all
qed

end
