(* ===== verification/Invocation.thy ===== *)
theory Invocation
  imports Registry
begin

text \<open>
  Invoking one resolved tool (\<^verbatim>\<open>executor-core/src/invocation.rs\<close>). \<open>invoke\<close> races the
  tool against cancellation and the deadline. The \<^verbatim>\<open>biased\<close> select polls cancellation first,
  then the deadline, then the operation, so the earliest instant wins and ties go in that
  order; the operation is dropped then, and of its observations only those made before that
  instant have happened. The result is paired with the context's cancellation token as the
  call leaves it, since a timeout cancels the token the tool was given.
\<close>

section \<open>Error results\<close>

definition error_result :: "execution_request \<Rightarrow> string \<Rightarrow> string \<Rightarrow> execution_result" where
  "error_result request kind message =
     \<lparr>res_execution_id = er_id request, res_tool = er_tool request,
      res_content =
        json_object [(''error'', json_object [(''kind'', JString kind), (''message'', JString message)])],
      res_is_error = True\<rparr>"

definition argument_keys :: "json \<Rightarrow> string list" where
  "argument_keys arguments = (case as_object arguments of None \<Rightarrow> [] | Some kvs \<Rightarrow> map fst kvs)"

definition failed_event :: "execution_request \<Rightarrow> tool_context \<Rightarrow> execution_error \<Rightarrow> execution_event" where
  "failed_event request ctx e =
     EV_Failed (er_id request) (er_tool request) e (argument_keys (er_arguments request))
       (tc_cwd ctx) (map fst (tc_env ctx))"

definition fail_with ::
  "observer option \<Rightarrow> execution_request \<Rightarrow> tool_context \<Rightarrow> execution_error \<Rightarrow>
     execution_event list \<times> execution_result"
where
  "fail_with obs request ctx e =
     (notify obs (failed_event request ctx e), error_result request (error_code e) (error_text e))"

definition fail_run ::
  "observer option \<Rightarrow> execution_request \<Rightarrow> tool_context \<Rightarrow> execution_error \<Rightarrow> instant \<Rightarrow>
     execution_result run"
where
  "fail_run obs request ctx e t =
     (case fail_with obs request ctx e of (evs, res) \<Rightarrow> run_of t evs (Returned res))"


section \<open>The operation and its race\<close>

definition invoke_inner ::
  "observer option \<Rightarrow> execution_request \<Rightarrow> registered_tool \<Rightarrow> tool_context \<Rightarrow> instant \<Rightarrow>
     execution_result run"
where
  "invoke_inner obs request rt ctx t =
     (case validate_arguments rt (er_arguments request) of
        Inl e \<Rightarrow> fail_run obs request ctx e t
      | Inr _ \<Rightarrow>
          run_bind
            (start_activity (tc_progress ctx) t
               (t_validate (rt_implementation rt) (er_arguments request) ctx))
            (\<lambda>validated t1.
               case validated of
                 Inl e \<Rightarrow> fail_run obs request ctx e t1
               | Inr _ \<Rightarrow>
                   run_bind
                     (start_activity (tc_progress ctx) t1
                        (t_invoke (rt_implementation rt) (er_arguments request) ctx))
                     (\<lambda>output t2.
                        case output of
                          Inl e \<Rightarrow> fail_run obs request ctx e t2
                        | Inr content \<Rightarrow>
                            run_of t2 []
                              (Returned
                                 \<lparr>res_execution_id = er_id request, res_tool = er_tool request,
                                  res_content = content, res_is_error = False\<rparr>))))"

datatype 'a select_outcome = Completed 'a | DeadlinePassed | WasCancelled

text \<open>When a wait that is already due at the instant it starts completes.\<close>

definition due :: "instant \<Rightarrow> instant option \<Rightarrow> instant option" where
  "due t0 x = map_option (max t0) x"

text \<open>\<open>not_after x y\<close>: \<open>x\<close> happens, and not after \<open>y\<close>.\<close>

fun not_after :: "instant option \<Rightarrow> instant option \<Rightarrow> bool" where
  "not_after None _ = False"
| "not_after (Some a) None = True"
| "not_after (Some a) (Some b) = (a \<le> b)"

definition cut_run :: "'a run \<Rightarrow> instant \<Rightarrow> 'b \<Rightarrow> 'b run" where
  "cut_run r t b =
     \<lparr>run_events = filter (\<lambda>(u, _). u < t) (run_events r), run_end = Some (t, Returned b)\<rparr>"

definition complete_run :: "'a run \<Rightarrow> 'a select_outcome run" where
  "complete_run r =
     \<lparr>run_events = run_events r,
      run_end =
        map_option (\<lambda>(t, out). (t, case out of Returned a \<Rightarrow> Returned (Completed a) | Panic p \<Rightarrow> Panic p))
          (run_end r)\<rparr>"

definition select_run ::
  "instant \<Rightarrow> token \<Rightarrow> instant option \<Rightarrow> 'a run \<Rightarrow> 'a select_outcome run"
where
  "select_run t0 cancellation deadline r =
     (let tc = due t0 cancellation; td = due t0 deadline; te = map_option fst (run_end r) in
      if not_after tc td \<and> not_after tc te then cut_run r (the tc) WasCancelled
      else if not_after td te then cut_run r (the td) DeadlinePassed
      else complete_run r)"

definition cancel_token :: "instant \<Rightarrow> token \<Rightarrow> token" where
  "cancel_token t tok = (case tok of None \<Rightarrow> Some t | Some c \<Rightarrow> Some (min c t))"

definition invoke ::
  "observer option \<Rightarrow> execution_request \<Rightarrow> registered_tool \<Rightarrow> tool_context \<Rightarrow> instant \<Rightarrow>
     (execution_result \<times> token) run"
where
  "invoke obs request rt ctx t =
     run_bind
       (select_run t (tc_cancellation ctx) (tc_deadline ctx) (invoke_inner obs request rt ctx t))
       (\<lambda>outcome t'.
          case outcome of
            Completed res \<Rightarrow> run_of t' [] (Returned (res, tc_cancellation ctx))
          | DeadlinePassed \<Rightarrow>
              run_bind (fail_run obs request ctx (TimedOut ''execution deadline exceeded'') t')
                (\<lambda>res u. run_of u [] (Returned (res, cancel_token t' (tc_cancellation ctx))))
          | WasCancelled \<Rightarrow>
              run_bind (fail_run obs request ctx (Cancelled ''execution cancelled'') t')
                (\<lambda>res u. run_of u [] (Returned (res, cancel_token t' (tc_cancellation ctx)))))"


section \<open>Lemmas on runs\<close>

lemma run_bind_simps [simp]:
  "run_bind (run_of t evs (Returned a)) f =
     \<lparr>run_events = map (\<lambda>e. (t, e)) evs @ run_events (f a t), run_end = run_end (f a t)\<rparr>"
  "run_bind (run_of t evs (Panic p)) f =
     \<lparr>run_events = map (\<lambda>e. (t, e)) evs, run_end = Some (t, Panic p)\<rparr>"
  by (simp_all add: run_bind_def run_of_def)

lemma fail_run_def2:
  "fail_run obs request ctx e t =
     run_of t (if obs = None then [] else [failed_event request ctx e])
       (Returned (error_result request (error_code e) (error_text e)))"
  by (simp add: fail_run_def fail_with_def notify_cases)

lemma run_end_bind_Some:
  "run_end (run_bind r f) = Some (t, out) \<longleftrightarrow>
     (\<exists>p. run_end r = Some (t, Panic p) \<and> out = Panic p) \<or>
     (\<exists>a u. run_end r = Some (u, Returned a) \<and> run_end (f a u) = Some (t, out))"
  by (auto simp: run_bind_def split: option.splits prod.splits outcome.splits)

lemma run_events_bind:
  "run_events (run_bind r f) =
     run_events r @ (case run_end r of Some (u, Returned a) \<Rightarrow> run_events (f a u) | _ \<Rightarrow> [])"
  by (auto simp: run_bind_def split: option.splits prod.splits outcome.splits)

lemma is_failed_failed_event [simp]: "is_failed_event (failed_event request ctx e)"
  by (simp add: failed_event_def)

lemma failed_events_fail_run:
  "failed_events (run_events (fail_run obs request ctx e t)) =
     (if obs = None then [] else [(t, failed_event request ctx e)])"
  by (simp add: fail_run_def2)

lemma run_end_fail_run [simp]:
  "run_end (fail_run obs request ctx e t) =
     Some (t, Returned (error_result request (error_code e) (error_text e)))"
  by (simp add: fail_run_def2)

lemma error_result_simps [simp]:
  "res_execution_id (error_result request k m) = er_id request"
  "res_tool (error_result request k m) = er_tool request"
  "res_is_error (error_result request k m)"
  by (simp_all add: error_result_def)

text \<open>
  What a finished request has reported of its failure: exactly one failure observation when
  it failed and an observer is attached, none otherwise, and the observation and the result
  carry the same error.
\<close>

definition reports_failure ::
  "observer option \<Rightarrow> execution_request \<Rightarrow> tool_context \<Rightarrow> (instant \<times> execution_event) list \<Rightarrow>
     instant \<Rightarrow> execution_result \<Rightarrow> bool"
where
  "reports_failure obs request ctx evs t res \<longleftrightarrow>
     res_execution_id res = er_id request \<and> res_tool res = er_tool request \<and>
     (if res_is_error res
      then \<exists>e. res = error_result request (error_code e) (error_text e) \<and>
             failed_events evs = (if obs = None then [] else [(t, failed_event request ctx e)])
      else failed_events evs = [])"

lemma reports_failure_fail_run:
  "failed_events evs = [] \<Longrightarrow>
     reports_failure obs request ctx
       (evs @ run_events (fail_run obs request ctx e t)) t
       (error_result request (error_code e) (error_text e))"
  by (auto simp: reports_failure_def error_result_def failed_events_fail_run)


section \<open>What the operation does on every branch\<close>

definition tool_succeeds ::
  "execution_request \<Rightarrow> registered_tool \<Rightarrow> tool_context \<Rightarrow> instant \<Rightarrow> instant \<Rightarrow> json \<Rightarrow> bool"
where
  "tool_succeeds request rt ctx t t' content \<longleftrightarrow>
     validate_arguments rt (er_arguments request) = Inr () \<and>
     (\<exists>d1 d2.
        act_end (t_validate (rt_implementation rt) (er_arguments request) ctx) =
          Some (d1, Returned (Inr ())) \<and>
        act_end (t_invoke (rt_implementation rt) (er_arguments request) ctx) =
          Some (d2, Returned (Inr content)) \<and>
        t' = t + d1 + d2)"

lemma activity_cases [case_names hangs panics fails returns]:
  obtains "act_end a = None"
  | d p where "act_end a = Some (d, Panic p)"
  | d e where "act_end a = Some (d, Returned (Inl e))"
  | d v where "act_end a = Some (d, Returned (Inr v))"
  by (metis not_None_eq old.sum.exhaust outcome.exhaust surj_pair)

lemma invoke_inner_cases [case_names hangs panics fails succeeds]:
  fixes obs request rt ctx t
  defines "r \<equiv> invoke_inner obs request rt ctx t"
  obtains "run_end r = None" "failed_events (run_events r) = []"
  | t' p where "run_end r = Some (t', Panic p)" "failed_events (run_events r) = []" "t \<le> t'"
  | t' e where
      "run_end r = Some (t', Returned (error_result request (error_code e) (error_text e)))"
      "failed_events (run_events r) = (if obs = None then [] else [(t', failed_event request ctx e)])"
      "t \<le> t'"
  | t' content where
      "run_end r = Some (t', Returned
         \<lparr>res_execution_id = er_id request, res_tool = er_tool request,
          res_content = content, res_is_error = False\<rparr>)"
      "failed_events (run_events r) = []" "tool_succeeds request rt ctx t t' content" "t \<le> t'"
proof -
  let ?v = "t_validate (rt_implementation rt) (er_arguments request) ctx"
  let ?i = "t_invoke (rt_implementation rt) (er_arguments request) ctx"
  note defs = r_def invoke_inner_def run_bind_def fail_run_def2 tool_succeeds_def
  show ?thesis
  proof (cases "validate_arguments rt (er_arguments request)")
    case (Inl e)
    then show ?thesis by (intro that(3) [of t e]) (simp_all add: defs)
  next
    case (Inr u)
    show ?thesis
    proof (cases ?v rule: activity_cases)
      case (returns d v)
      show ?thesis
      proof (cases ?i rule: activity_cases)
        case hangs
        with Inr returns show ?thesis by (intro that(1)) (simp_all add: defs)
      next
        case (panics d' p)
        with Inr returns show ?thesis by (intro that(2) [of "t + d + d'" p]) (simp_all add: defs)
      next
        case (fails d' e)
        with Inr returns show ?thesis by (intro that(3) [of "t + d + d'" e]) (simp_all add: defs)
      next
        case i: (returns d' c)
        with Inr returns show ?thesis by (intro that(4) [of "t + d + d'" c]) (simp_all add: defs)
      qed
    next
      case hangs
      with Inr show ?thesis by (intro that(1)) (simp_all add: defs)
    next
      case (panics d p)
      with Inr show ?thesis by (intro that(2) [of "t + d" p]) (simp_all add: defs)
    next
      case (fails d e)
      with Inr show ?thesis by (intro that(3) [of "t + d" e]) (simp_all add: defs)
    qed
  qed
qed

lemma failed_events_before_end:
  assumes "not_after (Some tm) (map_option fst (run_end (invoke_inner obs request rt ctx t)))"
  shows "failed_events
    (filter (\<lambda>(u, _). u < tm) (run_events (invoke_inner obs request rt ctx t))) = []"
proof -
  let ?r = "invoke_inner obs request rt ctx t"
  have "failed_events (filter (\<lambda>(u, _). u < tm) (run_events ?r)) =
      filter (\<lambda>(u, _). u < tm) (failed_events (run_events ?r))"
    by (simp add: failed_events_def conj_commute case_prod_unfold)
  also have "\<dots> = []"
    using assms by (cases obs request rt ctx t rule: invoke_inner_cases) (auto split: if_splits)
  finally show ?thesis .
qed


section \<open>The race\<close>

lemma due_ge: "due t0 x = Some t \<Longrightarrow> t0 \<le> t"
  by (auto simp: due_def)

lemma select_run_cases [case_names cancelled deadline completed]:
  fixes t0 cancellation deadline r
  obtains t where "due t0 cancellation = Some t" "not_after (Some t) (due t0 deadline)"
      "not_after (Some t) (map_option fst (run_end r))"
      "select_run t0 cancellation deadline r = cut_run r t WasCancelled"
  | t where "due t0 deadline = Some t" "\<not> not_after (due t0 cancellation) (Some t)"
      "not_after (Some t) (map_option fst (run_end r))"
      "select_run t0 cancellation deadline r = cut_run r t DeadlinePassed"
  | "\<not> not_after (due t0 cancellation) (map_option fst (run_end r))"
      "\<not> not_after (due t0 deadline) (map_option fst (run_end r))"
      "select_run t0 cancellation deadline r = complete_run r"
proof -
  let ?tc = "due t0 cancellation" and ?td = "due t0 deadline" and ?te = "map_option fst (run_end r)"
  show ?thesis
  proof (cases "not_after ?tc ?td \<and> not_after ?tc ?te")
    case True
    then show ?thesis by (cases ?tc) (auto simp: select_run_def intro: that(1))
  next
    case nc: False
    show ?thesis
    proof (cases "not_after ?td ?te")
      case True
      with nc show ?thesis
        by (cases ?td; cases ?tc; cases ?te) (auto simp: select_run_def intro!: that(2))
    next
      case False
      with nc show ?thesis
        by (cases ?td; cases ?tc; cases ?te) (auto simp: select_run_def intro!: that(3))
    qed
  qed
qed

lemma reports_failureI:
  "res = error_result request (error_code e) (error_text e) \<Longrightarrow>
   failed_events evs = (if obs = None then [] else [(t, failed_event request ctx e)]) \<Longrightarrow>
   reports_failure obs request ctx evs t res"
  by (auto simp: reports_failure_def error_result_def)

text \<open>An invocation that loses the race, whichever way.\<close>

lemma invoke_interrupted:
  assumes "select_run t (tc_cancellation ctx) (tc_deadline ctx) (invoke_inner obs request rt ctx t) =
      cut_run (invoke_inner obs request rt ctx t) u b"
    and "(b, e) \<in> {(WasCancelled, Cancelled ''execution cancelled''),
                 (DeadlinePassed, TimedOut ''execution deadline exceeded'')}"
  shows "run_end (invoke obs request rt ctx t) =
      Some (u, Returned (error_result request (error_code e) (error_text e),
                         cancel_token u (tc_cancellation ctx)))"
    and "run_events (invoke obs request rt ctx t) =
      filter (\<lambda>(v, _). v < u) (run_events (invoke_inner obs request rt ctx t)) @
      (if obs = None then [] else [(u, failed_event request ctx e)])"
  using assms by (auto simp: invoke_def run_bind_def cut_run_def fail_run_def2)

text \<open>How an invocation can end, with what it has reported by then.\<close>

definition invoke_end_ok ::
  "observer option \<Rightarrow> execution_request \<Rightarrow> registered_tool \<Rightarrow> tool_context \<Rightarrow> instant \<Rightarrow>
     (instant \<times> execution_event) list \<Rightarrow> (instant \<times> (execution_result \<times> token) outcome) option \<Rightarrow> bool"
where
  "invoke_end_ok obs request rt ctx t evs fin \<longleftrightarrow>
     (case fin of
        None \<Rightarrow> True
      | Some (t', Panic p) \<Rightarrow> t \<le> t' \<and> failed_events evs = []
      | Some (t', Returned (res, tok)) \<Rightarrow>
          t \<le> t' \<and> reports_failure obs request ctx evs t' res \<and>
          (\<not> res_is_error res \<longrightarrow> tool_succeeds request rt ctx t t' (res_content res)))"

lemma invoke_interrupted_ok:
  assumes "select_run t (tc_cancellation ctx) (tc_deadline ctx) (invoke_inner obs request rt ctx t) =
      cut_run (invoke_inner obs request rt ctx t) u b"
    and "(b, e) \<in> {(WasCancelled, Cancelled ''execution cancelled''),
                 (DeadlinePassed, TimedOut ''execution deadline exceeded'')}"
    and "not_after (Some u) (map_option fst (run_end (invoke_inner obs request rt ctx t)))"
    and "t \<le> u"
  shows "invoke_end_ok obs request rt ctx t (run_events (invoke obs request rt ctx t))
    (run_end (invoke obs request rt ctx t))"
proof -
  have "failed_events (run_events (invoke obs request rt ctx t)) =
      (if obs = None then [] else [(u, failed_event request ctx e)])"
    by (simp add: invoke_interrupted [OF assms(1,2)] failed_events_before_end [OF assms(3)])
  then have "reports_failure obs request ctx (run_events (invoke obs request rt ctx t)) u
      (error_result request (error_code e) (error_text e))"
    by (intro reports_failureI) auto
  with assms(4) show ?thesis
    by (simp add: invoke_end_ok_def invoke_interrupted(1) [OF assms(1,2)] error_result_def)
qed

lemma invoke_end:
  "invoke_end_ok obs request rt ctx t (run_events (invoke obs request rt ctx t))
     (run_end (invoke obs request rt ctx t))"
proof (cases t "tc_cancellation ctx" "tc_deadline ctx" "invoke_inner obs request rt ctx t"
    rule: select_run_cases)
  case (cancelled u)
  then show ?thesis
    using due_ge [OF cancelled(1)] by (intro invoke_interrupted_ok [OF cancelled(4)]) auto
next
  case (deadline u)
  then show ?thesis
    using due_ge [OF deadline(1)] by (intro invoke_interrupted_ok [OF deadline(4)]) auto
next
  case completed
  note inv = invoke_end_ok_def invoke_def run_bind_def completed(3) complete_run_def
  show ?thesis
  proof (cases obs request rt ctx t rule: invoke_inner_cases)
    case (fails t' e)
    then have "reports_failure obs request ctx (run_events (invoke_inner obs request rt ctx t)) t'
        (error_result request (error_code e) (error_text e))"
      by (intro reports_failureI) auto
    with fails show ?thesis by (simp add: inv error_result_def)
  qed (simp_all add: inv reports_failure_def)
qed

text \<open>With a deadline or a cancellation an invocation ends, whatever the tool does.\<close>

lemma invoke_bounded:
  assumes "tc_deadline ctx = Some d \<or> tc_cancellation ctx = Some d"
  shows "\<exists>t' out. run_end (invoke obs request rt ctx t) = Some (t', out) \<and> t' \<le> max t d"
proof (cases t "tc_cancellation ctx" "tc_deadline ctx" "invoke_inner obs request rt ctx t"
    rule: select_run_cases)
  case (cancelled u)
  have "u \<le> max t d" using cancelled(1,2) assms by (auto simp: due_def)
  then show ?thesis using invoke_interrupted(1) [OF cancelled(4)] by auto
next
  case (deadline u)
  have "u \<le> max t d" using deadline(1,2) assms by (auto simp: due_def)
  then show ?thesis using invoke_interrupted(1) [OF deadline(4)] by auto
next
  case completed
  then obtain t' out where e: "run_end (invoke_inner obs request rt ctx t) = Some (t', out)"
    "t' \<le> max t d"
    using assms by (cases "run_end (invoke_inner obs request rt ctx t)") (auto simp: due_def)
  then show ?thesis
    by (cases out) (auto simp: invoke_def run_bind_def completed(3) complete_run_def)
qed

text \<open>A success beats every cancellation and every deadline.\<close>

lemma invoke_success_in_time:
  assumes "run_end (invoke obs request rt ctx t) = Some (t', Returned (res, tok))"
    and "\<not> res_is_error res"
  shows "\<not> not_after (due t (tc_cancellation ctx)) (Some t') \<and> \<not> not_after (due t (tc_deadline ctx)) (Some t')"
proof (cases t "tc_cancellation ctx" "tc_deadline ctx" "invoke_inner obs request rt ctx t"
    rule: select_run_cases)
  case (cancelled u)
  then show ?thesis using invoke_interrupted(1) [OF cancelled(4)] assms by auto
next
  case (deadline u)
  then show ?thesis using invoke_interrupted(1) [OF deadline(4)] assms by auto
next
  case completed
  from assms(1) have "map_option fst (run_end (invoke_inner obs request rt ctx t)) = Some t'"
    by (auto simp: invoke_def completed(3) complete_run_def run_bind_def
        split: option.splits prod.splits outcome.splits)
  with completed show ?thesis by simp
qed

end
