(* ===== verification/Scheduler.thy ===== *)
theory Scheduler
  imports Invocation
begin

text \<open>
  Running requests (\<^verbatim>\<open>executor-core/src/scheduler.rs\<close>): the permit pool, the life of one
  request (\<open>run_one\<close>: queue for permits, execute with panic isolation, release) and the
  helpers it is made of. When the semaphore answers is up to the other requests, so it is a
  parameter (\<open>grant\<close>) here; the theory \<open>Batch\<close> lets the requests of a batch share a pool.
\<close>

section \<open>The permit pool\<close>

record permit_pool =
  pp_permits :: nat
  pp_count :: "32 word"

text \<open>\<^verbatim>\<open>tokio::sync::Semaphore::MAX_PERMITS\<close>, documented as \<^verbatim>\<open>usize::MAX >> 3\<close>.\<close>

definition MAX_PERMITS :: usize where
  "MAX_PERMITS = drop_bit 3 (- 1)"

definition PermitPool_new :: "usize \<Rightarrow> permit_pool" where
  "PermitPool_new concurrency_limit =
     (let configured = max 1 (min concurrency_limit MAX_PERMITS);
          count = (if unat configured < 2 ^ 32 then ucast configured else - 1)
      in \<lparr>pp_permits = unat count, pp_count = count\<rparr>)"

record execution_runtime =
  rn_tools :: tool_registry
  rn_config :: executor_config
  rn_observer :: "observer option"
  rn_pool :: permit_pool

definition ExecutionRuntime_new ::
  "tool_registry \<Rightarrow> executor_config \<Rightarrow> observer option \<Rightarrow> execution_runtime"
where
  "ExecutionRuntime_new tools config obs =
     \<lparr>rn_tools = tools, rn_config = config, rn_observer = obs,
      rn_pool = PermitPool_new (ec_concurrency_limit config)\<rparr>"

definition runtime_with_observer :: "observer \<Rightarrow> execution_runtime \<Rightarrow> execution_runtime" where
  "runtime_with_observer obs rn = rn\<lparr>rn_observer := Some obs\<rparr>"


section \<open>One request\<close>

definition tool_context_of ::
  "execution_request \<Rightarrow> executor_config \<Rightarrow> submission_controls \<Rightarrow> observer option \<Rightarrow> tool_context"
where
  "tool_context_of request config options obs =
     \<lparr>tc_execution_id = er_id request, tc_cwd = ec_cwd config, tc_env = ec_env config,
      tc_deadline = None, tc_cancellation = sc_cancellation options,
      tc_progress = \<lparr>pr_observer = obs, pr_execution_id = er_id request, pr_tool = er_tool request\<rparr>\<rparr>"

definition is_concurrent :: "execution_request \<Rightarrow> tool_registry \<Rightarrow> bool" where
  "is_concurrent request tools =
     (case resolve tools (er_tool request) of
        Inr rt \<Rightarrow>
          (case t_is_concurrency_safe (rt_implementation rt) (er_arguments request) of
             Returned b \<Rightarrow> b | Panic _ \<Rightarrow> False)
      | Inl _ \<Rightarrow> True)"

definition effective_deadline ::
  "instant \<Rightarrow> instant option \<Rightarrow> duration option \<Rightarrow> instant option"
where
  "effective_deadline now request_deadline tool_timeout =
     (let tool_deadline = map_option (\<lambda>timeout. now + timeout) tool_timeout in
      case (request_deadline, tool_deadline) of
        (Some r, Some t) \<Rightarrow> Some (min r t)
      | (Some r, None) \<Rightarrow> Some r
      | (None, t) \<Rightarrow> t)"

text \<open>
  How the semaphore answers an acquire: the instant at which it hands out the permits, or at
  which it turns out to be closed, or not at all.
\<close>

datatype grant = Granted instant | SemaphoreClosed instant | NotGranted

fun grant_time :: "grant \<Rightarrow> instant option" where
  "grant_time (Granted t) = Some t"
| "grant_time (SemaphoreClosed t) = Some t"
| "grant_time NotGranted = None"

text \<open>
  Waiting for the permit: the inner select is biased towards cancellation, and the surrounding
  \<^verbatim>\<open>timeout_at\<close> polls the wait before its timer.
\<close>

definition acquire_permit ::
  "instant \<Rightarrow> grant \<Rightarrow> instant option \<Rightarrow> token \<Rightarrow> (instant \<times> (execution_error + unit)) option"
where
  "acquire_permit t0 g deadline cancellation =
     (let tc = due t0 cancellation; tg = due t0 (grant_time g); td = due t0 deadline in
      if not_after tc tg \<and> not_after tc td
      then Some (the tc, Inl (Cancelled ''execution cancelled while queued''))
      else if not_after tg td
      then Some (the tg, case g of Granted _ \<Rightarrow> Inr () | _ \<Rightarrow> Inl ExecutorClosed)
      else if td \<noteq> None
      then Some (the td, Inl (TimedOut ''execution deadline exceeded while queued''))
      else None)"

definition run_prepared ::
  "execution_request \<Rightarrow> tool_context \<Rightarrow> execution_runtime \<Rightarrow> instant \<Rightarrow> (execution_result \<times> token) run"
where
  "run_prepared request ctx rn t =
     (case resolve (rn_tools rn) (er_tool request) of
        Inl e \<Rightarrow>
          run_bind (fail_run (rn_observer rn) request ctx e t)
            (\<lambda>res u. run_of u [] (Returned (res, tc_cancellation ctx)))
      | Inr rt \<Rightarrow>
          (case t_invocation_detail (rt_implementation rt) (er_arguments request) of
             Panic p \<Rightarrow> run_of t [] (Panic p)
           | Returned detail \<Rightarrow>
               run_bind
                 (run_of t
                    (notify (rn_observer rn) (EV_Started (er_id request) (er_tool request) detail))
                    (Returned ()))
                 (\<lambda>_ u. invoke (rn_observer rn) request rt ctx u)))"

definition panic_message :: "panic_payload \<Rightarrow> string" where
  "panic_message p =
     (case p of PanicString s \<Rightarrow> s | PanicStr s \<Rightarrow> s | PanicOther \<Rightarrow> ''tool execution panicked'')"

text \<open>\<^verbatim>\<open>catch_unwind\<close> around the prepared run, and the report of a panic.\<close>

definition catch_panic :: "'a run \<Rightarrow> (panic_payload \<Rightarrow> instant \<Rightarrow> 'a run) \<Rightarrow> 'a run" where
  "catch_panic r h =
     (case run_end r of
        Some (t, Panic p) \<Rightarrow>
          \<lparr>run_events = run_events r @ run_events (h p t), run_end = run_end (h p t)\<rparr>
      | _ \<Rightarrow> r)"

text \<open>What happens once the permits are held, from the instant they were granted.\<close>

definition granted_context ::
  "execution_request \<Rightarrow> submission_controls \<Rightarrow> execution_runtime \<Rightarrow> instant \<Rightarrow> tool_context"
where
  "granted_context request options rn t =
     (tool_context_of request (rn_config rn) options (rn_observer rn))
       \<lparr>tc_deadline := effective_deadline t (sc_deadline options) (ec_tool_timeout (rn_config rn))\<rparr>"

definition run_granted ::
  "execution_request \<Rightarrow> submission_controls \<Rightarrow> execution_runtime \<Rightarrow> instant \<Rightarrow> execution_result run"
where
  "run_granted request options rn t =
     (let ctx = granted_context request options rn t in
      catch_panic
        (run_bind (run_prepared request ctx rn t) (\<lambda>(res, _) u. run_of u [] (Returned res)))
        (\<lambda>p u. fail_run (rn_observer rn) request ctx (Panicked (panic_message p)) u))"

text \<open>What happens when the wait for permits fails: the token is cancelled, the failure reported.\<close>

definition run_refused ::
  "execution_request \<Rightarrow> submission_controls \<Rightarrow> execution_runtime \<Rightarrow> execution_error \<Rightarrow> instant \<Rightarrow>
     execution_result run"
where
  "run_refused request options rn e t =
     (let ctx = tool_context_of request (rn_config rn) options (rn_observer rn) in
      fail_run (rn_observer rn) request
        (ctx\<lparr>tc_cancellation := cancel_token t (tc_cancellation ctx)\<rparr>) e t)"

definition run_one ::
  "execution_request \<Rightarrow> nat \<Rightarrow> submission_controls \<Rightarrow> execution_runtime \<Rightarrow> instant \<Rightarrow> grant \<Rightarrow>
     (nat \<times> execution_result) run"
where
  "run_one request index options rn t0 g =
     (case acquire_permit t0 g (sc_deadline options) (sc_cancellation options) of
        None \<Rightarrow> \<lparr>run_events = [], run_end = None\<rparr>
      | Some (t, Inl e) \<Rightarrow>
          run_bind (run_refused request options rn e t) (\<lambda>res u. run_of u [] (Returned (index, res)))
      | Some (t, Inr _) \<Rightarrow>
          run_bind (run_granted request options rn t) (\<lambda>res u. run_of u [] (Returned (index, res))))"

text \<open>
  How many permits a request takes: all of them for a tool that may not run beside others, one
  otherwise.
\<close>

definition permits_needed :: "execution_request \<Rightarrow> execution_runtime \<Rightarrow> nat" where
  "permits_needed request rn =
     (if is_concurrent request (rn_tools rn) then 1 else unat (pp_count (rn_pool rn)))"


section \<open>The pool has the capacity an exclusive tool needs\<close>

lemma PermitPool_new_permits: "pp_permits (PermitPool_new n) = unat (pp_count (PermitPool_new n))"
  by (simp add: PermitPool_new_def Let_def)

lemma max_permits_value: "unat MAX_PERMITS = 2 ^ 61 - 1"
  by (simp add: MAX_PERMITS_def unsigned_drop_bit_eq unsigned_minus_1_eq_mask drop_bit_eq_div mask_eq_exp_minus_1)

lemma unat_max_min: "unat (max a (min b c)) = max (unat a) (min (unat b) (unat c))" for a b c :: usize
  by (simp add: max_def min_def word_le_nat_alt)

lemma permit_pool_capacity_aux:
  "pp_permits (PermitPool_new n) = unat (pp_count (PermitPool_new n)) \<and>
   pp_permits (PermitPool_new n) = max 1 (min (unat n) (2 ^ 32 - 1))"
proof -
  have u: "unat (max 1 (min n MAX_PERMITS)) = max 1 (min (unat n) (2 ^ 61 - 1))"
    by (simp add: unat_max_min max_permits_value)
  have "unat (ucast x :: 32 word) = unat x" if "unat x < 2 ^ 32" for x :: usize
    using that by (simp add: unsigned_ucast_eq take_bit_nat_eq_self)
  moreover have "unat (- 1 :: 32 word) = 2 ^ 32 - 1" by (simp add: unsigned_minus_1_eq_mask mask_eq_exp_minus_1)
  ultimately show ?thesis
    using u by (simp add: PermitPool_new_def Let_def)
qed

text \<open>
  The pool for a concurrency limit \<open>n\<close> has between one and \<open>2 ^ 32 - 1\<close> permits: \<open>n\<close> itself
  when that is in range, and the nearest bound otherwise (in particular a limit of zero does not
  block everything). Its recorded count, which an exclusive tool acquires, is exactly the number
  of permits the semaphore was created with.
\<close>

theorem permit_pool_capacity:
  "pp_permits (PermitPool_new n) = unat (pp_count (PermitPool_new n)) \<and>
   pp_permits (PermitPool_new n) = max 1 (min (unat n) (2 ^ 32 - 1))"
  by (rule permit_pool_capacity_aux)



section \<open>What a granted request ends with\<close>

definition granted_end_ok ::
  "execution_request \<Rightarrow> submission_controls \<Rightarrow> execution_runtime \<Rightarrow> instant \<Rightarrow>
     (instant \<times> execution_event) list \<Rightarrow> (instant \<times> execution_result outcome) option \<Rightarrow> bool"
where
  "granted_end_ok request options rn t evs fin \<longleftrightarrow>
     (case fin of
        None \<Rightarrow> True
      | Some (t', Panic p) \<Rightarrow> False
      | Some (t', Returned res) \<Rightarrow>
          t \<le> t' \<and>
          reports_failure (rn_observer rn) request (granted_context request options rn t) evs t' res \<and>
          (\<not> res_is_error res \<longrightarrow>
             (\<exists>rt. resolve (rn_tools rn) (er_tool request) = Inr rt \<and>
                tool_succeeds request rt (granted_context request options rn t) t t' (res_content res))))"

lemma reports_failure_after:
  "failed_events evs = [] \<Longrightarrow>
     reports_failure obs request ctx (evs @ evs') t res \<longleftrightarrow> reports_failure obs request ctx evs' t res"
  by (simp add: reports_failure_def)

lemma notify_Started_failed [simp]:
  "failed_events (map (\<lambda>e. (t, e)) (notify obs (EV_Started a b c))) = []"
  by (simp add: notify_cases)

lemma run_prepared_not_found:
  assumes "resolve (rn_tools rn) (er_tool request) = Inl e"
  shows "run_prepared request ctx rn t =
    \<lparr>run_events = run_events (fail_run (rn_observer rn) request ctx e t),
     run_end = Some (t, Returned (error_result request (error_code e) (error_text e), tc_cancellation ctx))\<rparr>"
  using assms by (simp add: run_prepared_def fail_run_def2)

lemma run_prepared_detail_panics:
  assumes "resolve (rn_tools rn) (er_tool request) = Inr rt"
    and "t_invocation_detail (rt_implementation rt) (er_arguments request) = Panic p"
  shows "run_prepared request ctx rn t = \<lparr>run_events = [], run_end = Some (t, Panic p)\<rparr>"
  using assms by (simp add: run_prepared_def run_of_def)

lemma run_prepared_invokes:
  assumes "resolve (rn_tools rn) (er_tool request) = Inr rt"
    and "t_invocation_detail (rt_implementation rt) (er_arguments request) = Returned detail"
  shows "run_prepared request ctx rn t =
    \<lparr>run_events =
       map (\<lambda>e. (t, e)) (notify (rn_observer rn) (EV_Started (er_id request) (er_tool request) detail)) @
       run_events (invoke (rn_observer rn) request rt ctx t),
     run_end = run_end (invoke (rn_observer rn) request rt ctx t)\<rparr>"
  using assms by (simp add: run_prepared_def)

lemma run_granted_eq:
  fixes request options rn t
  defines "ctx \<equiv> granted_context request options rn t"
  defines "r \<equiv> run_prepared request ctx rn t"
  shows "run_granted request options rn t =
    (case run_end r of
       None \<Rightarrow> \<lparr>run_events = run_events r, run_end = None\<rparr>
     | Some (t', Returned (res, _)) \<Rightarrow>
         \<lparr>run_events = run_events r, run_end = Some (t', Returned res)\<rparr>
     | Some (t', Panic p) \<Rightarrow>
         \<lparr>run_events =
            run_events r @ run_events (fail_run (rn_observer rn) request ctx (Panicked (panic_message p)) t'),
          run_end =
            run_end (fail_run (rn_observer rn) request ctx (Panicked (panic_message p)) t')\<rparr>)"
  by (auto simp: run_granted_def ctx_def r_def catch_panic_def Let_def run_bind_def
      split: option.splits prod.splits outcome.splits)

definition prepared_end_ok ::
  "execution_request \<Rightarrow> tool_context \<Rightarrow> execution_runtime \<Rightarrow> instant \<Rightarrow>
     (instant \<times> execution_event) list \<Rightarrow> (instant \<times> (execution_result \<times> token) outcome) option \<Rightarrow> bool"
where
  "prepared_end_ok request ctx rn t evs fin \<longleftrightarrow>
     (case fin of
        None \<Rightarrow> True
      | Some (t', Panic p) \<Rightarrow> t \<le> t' \<and> failed_events evs = []
      | Some (t', Returned (res, tok)) \<Rightarrow>
          t \<le> t' \<and> reports_failure (rn_observer rn) request ctx evs t' res \<and>
          (\<not> res_is_error res \<longrightarrow>
             (\<exists>rt. resolve (rn_tools rn) (er_tool request) = Inr rt \<and>
                tool_succeeds request rt ctx t t' (res_content res))))"

lemma run_prepared_end:
  "prepared_end_ok request ctx rn t (run_events (run_prepared request ctx rn t))
     (run_end (run_prepared request ctx rn t))"
proof (cases "resolve (rn_tools rn) (er_tool request)")
  case (Inl e)
  have "reports_failure (rn_observer rn) request ctx
      (run_events (fail_run (rn_observer rn) request ctx e t)) t
      (error_result request (error_code e) (error_text e))"
    by (intro reports_failureI) (simp_all add: failed_events_fail_run)
  then show ?thesis
    by (simp add: run_prepared_not_found [OF Inl] prepared_end_ok_def)
next
  case (Inr rt)
  show ?thesis
  proof (cases "t_invocation_detail (rt_implementation rt) (er_arguments request)")
    case (Panic p)
    then show ?thesis by (simp add: run_prepared_detail_panics [OF Inr Panic] prepared_end_ok_def)
  next
    case (Returned detail)
    then show ?thesis
      using invoke_end [of "rn_observer rn" request rt ctx t]
      by (auto simp: run_prepared_invokes [OF Inr Returned] prepared_end_ok_def invoke_end_ok_def
          reports_failure_after Inr split: option.splits outcome.splits)
  qed
qed

lemma run_granted_end:
  "granted_end_ok request options rn t (run_events (run_granted request options rn t))
     (run_end (run_granted request options rn t))"
proof -
  let ?ctx = "granted_context request options rn t"
  let ?r = "run_prepared request ?ctx rn t"
  have prep: "prepared_end_ok request ?ctx rn t (run_events ?r) (run_end ?r)"
    by (rule run_prepared_end)
  show ?thesis
  proof (cases "run_end ?r")
    case None
    then show ?thesis by (simp add: run_granted_eq granted_end_ok_def)
  next
    case (Some e)
    obtain t' out where e: "e = (t', out)" by (cases e)
    show ?thesis
    proof (cases out)
      case (Returned a)
      with Some e prep show ?thesis
        by (cases a) (simp add: run_granted_eq granted_end_ok_def prepared_end_ok_def)
    next
      case (Panic p)
      define e' where "e' = Panicked (panic_message p)"
      from Panic Some e prep have "t \<le> t'" and "failed_events (run_events ?r) = []"
        by (simp_all add: prepared_end_ok_def)
      with reports_failure_fail_run [of "run_events ?r" "rn_observer rn" request ?ctx e' t']
      show ?thesis
        using Some e Panic
        by (simp add: run_granted_eq granted_end_ok_def e'_def)
    qed
  qed
qed



section \<open>Properties of one request\<close>

lemma acquire_permit_cases [case_names waits cancelled timed_out closed granted]:
  obtains "acquire_permit t0 g deadline cancellation = None" "deadline = None" "cancellation = None"
  | t where "acquire_permit t0 g deadline cancellation =
        Some (t, Inl (Cancelled ''execution cancelled while queued''))"
      "due t0 cancellation = Some t" "not_after (Some t) (due t0 deadline)"
      "not_after (Some t) (due t0 (grant_time g))"
  | t where "acquire_permit t0 g deadline cancellation =
        Some (t, Inl (TimedOut ''execution deadline exceeded while queued''))"
      "due t0 deadline = Some t" "\<not> not_after (due t0 cancellation) (Some t)"
      "\<not> not_after (due t0 (grant_time g)) (Some t)"
  | t where "acquire_permit t0 g deadline cancellation = Some (t, Inl ExecutorClosed)"
      "due t0 (grant_time g) = Some t" "\<exists>u. g = SemaphoreClosed u"
      "not_after (Some t) (due t0 deadline)" "\<not> not_after (due t0 cancellation) (Some t)"
  | t where "acquire_permit t0 g deadline cancellation = Some (t, Inr ())"
      "due t0 (grant_time g) = Some t" "\<exists>u. g = Granted u"
      "not_after (Some t) (due t0 deadline)" "\<not> not_after (due t0 cancellation) (Some t)"
proof -
  let ?tc = "due t0 cancellation" and ?tg = "due t0 (grant_time g)" and ?td = "due t0 deadline"
  consider (c) "not_after ?tc ?tg \<and> not_after ?tc ?td"
    | (g) "\<not> (not_after ?tc ?tg \<and> not_after ?tc ?td)" "not_after ?tg ?td"
    | (d) "\<not> (not_after ?tc ?tg \<and> not_after ?tc ?td)" "\<not> not_after ?tg ?td" "?td \<noteq> None"
    | (w) "\<not> (not_after ?tc ?tg \<and> not_after ?tc ?td)" "\<not> not_after ?tg ?td" "?td = None"
    by blast
  then show ?thesis
  proof cases
    case c
    then show ?thesis
      by (cases ?tc) (auto simp: acquire_permit_def Let_def intro!: that(2))
  next
    case g
    then obtain t where t: "?tg = Some t" by (cases ?tg) auto
    with g have "\<not> not_after ?tc (Some t)" by (cases ?tc; cases ?td) auto
    note facts = g t this
    show ?thesis
    proof (cases g)
      case (Granted u)
      with facts show ?thesis by (intro that(5)) (auto simp: acquire_permit_def Let_def)
    next
      case (SemaphoreClosed u)
      with facts show ?thesis by (intro that(4)) (auto simp: acquire_permit_def Let_def)
    next
      case NotGranted
      with t show ?thesis by (simp add: due_def)
    qed
  next
    case d
    then obtain t where t: "?td = Some t" by auto
    with d have "\<not> not_after ?tc (Some t)" by (cases ?tc; cases ?tg) auto
    with d t show ?thesis by (intro that(3)) (auto simp: acquire_permit_def Let_def)
  next
    case w
    then have "?tg = None" by (cases ?tg) auto
    with w have "?tc = None" by (cases ?tc) auto
    with w show ?thesis
      by (intro that(1)) (auto simp: acquire_permit_def Let_def due_def)
  qed
qed

lemma run_one_end:
  "run_end (run_one request index options rn t0 g) =
     (case acquire_permit t0 g (sc_deadline options) (sc_cancellation options) of
        None \<Rightarrow> None
      | Some (t, Inl e) \<Rightarrow>
          Some (t, Returned (index, error_result request (error_code e) (error_text e)))
      | Some (t, Inr _) \<Rightarrow>
          map_option (\<lambda>(t', out). (t', case out of Returned res \<Rightarrow> Returned (index, res) | Panic p \<Rightarrow> Panic p))
            (run_end (run_granted request options rn t)))"
  by (auto simp: run_one_def run_refused_def Let_def run_bind_def
      split: option.splits prod.splits sum.splits outcome.splits)

lemma run_one_events:
  "run_events (run_one request index options rn t0 g) =
     (case acquire_permit t0 g (sc_deadline options) (sc_cancellation options) of
        None \<Rightarrow> []
      | Some (t, Inl e) \<Rightarrow> run_events (run_refused request options rn e t)
      | Some (t, Inr _) \<Rightarrow> run_events (run_granted request options rn t))"
  by (auto simp: run_one_def run_refused_def Let_def run_bind_def
      split: option.splits prod.splits sum.splits outcome.splits)

lemma failed_event_context:
  "tc_cwd ctx = tc_cwd ctx' \<Longrightarrow> tc_env ctx = tc_env ctx' \<Longrightarrow>
     failed_event request ctx = failed_event request ctx'"
  by (simp add: failed_event_def fun_eq_iff)

lemma reports_failure_context:
  assumes "tc_cwd ctx = tc_cwd ctx'" and "tc_env ctx = tc_env ctx'"
  shows "reports_failure obs request ctx = reports_failure obs request ctx'"
  by (simp add: reports_failure_def failed_event_context [OF assms] fun_eq_iff)

lemma granted_context_simps [simp]:
  "tc_cwd (granted_context request options rn t) = ec_cwd (rn_config rn)"
  "tc_env (granted_context request options rn t) = ec_env (rn_config rn)"
  "tc_cancellation (granted_context request options rn t) = sc_cancellation options"
  "tc_deadline (granted_context request options rn t) =
     effective_deadline t (sc_deadline options) (ec_tool_timeout (rn_config rn))"
  by (simp_all add: granted_context_def tool_context_of_def)

lemma run_refused_reports:
  "reports_failure (rn_observer rn) request (tool_context_of request (rn_config rn) options (rn_observer rn))
     (run_events (run_refused request options rn e t)) t
     (error_result request (error_code e) (error_text e))"
proof -
  let ?ctx = "tool_context_of request (rn_config rn) options (rn_observer rn)"
  let ?ctx' = "?ctx\<lparr>tc_cancellation := cancel_token t (tc_cancellation ?ctx)\<rparr>"
  have "reports_failure (rn_observer rn) request ?ctx'
      (run_events (fail_run (rn_observer rn) request ?ctx' e t)) t
      (error_result request (error_code e) (error_text e))"
    using reports_failure_fail_run [of "[]"] by simp
  then show ?thesis
    by (simp add: run_refused_def Let_def reports_failure_context [of ?ctx' ?ctx])
qed

text \<open>
  (C8) Whatever the tool does (fail, panic, hang until its deadline) and however the wait for
  permits goes, a request that ends yields one result, tagged with its own index, id and tool
  name. When an observer is attached a failed request has produced exactly one failure
  observation, at the instant of its end, and that observation and the result report the same
  error; a successful request has produced none.
\<close>

theorem run_one_result:
  assumes "run_end (run_one request index options rn t0 g) = Some (t, out)"
  shows "\<exists>res. out = Returned (index, res) \<and> t0 \<le> t \<and>
    reports_failure (rn_observer rn) request
      (tool_context_of request (rn_config rn) options (rn_observer rn))
      (run_events (run_one request index options rn t0 g)) t res"
proof -
  let ?ctx = "tool_context_of request (rn_config rn) options (rn_observer rn)"
  have ctx: "reports_failure (rn_observer rn) request (granted_context request options rn u) =
      reports_failure (rn_observer rn) request ?ctx" for u
    by (rule reports_failure_context) (simp_all add: tool_context_of_def)
  obtain u res where acq: "acquire_permit t0 g (sc_deadline options) (sc_cancellation options) = Some (u, res)"
    using assms by (auto simp: run_one_end split: option.splits)
  have u: "t0 \<le> u"
    using acq by (cases t0 g "sc_deadline options" "sc_cancellation options" rule: acquire_permit_cases)
      (auto dest: due_ge)
  show ?thesis
  proof (cases res)
    case (Inl e)
    with assms acq u show ?thesis
      by (auto simp: run_one_end run_one_events run_refused_reports)
  next
    case (Inr _)
    with assms acq obtain out' where e: "run_end (run_granted request options rn u) = Some (t, out')"
      "out = (case out' of Returned r \<Rightarrow> Returned (index, r) | Panic p \<Rightarrow> Panic p)"
      by (auto simp: run_one_end)
    with run_granted_end [of request options rn u] obtain r where
      r: "out' = Returned r" "u \<le> t" "reports_failure (rn_observer rn) request ?ctx
        (run_events (run_granted request options rn u)) t r"
      by (auto simp: granted_end_ok_def ctx split: outcome.splits)
    with e acq Inr u show ?thesis by (simp add: run_one_events)
  qed
qed

lemma run_granted_success:
  assumes "run_end (run_granted request options rn t) = Some (t', Returned res)"
    and "\<not> res_is_error res"
  shows "\<exists>rt tok. resolve (rn_tools rn) (er_tool request) = Inr rt \<and>
    run_end (invoke (rn_observer rn) request rt (granted_context request options rn t) t) =
      Some (t', Returned (res, tok))"
proof -
  let ?ctx = "granted_context request options rn t"
  let ?r = "run_prepared request ?ctx rn t"
  from assms obtain tok where r: "run_end ?r = Some (t', Returned (res, tok))"
    by (auto simp: run_granted_eq split: option.splits prod.splits outcome.splits)
  show ?thesis
  proof (cases "resolve (rn_tools rn) (er_tool request)")
    case (Inl e)
    with r assms(2) show ?thesis by (auto simp: run_prepared_not_found)
  next
    case (Inr rt)
    with r show ?thesis
      by (cases "t_invocation_detail (rt_implementation rt) (er_arguments request)")
        (auto simp: run_prepared_detail_panics run_prepared_invokes)
  qed
qed

text \<open>
  (C9) A success is never made up: a request that ends without error was granted its permits,
  its tool is registered, the arguments passed the schema check and the tool's own validation,
  the tool returned, and the content is what it returned. It ended before any cancellation and
  any deadline, the submission's own or the tool timeout counted from the grant.
\<close>

theorem run_one_success:
  assumes "run_end (run_one request index options rn t0 g) = Some (t, Returned (index, res))"
    and "\<not> res_is_error res"
  shows "\<exists>u rt. g = Granted u \<and> resolve (rn_tools rn) (er_tool request) = Inr rt \<and>
    tool_succeeds request rt (granted_context request options rn (max t0 u)) (max t0 u) t (res_content res) \<and>
    \<not> not_after (sc_cancellation options) (Some t) \<and> \<not> not_after (sc_deadline options) (Some t) \<and>
    \<not> not_after (map_option (\<lambda>timeout. max t0 u + timeout) (ec_tool_timeout (rn_config rn))) (Some t)"
proof (cases t0 g "sc_deadline options" "sc_cancellation options" rule: acquire_permit_cases)
  case (granted v)
  then obtain u where u: "g = Granted u" "v = max t0 u" by (auto simp: due_def)
  from assms granted(1) obtain out where
    out: "run_end (run_granted request options rn v) = Some (t, out)"
      "(case out of Returned r \<Rightarrow> Returned (index, r) | Panic p \<Rightarrow> Panic p) = Returned (index, res)"
    by (auto simp: run_one_end)
  then have fin: "run_end (run_granted request options rn v) = Some (t, Returned res)"
    by (cases out) auto
  then obtain rt tok where rt: "resolve (rn_tools rn) (er_tool request) = Inr rt"
      "run_end (invoke (rn_observer rn) request rt (granted_context request options rn v) v) =
         Some (t, Returned (res, tok))"
    using run_granted_success assms(2) by blast
  have "v \<le> t" "tool_succeeds request rt (granted_context request options rn v) v t (res_content res)"
    using run_granted_end [of request options rn v] fin assms(2) rt(1) by (auto simp: granted_end_ok_def)
  moreover note invoke_success_in_time [OF rt(2) assms(2)]
  ultimately show ?thesis
    using u rt(1)
    by (cases "sc_cancellation options"; cases "sc_deadline options"; cases "ec_tool_timeout (rn_config rn)")
      (auto simp: due_def effective_deadline_def Let_def)
qed (use assms in \<open>auto simp: run_one_end\<close>)

lemma run_granted_bounded:
  assumes "tc_deadline (granted_context request options rn t) = Some d \<or> sc_cancellation options = Some d"
  shows "\<exists>t' out. run_end (run_granted request options rn t) = Some (t', out) \<and> t' \<le> max t d"
proof -
  let ?ctx = "granted_context request options rn t"
  have "\<exists>t' out. run_end (run_prepared request ?ctx rn t) = Some (t', out) \<and> t' \<le> max t d"
  proof (cases "resolve (rn_tools rn) (er_tool request)")
    case (Inl e)
    then show ?thesis by (auto simp: run_prepared_not_found)
  next
    case (Inr rt)
    show ?thesis
    proof (cases "t_invocation_detail (rt_implementation rt) (er_arguments request)")
      case (Returned detail)
      with Inr show ?thesis
        using invoke_bounded [of ?ctx d "rn_observer rn" request rt t] assms
        by (simp add: run_prepared_invokes)
    qed (auto simp: run_prepared_detail_panics [OF Inr])
  qed
  then show ?thesis
    by (auto simp: run_granted_eq split: outcome.splits)
qed

text \<open>
  (C10) A submission with a deadline is over by then (or at once, when the deadline has already
  passed), and one that gets cancelled is over at that instant, whatever the tool does and
  whatever the permits do, even when the tool never returns or no permit ever frees up. The
  tool timeout does the same from the grant on, for requests that got their permits.
\<close>

theorem run_one_bounded:
  assumes "sc_deadline options = Some d \<or> sc_cancellation options = Some d \<or>
    (\<exists>u timeout. g = Granted u \<and> ec_tool_timeout (rn_config rn) = Some timeout \<and> d = max t0 u + timeout)"
  shows "\<exists>t res. run_end (run_one request index options rn t0 g) = Some (t, Returned (index, res)) \<and>
    t \<le> max t0 d"
proof (cases t0 g "sc_deadline options" "sc_cancellation options" rule: acquire_permit_cases)
  case (granted v)
  have "\<exists>t' out. run_end (run_granted request options rn v) = Some (t', out) \<and> t' \<le> max t0 d"
  proof -
    have "\<exists>d'. (tc_deadline (granted_context request options rn v) = Some d' \<or>
        sc_cancellation options = Some d') \<and> max v d' \<le> max t0 d"
    proof (cases "sc_cancellation options = Some d")
      case True
      with granted have "max v d \<le> max t0 d" by (auto simp: due_def)
      with True show ?thesis by blast
    next
      case False
      with assms granted show ?thesis
        by (cases "sc_deadline options"; cases "ec_tool_timeout (rn_config rn)")
          (auto simp: effective_deadline_def Let_def due_def split: if_splits)
    qed
    then show ?thesis using run_granted_bounded [of request options rn v]
      by (meson le_trans)
  qed
  then obtain t' out where e: "run_end (run_granted request options rn v) = Some (t', out)" "t' \<le> max t0 d"
    by blast
  with run_granted_end [of request options rn v] obtain res where "out = Returned res"
    by (auto simp: granted_end_ok_def split: outcome.splits)
  with e granted(1) show ?thesis by (auto simp: run_one_end)
next
  case waits
  with assms show ?thesis by (auto simp: acquire_permit_def due_def Let_def)
qed (use assms in \<open>auto simp: run_one_end due_def split: if_splits\<close>)

text \<open>The run of a request whose wait for permits failed.\<close>

definition queued_failure ::
  "execution_request \<Rightarrow> nat \<Rightarrow> submission_controls \<Rightarrow> execution_runtime \<Rightarrow> instant \<Rightarrow> execution_error \<Rightarrow>
     (nat \<times> execution_result) run"
where
  "queued_failure request index options rn t e =
     run_of t
       (notify (rn_observer rn)
          (failed_event request (tool_context_of request (rn_config rn) options (rn_observer rn)) e))
       (Returned (index, error_result request (error_code e) (error_text e)))"

lemma run_refused_queued_failure:
  "run_bind (run_refused request options rn e t) (\<lambda>res u. run_of u [] (Returned (index, res))) =
     queued_failure request index options rn t e"
proof -
  let ?ctx = "tool_context_of request (rn_config rn) options (rn_observer rn)"
  have "failed_event request (?ctx\<lparr>tc_cancellation := c\<rparr>) = failed_event request ?ctx" for c
    by (rule failed_event_context) simp_all
  then show ?thesis
    by (simp add: run_refused_def Let_def fail_run_def2 queued_failure_def notify_cases)
qed

text \<open>
  A request cancelled, or out of time, while it waits for permits never reaches its tool: the
  whole run is the one failure observation and the error result, with the code \<^verbatim>\<open>cancelled\<close> or
  \<^verbatim>\<open>timed_out\<close>, at the instant of the cancellation or the deadline. Cancellation wins a tie with
  the grant and with the deadline; a grant wins a tie with the deadline.
\<close>

theorem run_one_queued_failure:
  "(\<forall>c. sc_cancellation options = Some c \<and> not_after (Some (max t0 c)) (due t0 (grant_time g)) \<and>
      not_after (Some (max t0 c)) (due t0 (sc_deadline options)) \<longrightarrow>
      run_one request index options rn t0 g =
        queued_failure request index options rn (max t0 c) (Cancelled ''execution cancelled while queued'')) \<and>
   (\<forall>d. sc_deadline options = Some d \<and> \<not> not_after (due t0 (grant_time g)) (Some (max t0 d)) \<and>
      \<not> not_after (due t0 (sc_cancellation options)) (Some (max t0 d)) \<longrightarrow>
      run_one request index options rn t0 g =
        queued_failure request index options rn (max t0 d) (TimedOut ''execution deadline exceeded while queued''))"
  by (auto simp: run_one_def acquire_permit_def Let_def due_def run_refused_queued_failure)


section \<open>Observations carry the id of their request\<close>

definition own_events :: "string \<Rightarrow> 'a run \<Rightarrow> bool" where
  "own_events i r \<longleftrightarrow> (\<forall>x \<in> set (run_events r). event_execution_id (snd x) = i)"

lemma own_events_bind:
  "own_events i r \<Longrightarrow> (\<And>a u. own_events i (f a u)) \<Longrightarrow> own_events i (run_bind r f)"
  by (auto simp: own_events_def run_events_bind split: option.splits outcome.splits)

lemma own_events_base:
  "own_events i (run_of t [] out)" "own_events i \<lparr>run_events = [], run_end = None\<rparr>"
  "own_events (er_id request) (fail_run obs request ctx e t)"
  "pr_execution_id p = i \<Longrightarrow> own_events i (start_activity p t a)"
  "own_events i r \<Longrightarrow> own_events i (cut_run r u b)"
  "own_events i r \<Longrightarrow> own_events i (complete_run r)"
  "own_events (er_id request) (run_of t (notify obs (EV_Started (er_id request) nm d)) out)"
  by (auto simp: own_events_def fail_run_def2 failed_event_def start_activity_def ProgressReporter_emit_def
      notify_cases cut_run_def complete_run_def)

lemma own_events_select: "own_events i r \<Longrightarrow> own_events i (select_run t c d r)"
  by (cases t c d r rule: select_run_cases) (simp_all add: own_events_base)

lemma own_events_invoke:
  assumes "pr_execution_id (tc_progress ctx) = er_id request"
  shows "own_events (er_id request) (invoke obs request rt ctx t)"
proof -
  have "own_events (er_id request) (invoke_inner obs request rt ctx t)"
    unfolding invoke_inner_def using assms
    by (auto split: sum.split intro!: own_events_bind own_events_base)
  then show ?thesis
    unfolding invoke_def
    by (auto split: select_outcome.split intro!: own_events_bind own_events_base own_events_select)
qed

lemma own_events_granted: "own_events (er_id request) (run_granted request options rn t)"
proof -
  let ?ctx = "granted_context request options rn t"
  have "pr_execution_id (tc_progress ?ctx) = er_id request"
    by (simp add: granted_context_def tool_context_of_def)
  then have "own_events (er_id request) (run_prepared request ?ctx rn t)"
    unfolding run_prepared_def
    by (auto split: sum.split outcome.split simp del: run_bind_simps
        intro!: own_events_bind own_events_base own_events_invoke)
  then show ?thesis
    using own_events_base(3) [of request "rn_observer rn" ?ctx]
    by (auto simp: run_granted_eq own_events_def split: option.splits outcome.splits)
qed

text \<open>
  Every observation made while a request runs carries the id of that request, whatever the
  tool reports and however the request ends, so observers that forward them can attribute them.
\<close>

theorem run_one_events_own:
  "\<forall>x \<in> set (run_events (run_one request index options rn t0 g)).
     event_execution_id (snd x) = er_id request"
proof -
  have "own_events (er_id request) (run_refused request options rn e t)" for e t
    unfolding run_refused_def Let_def by (rule own_events_base)
  then have "own_events (er_id request) (run_one request index options rn t0 g)"
    unfolding run_one_def
    by (auto split: option.split sum.split intro!: own_events_bind own_events_base own_events_granted)
  then show ?thesis by (simp add: own_events_def)
qed


section \<open>A concrete runtime\<close>

text \<open>
  A tool that reports progress once, takes three ticks and echoes its arguments; one that never
  returns; a runtime with both and two permits.
\<close>

definition echo_tool :: tool where
  "echo_tool =
     \<lparr>t_definition = \<lparr>tdef_name = ''Echo'', tdef_description = [], tdef_input_schema = JNull\<rparr>,
      t_is_concurrency_safe = (\<lambda>_. Returned True), t_invocation_detail = default_invocation_detail,
      t_validate = default_validate,
      t_invoke = (\<lambda>arguments _.
        \<lparr>act_progress = [(1, ''working'', None)], act_end = Some (3, Returned (Inr arguments))\<rparr>)\<rparr>"

definition stuck_tool :: tool where
  "stuck_tool =
     \<lparr>t_definition = \<lparr>tdef_name = ''Stuck'', tdef_description = [], tdef_input_schema = JNull\<rparr>,
      t_is_concurrency_safe = default_is_concurrency_safe, t_invocation_detail = default_invocation_detail,
      t_validate = default_validate, t_invoke = (\<lambda>_ _. \<lparr>act_progress = [], act_end = None\<rparr>)\<rparr>"

definition demo_runtime :: execution_runtime where
  "demo_runtime =
     ExecutionRuntime_new
       [(''Echo'', registered (\<lambda>_. Inr (\<lambda>_. None)) echo_tool), (''Stuck'', registered (\<lambda>_. Inr (\<lambda>_. None)) stuck_tool)]
       ((ExecutorConfig_default None)\<lparr>ec_concurrency_limit := 2\<rparr>) (Some (\<lambda>_. Returned ()))"

definition demo_request :: "string \<Rightarrow> string \<Rightarrow> execution_request" where
  "demo_request n tool = \<lparr>er_id = n, er_tool = tool, er_arguments = JNull\<rparr>"

lemmas demo_defs = demo_runtime_def demo_request_def ExecutionRuntime_new_def runtime_with_observer_def
  echo_tool_def stuck_tool_def registered_def resolve_def ExecutorConfig_default_def
  SubmissionControls_new_def with_timeout_def with_cancellation_def

lemma demo_echo_end:
  "run_end (run_one (demo_request ''a'' ''Echo'') 0 SubmissionControls_new demo_runtime 5 (Granted 7)) =
     Some (10, Returned (0, \<lparr>res_execution_id = ''a'', res_tool = ''Echo'', res_content = JNull,
       res_is_error = False\<rparr>))"
  by (simp add: run_one_end acquire_permit_def Let_def due_def run_granted_def granted_context_def
      tool_context_of_def run_prepared_def invoke_def select_run_def complete_run_def invoke_inner_def
      validate_arguments_def start_activity_def default_validate_def default_invocation_detail_def
      run_bind_def catch_panic_def effective_deadline_def demo_defs run_of_def)

theorem run_one_result_witness:
  "\<exists>res. reports_failure (rn_observer demo_runtime) (demo_request ''a'' ''Echo'')
       (tool_context_of (demo_request ''a'' ''Echo'') (rn_config demo_runtime) SubmissionControls_new
          (rn_observer demo_runtime))
       (run_events (run_one (demo_request ''a'' ''Echo'') 0 SubmissionControls_new demo_runtime 5 (Granted 7)))
       10 res \<and> \<not> res_is_error res"
  using run_one_result [OF demo_echo_end] by auto

theorem run_one_success_witness:
  "\<exists>u rt. Granted 7 = Granted u \<and> resolve (rn_tools demo_runtime) ''Echo'' = Inr rt \<and>
     tool_succeeds (demo_request ''a'' ''Echo'') rt
       (granted_context (demo_request ''a'' ''Echo'') SubmissionControls_new demo_runtime (max 5 u))
       (max 5 u) 10 JNull"
  using run_one_success [OF demo_echo_end] by (auto simp: demo_request_def)

theorem run_one_bounded_witness:
  "\<exists>t res. run_end (run_one (demo_request ''b'' ''Stuck'') 1 (with_timeout 5 20 SubmissionControls_new)
       demo_runtime 5 (Granted 7)) = Some (t, Returned (1, res)) \<and> t \<le> 25"
  using run_one_bounded [where options = "with_timeout 5 20 SubmissionControls_new" and d = 25 and ?t0.0 = 5]
  by (simp add: with_timeout_def)

theorem run_one_queued_failure_witness:
  "run_one (demo_request ''b'' ''Stuck'') 1 (with_cancellation (Some 4) SubmissionControls_new) demo_runtime 5
     (Granted 7) =
   queued_failure (demo_request ''b'' ''Stuck'') 1 (with_cancellation (Some 4) SubmissionControls_new)
     demo_runtime 5 (Cancelled ''execution cancelled while queued'')"
  using run_one_queued_failure [where options = "with_cancellation (Some 4) SubmissionControls_new"
      and ?t0.0 = 5 and g = "Granted 7"]
  by (simp add: with_cancellation_def SubmissionControls_new_def due_def)

theorem run_one_events_own_witness:
  "list_all (\<lambda>x. event_execution_id (snd x) = ''a'')
     (run_events (run_one (demo_request ''a'' ''Echo'') 0 SubmissionControls_new demo_runtime 5 (Granted 7)))"
  using run_one_events_own [of "demo_request ''a'' ''Echo''" 0 SubmissionControls_new demo_runtime 5 "Granted 7"]
  by (simp add: demo_request_def list_all_iff)

end
