(* ===== verification/Batch.thy ===== *)
theory Batch
  imports Scheduler
begin

text \<open>
  Submissions sharing one runtime (\<^verbatim>\<open>scheduler.rs\<close>, \<open>execute\<close>, and \<^verbatim>\<open>executor.rs\<close>). A
  submission's requests become jobs which wait for permits, run and complete, interleaved with
  the jobs of every other submission of the same executor. The state machine has one rule per
  event: a submission, the grant of permits to the first waiter (the semaphore is fair), the
  end of a wait by cancellation or deadline, the end of a run, and the passing of time, which
  may not skip an event that is due. What a job does while it holds its permits is \<open>run_granted\<close>
  of the theory \<open>Scheduler\<close>; how its wait ends is decided by \<open>acquire_permit\<close>.
\<close>

section \<open>Jobs and the state of the pool\<close>

record job =
  j_batch :: nat
  j_index :: nat
  j_request :: execution_request
  j_options :: submission_controls
  j_start :: instant

record pool_state =
  ps_now :: instant
  ps_available :: nat
  ps_queue :: "job list"
  ps_running :: "(job \<times> instant) list"
  ps_completed :: "(job \<times> execution_result) list"
  ps_batches :: "job list list"

text \<open>\<^verbatim>\<open>requests.into_iter().enumerate().map(..)\<close>: the jobs of one call of \<open>execute\<close>.\<close>

definition batch_jobs ::
  "nat \<Rightarrow> execution_request list \<Rightarrow> submission_controls \<Rightarrow> instant \<Rightarrow> job list"
where
  "batch_jobs b requests options t =
     map (\<lambda>(i, request). \<lparr>j_batch = b, j_index = i, j_request = request, j_options = options, j_start = t\<rparr>)
       (enumerate 0 requests)"

definition job_acquire :: "job \<Rightarrow> grant \<Rightarrow> (instant \<times> (execution_error + unit)) option" where
  "job_acquire j g = acquire_permit (j_start j) g (sc_deadline (j_options j)) (sc_cancellation (j_options j))"

definition job_run :: "execution_runtime \<Rightarrow> job \<Rightarrow> instant \<Rightarrow> execution_result run" where
  "job_run rn j u = run_granted (j_request j) (j_options j) rn u"

definition job_permits :: "execution_runtime \<Rightarrow> job \<Rightarrow> nat" where
  "job_permits rn j = permits_needed (j_request j) rn"

text \<open>The first waiter can be served now.\<close>

definition grantable :: "execution_runtime \<Rightarrow> pool_state \<Rightarrow> bool" where
  "grantable rn s =
     (case ps_queue s of
        [] \<Rightarrow> False
      | j # _ \<Rightarrow>
          job_permits rn j \<le> ps_available s \<and>
          job_acquire j (Granted (ps_now s)) = Some (ps_now s, Inr ()))"

definition wait_over :: "pool_state \<Rightarrow> job \<Rightarrow> bool" where
  "wait_over s j =
     (case job_acquire j NotGranted of Some (t, Inl _) \<Rightarrow> t \<le> ps_now s | _ \<Rightarrow> False)"

definition run_over :: "execution_runtime \<Rightarrow> pool_state \<Rightarrow> job \<times> instant \<Rightarrow> bool" where
  "run_over rn s r =
     (case r of (j, u) \<Rightarrow> case run_end (job_run rn j u) of Some (t, _) \<Rightarrow> t \<le> ps_now s | None \<Rightarrow> False)"

definition something_due :: "execution_runtime \<Rightarrow> pool_state \<Rightarrow> bool" where
  "something_due rn s \<longleftrightarrow>
     grantable rn s \<or> list_ex (wait_over s) (ps_queue s) \<or> list_ex (run_over rn s) (ps_running s)"

definition pool_initial :: "execution_runtime \<Rightarrow> pool_state" where
  "pool_initial rn =
     \<lparr>ps_now = 0, ps_available = pp_permits (rn_pool rn), ps_queue = [], ps_running = [],
      ps_completed = [], ps_batches = []\<rparr>"

definition runtime_wf :: "execution_runtime \<Rightarrow> bool" where
  "runtime_wf rn \<longleftrightarrow> rn_pool rn = PermitPool_new (ec_concurrency_limit (rn_config rn))"

definition pool_start :: "execution_runtime \<Rightarrow> pool_state \<Rightarrow> bool" where
  "pool_start rn s \<longleftrightarrow> runtime_wf rn \<and> s = pool_initial rn"


section \<open>The steps\<close>

definition submit_jobs :: "job list \<Rightarrow> job list \<Rightarrow> pool_state \<Rightarrow> pool_state" where
  "submit_jobs jobs order s =
     s\<lparr>ps_queue := ps_queue s @ order, ps_batches := ps_batches s @ [jobs]\<rparr>"

definition grant_job :: "execution_runtime \<Rightarrow> job \<Rightarrow> pool_state \<Rightarrow> pool_state" where
  "grant_job rn j s =
     s\<lparr>ps_queue := tl (ps_queue s), ps_available := ps_available s - job_permits rn j,
       ps_running := (j, ps_now s) # ps_running s\<rparr>"

definition refuse_job :: "job \<Rightarrow> execution_error \<Rightarrow> pool_state \<Rightarrow> pool_state" where
  "refuse_job j e s =
     s\<lparr>ps_queue := remove1 j (ps_queue s),
       ps_completed := ps_completed s @ [(j, error_result (j_request j) (error_code e) (error_text e))]\<rparr>"

definition finish_job :: "execution_runtime \<Rightarrow> job \<Rightarrow> instant \<Rightarrow> execution_result \<Rightarrow> pool_state \<Rightarrow> pool_state"
where
  "finish_job rn j u res s =
     s\<lparr>ps_running := remove1 (j, u) (ps_running s), ps_available := ps_available s + job_permits rn j,
       ps_completed := ps_completed s @ [(j, res)]\<rparr>"

text \<open>The futures of a batch are first polled, hence queue for permits, in some order.\<close>

inductive pool_step :: "execution_runtime \<Rightarrow> pool_state \<Rightarrow> pool_state \<Rightarrow> bool" for rn where
  submit:
    "jobs = batch_jobs (length (ps_batches s)) requests options (ps_now s) \<Longrightarrow> mset order = mset jobs \<Longrightarrow>
     pool_step rn s (submit_jobs jobs order s)"
| grant:
    "ps_queue s = j # js \<Longrightarrow> grantable rn s \<Longrightarrow> pool_step rn s (grant_job rn j s)"
| refuse:
    "j \<in> set (ps_queue s) \<Longrightarrow> job_acquire j NotGranted = Some (ps_now s, Inl e) \<Longrightarrow>
     pool_step rn s (refuse_job j e s)"
| finish:
    "(j, u) \<in> set (ps_running s) \<Longrightarrow> run_end (job_run rn j u) = Some (ps_now s, Returned res) \<Longrightarrow>
     pool_step rn s (finish_job rn j u res s)"
| tick:
    "\<not> something_due rn s \<Longrightarrow> pool_step rn s (s\<lparr>ps_now := ps_now s + 1\<rparr>)"

inductive_cases pool_stepE: "pool_step rn s s'"


section \<open>What a submission returns\<close>

text \<open>The completed pairs of a submission, in completion order, sorted by index.\<close>

definition batch_completed :: "nat \<Rightarrow> pool_state \<Rightarrow> (nat \<times> execution_result) list" where
  "batch_completed b s =
     map (\<lambda>(j, res). (j_index j, res)) (filter (\<lambda>(j, _). j_batch j = b) (ps_completed s))"

definition execute_results :: "nat \<Rightarrow> pool_state \<Rightarrow> execution_result list" where
  "execute_results b s = map snd (sort_key fst (batch_completed b s))"

text \<open>The loop over \<^verbatim>\<open>active.next()\<close> of a submission is over when none of its jobs is left.\<close>

definition batch_over :: "nat \<Rightarrow> pool_state \<Rightarrow> bool" where
  "batch_over b s \<longleftrightarrow>
     b < length (ps_batches s) \<and>
     list_all (\<lambda>j. j_batch j \<noteq> b) (ps_queue s) \<and> list_all (\<lambda>(j, _). j_batch j \<noteq> b) (ps_running s)"

definition execute_all :: "nat \<Rightarrow> pool_state \<Rightarrow> execution_result list option" where
  "execute_all b s = (if batch_over b s then Some (execute_results b s) else None)"

text \<open>
  A single request is a batch of one; \<^verbatim>\<open>.next().expect(..)\<close> panics on an empty result list.
\<close>

definition execute_one :: "nat \<Rightarrow> pool_state \<Rightarrow> execution_result outcome option" where
  "execute_one b s =
     map_option
       (\<lambda>results. case results of
          r # _ \<Rightarrow> Returned r | [] \<Rightarrow> Panic (PanicStr ''one request yields one result''))
       (execute_all b s)"


section \<open>The invariant\<close>

definition held :: "execution_runtime \<Rightarrow> (job \<times> instant) list \<Rightarrow> nat" where
  "held rn running = sum_list (map (\<lambda>(j, _). job_permits rn j) running)"

definition permits_balance :: "execution_runtime \<Rightarrow> pool_state \<Rightarrow> bool" where
  "permits_balance rn s \<longleftrightarrow>
     runtime_wf rn \<and> ps_available s + held rn (ps_running s) = pp_permits (rn_pool rn)"

text \<open>Every job of every submission is in exactly one of the three places.\<close>

definition jobs_conserved :: "pool_state \<Rightarrow> bool" where
  "jobs_conserved s \<longleftrightarrow>
     mset (ps_queue s) + mset (map fst (ps_running s)) + mset (map fst (ps_completed s)) =
       mset (concat (ps_batches s)) \<and>
     (\<forall>b < length (ps_batches s). \<exists>requests options t.
        ps_batches s ! b = batch_jobs b requests options t)"

definition job_times_ok :: "execution_runtime \<Rightarrow> pool_state \<Rightarrow> bool" where
  "job_times_ok rn s \<longleftrightarrow>
     (\<forall>j \<in> set (ps_queue s). j_start j \<le> ps_now s \<and>
        (\<forall>t r. job_acquire j NotGranted = Some (t, r) \<longrightarrow> ps_now s \<le> t)) \<and>
     (\<forall>(j, u) \<in> set (ps_running s). u \<le> ps_now s \<and>
        job_acquire j (Granted u) = Some (u, Inr ()) \<and>
        (\<forall>t out. run_end (job_run rn j u) = Some (t, out) \<longrightarrow> ps_now s \<le> t))"

definition job_outcome :: "execution_runtime \<Rightarrow> job \<Rightarrow> execution_result \<Rightarrow> bool" where
  "job_outcome rn j res \<longleftrightarrow>
     (\<exists>g t. run_end (run_one (j_request j) (j_index j) (j_options j) rn (j_start j) g) =
        Some (t, Returned (j_index j, res)))"

definition results_ok :: "execution_runtime \<Rightarrow> pool_state \<Rightarrow> bool" where
  "results_ok rn s \<longleftrightarrow> (\<forall>(j, res) \<in> set (ps_completed s). job_outcome rn j res)"

definition pool_inv :: "execution_runtime \<Rightarrow> pool_state \<Rightarrow> bool" where
  "pool_inv rn s \<longleftrightarrow> permits_balance rn s \<and> jobs_conserved s \<and> job_times_ok rn s \<and> results_ok rn s"

lemmas pool_state_defs = submit_jobs_def grant_job_def refuse_job_def finish_job_def



section \<open>Every step keeps the invariant\<close>

lemma held_simps [simp]:
  "held rn [] = 0"
  "held rn (r # rs) = job_permits rn (fst r) + held rn rs"
  by (simp_all add: held_def case_prod_beta)

lemma held_remove1:
  "(j, u) \<in> set rs \<Longrightarrow> held rn rs = job_permits rn j + held rn (remove1 (j, u) rs)"
  by (simp add: held_def sum_list_map_remove1)

lemma permits_balance_step: "pool_step rn s s' \<Longrightarrow> permits_balance rn s \<Longrightarrow> permits_balance rn s'"
  by (cases rule: pool_step.cases, assumption)
    (auto simp: permits_balance_def pool_state_defs grantable_def held_remove1 split: list.splits)

lemma mset_map_fst_remove1:
  "(j, u) \<in> set rs \<Longrightarrow> mset (map fst rs) = add_mset j (mset (map fst (remove1 (j, u) rs)))"
  by (induction rs) auto

lemma jobs_conserved_step:
  assumes "pool_step rn s s'" and ok: "jobs_conserved s"
  shows "jobs_conserved s'"
  using assms(1)
proof (cases rule: pool_step.cases)
  case (submit jobs requests options order)
  with ok submit show ?thesis
    by (auto simp: jobs_conserved_def pool_state_defs nth_append less_Suc_eq add.assoc)
next
  case (refuse j e)
  then have "add_mset j (mset (remove1 j (ps_queue s))) = mset (ps_queue s)" by simp
  with ok refuse show ?thesis
    by (simp add: jobs_conserved_def pool_state_defs del: mset_remove1 flip: add_mset_add_single)
      (metis union_mset_add_mset_left)
next
  case (finish j u res)
  with ok finish mset_map_fst_remove1 [OF finish(2)] show ?thesis
    by (simp add: jobs_conserved_def pool_state_defs)
qed (use ok in \<open>auto simp: jobs_conserved_def pool_state_defs\<close>)

lemma job_acquire_not_granted:
  "job_acquire j NotGranted = Some (t, r) \<Longrightarrow> j_start j \<le> t \<and> (\<exists>e. r = Inl e)"
  unfolding job_acquire_def
  by (cases "j_start j" NotGranted "sc_deadline (j_options j)" "sc_cancellation (j_options j)"
      rule: acquire_permit_cases) (auto dest: due_ge simp: due_def)

lemma job_run_ends_after: "run_end (job_run rn j u) = Some (t, out) \<Longrightarrow> u \<le> t \<and> (\<exists>res. out = Returned res)"
  using run_granted_end [of "j_request j" "j_options j" rn u]
  by (auto simp: job_run_def granted_end_ok_def split: outcome.splits)

lemma batch_jobs_start: "j \<in> set (batch_jobs b requests options t) \<Longrightarrow> j_start j = t"
  by (auto simp: batch_jobs_def)

lemma job_times_ok_step:
  assumes "pool_step rn s s'" and ok: "job_times_ok rn s"
  shows "job_times_ok rn s'"
  using assms(1)
proof (cases rule: pool_step.cases)
  case (submit jobs requests options order)
  have "set order = set jobs" using submit(3) by (metis set_mset_mset)
  then have "j_start j = ps_now s" if "j \<in> set order" for j
    using that submit(2) by (auto dest: batch_jobs_start)
  with ok submit show ?thesis
    by (fastforce simp: job_times_ok_def pool_state_defs dest: job_acquire_not_granted)
next
  case (grant j js)
  with ok grant show ?thesis
    by (auto simp: job_times_ok_def pool_state_defs grantable_def dest: job_run_ends_after)
next
  case (refuse j e)
  with ok refuse show ?thesis
    by (auto simp: job_times_ok_def pool_state_defs dest: notin_set_remove1)
next
  case (finish j u res)
  with ok finish show ?thesis
    by (auto simp: job_times_ok_def pool_state_defs dest!: notin_set_remove1 set_mp [OF set_remove1_subset])
next
  case tick
  from tick have q: "\<forall>j \<in> set (ps_queue s). \<not> wait_over s j"
    and r: "\<forall>x \<in> set (ps_running s). \<not> run_over rn s x"
    by (auto simp: something_due_def list_ex_iff)
  have "ps_now s + 1 \<le> t" if "j \<in> set (ps_queue s)" "job_acquire j NotGranted = Some (t, x)" for j t x
    using that q job_acquire_not_granted [OF that(2)] by (fastforce simp: wait_over_def)
  moreover have "ps_now s + 1 \<le> t" if "(j, u) \<in> set (ps_running s)" "run_end (job_run rn j u) = Some (t, x)" for j u t x
    using that r by (fastforce simp: run_over_def)
  ultimately show ?thesis using ok tick(1) by (fastforce simp: job_times_ok_def)
qed

lemma refused_outcome:
  assumes "job_acquire j NotGranted = Some (t, Inl e)"
  shows "job_outcome rn j (error_result (j_request j) (error_code e) (error_text e))"
  using assms unfolding job_outcome_def job_acquire_def
  by (intro exI [of _ NotGranted] exI [of _ t]) (simp add: run_one_end)

lemma granted_outcome:
  assumes "job_acquire j (Granted u) = Some (u, Inr ())"
    and "run_end (job_run rn j u) = Some (t, Returned res)"
  shows "job_outcome rn j res"
  using assms unfolding job_outcome_def job_acquire_def job_run_def
  by (intro exI [of _ "Granted u"] exI [of _ t]) (simp add: run_one_end)

lemma results_ok_step:
  "pool_step rn s s' \<Longrightarrow> job_times_ok rn s \<Longrightarrow> results_ok rn s \<Longrightarrow> results_ok rn s'"
  by (cases rule: pool_step.cases, assumption)
    (auto simp: results_ok_def pool_state_defs job_times_ok_def intro: refused_outcome granted_outcome)

lemma pool_inv_step: "pool_inv rn s \<Longrightarrow> pool_step rn s s' \<Longrightarrow> pool_inv rn s'"
  by (simp add: pool_inv_def permits_balance_step jobs_conserved_step job_times_ok_step results_ok_step)

interpretation pool: step_invariant "pool_start rn" "pool_step rn" "pool_inv rn"
  for rn
proof unfold_locales
  fix s assume "pool_start rn s"
  then show "pool_inv rn s"
    by (simp add: pool_start_def pool_inv_def pool_initial_def permits_balance_def jobs_conserved_def
        job_times_ok_def results_ok_def)
qed (rule pool_inv_step)



section \<open>Results come in input order\<close>

lemma filter_concat_indexed:
  assumes "\<forall>k < length xss. \<forall>x \<in> set (xss ! k). f x = n + k" and "b < length xss"
  shows "filter (\<lambda>x. f x = n + b) (concat xss) = xss ! b"
  using assms
proof (induction xss arbitrary: n b)
  case Nil
  then show ?case by simp
next
  case (Cons xs xss)
  have hd: "\<forall>x \<in> set xs. f x = n" using Cons.prems(1) by (metis add.right_neutral length_greater_0_conv list.distinct(1) nth_Cons_0)
  have tl: "\<forall>k < length xss. \<forall>x \<in> set (xss ! k). f x = Suc n + k"
    using Cons.prems(1) by (metis Suc_less_eq add_Suc_right add_Suc length_Cons nth_Cons_Suc)
  show ?case
  proof (cases b)
    case 0
    have "filter (\<lambda>x. f x = n) (concat xss) = []"
      using tl unfolding filter_empty_conv by (force simp: in_set_conv_nth)
    with 0 hd show ?thesis by (simp add: filter_id_conv)
  next
    case (Suc b')
    with hd have "filter (\<lambda>x. f x = n + b) xs = []" by (auto simp: filter_empty_conv)
    with Suc Cons.IH [OF tl] Cons.prems(2) show ?thesis by simp
  qed
qed

lemma batch_jobs_simps:
  "map j_index (batch_jobs b requests options t) = [0..<length requests]"
  "j \<in> set (batch_jobs b requests options t) \<Longrightarrow>
     j_batch j = b \<and> j_request j = requests ! j_index j \<and> j_options j = options \<and> j_start j = t"
  by (auto simp: batch_jobs_def comp_def case_prod_beta enumerate_eq_zip in_set_zip)

lemma batch_over_completed:
  assumes "jobs_conserved s" and "batch_over b s"
  shows "mset (map fst (filter (\<lambda>(j, _). j_batch j = b) (ps_completed s))) = mset (ps_batches s ! b)"
proof -
  let ?f = "\<lambda>j. j_batch j = b"
  have q: "filter_mset ?f (mset (ps_queue s)) = {#}"
    using assms(2) by (auto simp: batch_over_def list_all_iff filter_empty_conv simp flip: mset_filter)
  have r: "filter_mset ?f (mset (map fst (ps_running s))) = {#}"
    using assms(2) by (auto simp: batch_over_def list_all_iff filter_empty_conv simp flip: mset_filter)
  have c: "filter (\<lambda>j. j_batch j = 0 + b) (concat (ps_batches s)) = ps_batches s ! b"
  proof (rule filter_concat_indexed)
    show "b < length (ps_batches s)" using assms(2) by (simp add: batch_over_def)
    show "\<forall>k < length (ps_batches s). \<forall>j \<in> set (ps_batches s ! k). j_batch j = 0 + k"
      using assms(1) batch_jobs_simps(2) by (fastforce simp: jobs_conserved_def)
  qed
  have "mset (map fst (filter (\<lambda>(j, _). ?f j) (ps_completed s))) =
      filter_mset ?f (mset (map fst (ps_completed s)))"
    by (simp only: mset_filter [symmetric] filter_map comp_def case_prod_unfold)
  also have "\<dots> = filter_mset ?f (mset (ps_queue s) + mset (map fst (ps_running s)) + mset (map fst (ps_completed s)))"
    unfolding filter_union_mset q r by simp
  also have "\<dots> = mset (ps_batches s ! b)"
    using assms(1) c by (simp add: jobs_conserved_def flip: mset_filter)
  finally show ?thesis .
qed

lemma execute_results_nth:
  assumes inv: "pool_inv rn s" and "batch_over b s"
    and jobs: "ps_batches s ! b = batch_jobs b requests options t"
  shows "length (execute_results b s) = length requests \<and>
    (\<forall>i < length requests. \<exists>g t'. run_end (run_one (requests ! i) i options rn t g) =
       Some (t', Returned (i, execute_results b s ! i)))"
proof -
  let ?c = "batch_completed b s"
  have cons: "jobs_conserved s" and res: "results_ok rn s" using inv by (simp_all add: pool_inv_def)
  note over = batch_over_completed [OF cons assms(2)]
  have "mset (map fst ?c) = image_mset j_index (mset (map fst (filter (\<lambda>(j, _). j_batch j = b) (ps_completed s))))"
    by (simp add: batch_completed_def image_mset.compositionality comp_def case_prod_beta)
  also have "\<dots> = mset [0..<length requests]"
    unfolding over jobs by (simp only: batch_jobs_simps flip: mset_map)
  finally have idx: "map fst (sort_key fst ?c) = [0..<length requests]"
    by (metis sorted_sort_key mset_map mset_sort properties_for_sort sorted_upt)
  then have len: "length (sort_key fst ?c) = length requests" by (metis length_map length_upt minus_nat.diff_0)
  have "\<exists>g t'. run_end (run_one (requests ! i) i options rn t g) = Some (t', Returned (i, execute_results b s ! i))"
    if "i < length requests" for i
  proof -
    have "fst (sort_key fst ?c ! i) = i" using idx that len by (metis add_0 nth_map nth_upt)
    then have "(i, execute_results b s ! i) = sort_key fst ?c ! i"
      using that len by (simp add: execute_results_def prod_eq_iff)
    moreover have "sort_key fst ?c ! i \<in> set ?c" using that len by (metis nth_mem set_sort)
    ultimately have "(i, execute_results b s ! i) \<in> set ?c" by simp
    then obtain j where j: "(j, execute_results b s ! i) \<in> set (ps_completed s)" "j_batch j = b" "j_index j = i"
      by (auto simp: batch_completed_def)
    then have "j \<in> set (map fst (filter (\<lambda>(j, _). j_batch j = b) (ps_completed s)))" by force
    then have "j \<in> set (batch_jobs b requests options t)"
      using over jobs by (metis set_mset_mset)
    then have "j_request j = requests ! i" "j_options j = options" "j_start j = t"
      using batch_jobs_simps(2) j(3) by blast+
    moreover have "job_outcome rn j (execute_results b s ! i)" using res j(1) by (auto simp: results_ok_def)
    ultimately show ?thesis using j(3) by (simp add: job_outcome_def)
  qed
  with len show ?thesis by (simp add: execute_results_def)
qed

text \<open>
  (C1) A submission returns one result per request, in the order of the requests, however its
  requests were scheduled against each other and against the other submissions sharing the
  pool: the \<open>i\<close>-th result is an outcome of running the \<open>i\<close>-th request on its own (\<open>run_one\<close>, for
  some answer of the semaphore). The single-request entry point never hits its \<^verbatim>\<open>expect\<close>.
\<close>

theorem execute_all_in_order:
  assumes "reach (pool_start rn) (pool_step rn) s"
    and "execute_all b s = Some results"
    and "ps_batches s ! b = batch_jobs b requests options t"
  shows "length results = length requests \<and>
    (\<forall>i < length requests. \<exists>g t'. run_end (run_one (requests ! i) i options rn t g) =
       Some (t', Returned (i, results ! i))) \<and>
    (length requests = 1 \<longrightarrow> execute_one b s = Some (Returned (results ! 0)))"
proof -
  from assms(2) have over: "batch_over b s" and r: "results = execute_results b s"
    by (auto simp: execute_all_def split: if_splits)
  from execute_results_nth [OF pool.reach_inv [OF assms(1)] over assms(3)] r
  have "length results = length requests \<and>
    (\<forall>i < length requests. \<exists>g t'. run_end (run_one (requests ! i) i options rn t g) =
       Some (t', Returned (i, results ! i)))" by simp
  moreover from this have "execute_one b s = Some (Returned (results ! 0))" if "length requests = 1"
    using that assms(2) by (cases results) (auto simp: execute_one_def)
  ultimately show ?thesis by blast
qed

lemma runtime_wf_permits: "runtime_wf rn \<Longrightarrow> 1 \<le> pp_permits (rn_pool rn) \<and> 1 \<le> job_permits rn j \<and>
    job_permits rn j \<le> pp_permits (rn_pool rn)"
  using permit_pool_capacity_aux [of "ec_concurrency_limit (rn_config rn)"]
  by (auto simp: runtime_wf_def job_permits_def permits_needed_def)

lemma held_ge_length: "runtime_wf rn \<Longrightarrow> length rs \<le> held rn rs"
proof (induction rs)
  case (Cons r rs)
  with runtime_wf_permits [of rn "fst r"] show ?case by simp
qed simp

text \<open>
  (C2) Permits are neither lost nor made up: those available and those held by running requests
  always add up to the size of the pool. Hence never more requests run at once than the
  concurrency limit, and a request whose tool is not safe to run concurrently runs alone.
\<close>

theorem permits_conserved:
  assumes "reach (pool_start rn) (pool_step rn) s"
  shows "ps_available s + held rn (ps_running s) = max 1 (min (unat (ec_concurrency_limit (rn_config rn))) (2 ^ 32 - 1)) \<and>
    length (ps_running s) \<le> max 1 (min (unat (ec_concurrency_limit (rn_config rn))) (2 ^ 32 - 1)) \<and>
    (\<forall>r \<in> set (ps_running s). \<not> is_concurrent (j_request (fst r)) (rn_tools rn) \<longrightarrow> ps_running s = [r])"
proof -
  let ?n = "pp_permits (rn_pool rn)"
  from pool.reach_inv [OF assms] have wf: "runtime_wf rn"
    and bal: "ps_available s + held rn (ps_running s) = ?n"
    by (simp_all add: pool_inv_def permits_balance_def)
  have n: "?n = max 1 (min (unat (ec_concurrency_limit (rn_config rn))) (2 ^ 32 - 1))"
    "unat (pp_count (rn_pool rn)) = ?n"
    using wf permit_pool_capacity_aux [of "ec_concurrency_limit (rn_config rn)"] unfolding runtime_wf_def
    by simp_all
  have "ps_running s = [r]" if r: "r \<in> set (ps_running s)" "\<not> is_concurrent (j_request (fst r)) (rn_tools rn)" for r
  proof -
    obtain j u where ju: "r = (j, u)" by (cases r)
    have "job_permits rn j = ?n" using r(2) ju n(2) by (simp add: job_permits_def permits_needed_def)
    with bal held_remove1 [of j u "ps_running s" rn] r(1) ju have "held rn (remove1 r (ps_running s)) = 0" by simp
    then have "remove1 r (ps_running s) = []" using held_ge_length [OF wf, of "remove1 r (ps_running s)"] by simp
    with r(1) show ?thesis by (cases "ps_running s") (auto split: if_splits)
  qed
  with bal n held_ge_length [OF wf, of "ps_running s"] show ?thesis by auto
qed



section \<open>The pool makes progress\<close>

definition idle :: "pool_state \<Rightarrow> bool" where
  "idle s \<longleftrightarrow> ps_queue s = [] \<and> ps_running s = []"

text \<open>A step that is not a new submission.\<close>

definition pool_work :: "execution_runtime \<Rightarrow> pool_state \<Rightarrow> pool_state \<Rightarrow> bool" where
  "pool_work rn s s' \<longleftrightarrow> pool_step rn s s' \<and> ps_batches s' = ps_batches s"

definition time_left :: "execution_runtime \<Rightarrow> pool_state \<Rightarrow> job \<times> instant \<Rightarrow> nat" where
  "time_left rn s r =
     (case r of (j, u) \<Rightarrow> case run_end (job_run rn j u) of Some (t, _) \<Rightarrow> t - ps_now s | None \<Rightarrow> 0)"

definition work_left :: "execution_runtime \<Rightarrow> pool_state \<Rightarrow> nat \<times> nat" where
  "work_left rn s =
     (2 * length (ps_queue s) + length (ps_running s), sum_list (map (time_left rn s) (ps_running s)))"

lemma acquire_permit_ready:
  assumes "t0 \<le> now"
  shows "acquire_permit t0 (Granted now) d c = Some (now, Inr ()) \<or>
    (\<exists>t e. acquire_permit t0 NotGranted d c = Some (t, Inl e) \<and> t \<le> now)"
  using assms by (cases c; cases d) (auto simp: acquire_permit_def Let_def due_def max_def split: if_splits)

lemma head_ready:
  assumes inv: "pool_inv rn s" and "ps_running s = []" and "ps_queue s \<noteq> []"
  shows "something_due rn s"
proof -
  from assms(3) obtain j js where q: "ps_queue s = j # js" by (cases "ps_queue s") auto
  from inv have wf: "runtime_wf rn" and "ps_available s = pp_permits (rn_pool rn)"
    using assms(2) by (simp_all add: pool_inv_def permits_balance_def)
  then have "job_permits rn j \<le> ps_available s" using runtime_wf_permits [OF wf, of j] by simp
  moreover have "j_start j \<le> ps_now s" using inv q by (simp add: pool_inv_def job_times_ok_def)
  note acquire_permit_ready [OF this, of "sc_deadline (j_options j)" "sc_cancellation (j_options j)"]
  ultimately show ?thesis using q
    by (auto simp: something_due_def grantable_def wait_over_def job_acquire_def)
qed

lemma tool_timeout_ends:
  assumes "ec_tool_timeout (rn_config rn) = Some timeout"
  shows "\<exists>t out. run_end (job_run rn j u) = Some (t, out)"
proof -
  have "\<exists>d. tc_deadline (granted_context (j_request j) (j_options j) rn u) = Some d"
    using assms by (cases "sc_deadline (j_options j)") (auto simp: effective_deadline_def)
  then show ?thesis using run_granted_bounded unfolding job_run_def by blast
qed

lemma work_left_step:
  assumes inv: "pool_inv rn s" and "pool_work rn s s'" and "\<not> idle s"
    and ends: "ec_tool_timeout (rn_config rn) = Some timeout"
  shows "(work_left rn s', work_left rn s) \<in> less_than <*lex*> less_than"
proof -
  from assms(2) have "pool_step rn s s'" and same: "ps_batches s' = ps_batches s"
    by (simp_all add: pool_work_def)
  then show ?thesis
  proof (cases rule: pool_step.cases)
    case (submit jobs requests options order)
    with same show ?thesis by (simp add: submit_jobs_def)
  next
    case (grant j js)
    then show ?thesis by (simp add: grant_job_def work_left_def)
  next
    case (refuse j e)
    then have "0 < length (ps_queue s)" by auto
    with refuse show ?thesis by (simp add: refuse_job_def work_left_def length_remove1)
  next
    case (finish j u res)
    then have "0 < length (ps_running s)" by auto
    with finish show ?thesis by (simp add: finish_job_def work_left_def length_remove1)
  next
    case tick
    then have ne: "ps_running s \<noteq> []"
      using head_ready [OF inv] assms(3) by (auto simp: idle_def)
    have "time_left rn s' r < time_left rn s r" if "r \<in> set (ps_running s)" for r
    proof -
      obtain j u where r: "r = (j, u)" by (cases r)
      obtain t out where e: "run_end (job_run rn j u) = Some (t, out)"
        using tool_timeout_ends [OF ends] by blast
      have "\<not> run_over rn s r" using tick(2) that by (auto simp: something_due_def list_ex_iff)
      with r e show ?thesis using tick(1) by (simp add: time_left_def run_over_def)
    qed
    then have "sum_list (map (time_left rn s') (ps_running s)) < sum_list (map (time_left rn s) (ps_running s))"
      using ne by (induction "ps_running s") (auto intro: sum_list_strict_mono)
    with tick show ?thesis by (simp add: work_left_def)
  qed
qed

lemma pool_work_possible:
  assumes inv: "pool_inv rn s"
  shows "\<exists>s'. pool_work rn s s'"
proof (cases "something_due rn s")
  case False
  then have "pool_step rn s (s\<lparr>ps_now := ps_now s + 1\<rparr>)" by (rule tick)
  then show ?thesis unfolding pool_work_def by fastforce
next
  case True
  then consider (g) "grantable rn s" | (w) j where "j \<in> set (ps_queue s)" "wait_over s j"
    | (r) j u where "(j, u) \<in> set (ps_running s)" "run_over rn s (j, u)"
    by (auto simp: something_due_def list_ex_iff)
  then show ?thesis
  proof cases
    case g
    then obtain j js where q: "ps_queue s = j # js" by (auto simp: grantable_def split: list.splits)
    show ?thesis using pool_step.grant [OF q g] by (auto simp: pool_work_def grant_job_def)
  next
    case w
    then obtain t r where a: "job_acquire j NotGranted = Some (t, r)"
      by (auto simp: wait_over_def split: option.splits)
    with job_acquire_not_granted [OF a] w(2) obtain e
      where "job_acquire j NotGranted = Some (t, Inl e)" "t \<le> ps_now s"
      by (auto simp: wait_over_def)
    moreover from this w inv have "ps_now s \<le> t" by (auto simp: pool_inv_def job_times_ok_def)
    ultimately have "pool_step rn s (refuse_job j e s)" using w by (intro refuse) auto
    then show ?thesis by (auto simp: pool_work_def refuse_job_def)
  next
    case r
    then obtain t out where e: "run_end (job_run rn j u) = Some (t, out)" "t \<le> ps_now s"
      by (auto simp: run_over_def split: option.splits)
    moreover from this r inv have "ps_now s \<le> t" by (fastforce simp: pool_inv_def job_times_ok_def)
    moreover obtain res where "out = Returned res" using job_run_ends_after [OF e(1)] by blast
    ultimately have "pool_step rn s (finish_job rn j u res s)" using r by (intro finish) auto
    then show ?thesis by (auto simp: pool_work_def finish_job_def)
  qed
qed

lemma idle_batches_over: "idle s \<Longrightarrow> b < length (ps_batches s) \<Longrightarrow> batch_over b s"
  by (simp add: idle_def batch_over_def)

lemma reach_pool_work:
  assumes "reach (pool_start rn) (pool_step rn) (f 0)" and "\<forall>n. pool_work rn (f n) (f (Suc n))"
  shows "reach (pool_start rn) (pool_step rn) (f n)"
  using assms by (induction n) (auto simp: pool_work_def intro: reach_step)

text \<open>
  (C3) No deadlock and no livelock: with a tool timeout configured, from every reachable state
  the pool can always go on, and every sequence of steps without new submissions reaches, after
  finitely many of them, a state in which nothing waits or runs; every submission has its
  results then. In particular an exclusive request is eventually granted the whole pool, which
  needs the pool to be exactly as large as the count it acquires.
\<close>

theorem executor_progress:
  assumes "ec_tool_timeout (rn_config rn) = Some timeout"
  shows "\<forall>s. reach (pool_start rn) (pool_step rn) s \<longrightarrow>
      (\<exists>s'. pool_work rn s s') \<and>
      (\<forall>f. f 0 = s \<and> (\<forall>n. pool_work rn (f n) (f (Suc n))) \<longrightarrow>
         (\<exists>n. idle (f n) \<and> (\<forall>b < length (ps_batches s). execute_all b (f n) \<noteq> None)))"
proof (intro allI impI conjI)
  fix s assume "reach (pool_start rn) (pool_step rn) s"
  then show "\<exists>s'. pool_work rn s s'" by (intro pool_work_possible pool.reach_inv)
next
  fix s f
  assume r: "reach (pool_start rn) (pool_step rn) s"
    and f: "f 0 = s \<and> (\<forall>n. pool_work rn (f n) (f (Suc n)))"
  have inv: "pool_inv rn (f n)" for n using r f reach_pool_work pool.reach_inv by metis
  have "\<exists>n. idle (f n)"
  proof (rule ccontr)
    assume "\<not> ?thesis"
    then have "(work_left rn (f (Suc n)), work_left rn (f n)) \<in> less_than <*lex*> less_than" for n
      using work_left_step [OF inv _ _ assms] f by blast
    then have "\<not> wf (less_than <*lex*> less_than)"
      unfolding wf_iff_no_infinite_down_chain by (auto intro!: exI [of _ "\<lambda>n. work_left rn (f n)"])
    then show False by (simp add: wf_lex_prod)
  qed
  then obtain n where "idle (f n)" by blast
  moreover have "ps_batches (f n) = ps_batches s" using f by (induction n) (auto simp: pool_work_def)
  ultimately show "\<exists>n. idle (f n) \<and> (\<forall>b < length (ps_batches s). execute_all b (f n) \<noteq> None)"
    by (intro exI [of _ n]) (auto simp: execute_all_def idle_batches_over)
qed


section \<open>A concrete schedule\<close>

text \<open>Two requests of a cancelled submission, the second of which is turned away first.\<close>

definition demo_controls :: submission_controls where
  "demo_controls = with_cancellation (Some 0) SubmissionControls_new"

definition demo_jobs :: "job list" where
  "demo_jobs = batch_jobs 0 [demo_request ''a'' ''Echo'', demo_request ''b'' ''Stuck''] demo_controls 0"

definition demo_end :: pool_state where
  "demo_end =
     (let e = Cancelled ''execution cancelled while queued'' in
      refuse_job (demo_jobs ! 0) e
        (refuse_job (demo_jobs ! 1) e (submit_jobs demo_jobs (rev demo_jobs) (pool_initial demo_runtime))))"

lemma demo_acquire:
  "j \<in> set demo_jobs \<Longrightarrow>
     job_acquire j NotGranted = Some (0, Inl (Cancelled ''execution cancelled while queued''))"
  by (auto simp: demo_jobs_def batch_jobs_def demo_controls_def job_acquire_def acquire_permit_def
      Let_def due_def with_cancellation_def SubmissionControls_new_def enumerate_eq_zip)

lemma demo_reach: "reach (pool_start demo_runtime) (pool_step demo_runtime) demo_end"
proof -
  let ?e = "Cancelled ''execution cancelled while queued''"
  let ?s1 = "submit_jobs demo_jobs (rev demo_jobs) (pool_initial demo_runtime)"
  let ?s2 = "refuse_job (demo_jobs ! 1) ?e ?s1"
  have jobs: "demo_jobs = [demo_jobs ! 0, demo_jobs ! 1]" "demo_jobs ! 0 \<noteq> demo_jobs ! 1"
    by (simp_all add: demo_jobs_def batch_jobs_def)
  have mem: "demo_jobs ! 0 \<in> set demo_jobs" "demo_jobs ! 1 \<in> set demo_jobs"
    by (simp_all add: demo_jobs_def batch_jobs_def)
  have "reach (pool_start demo_runtime) (pool_step demo_runtime) (pool_initial demo_runtime)"
    by (rule reach_start) (simp add: pool_start_def runtime_wf_def demo_runtime_def ExecutionRuntime_new_def)
  moreover have "pool_step demo_runtime (pool_initial demo_runtime) ?s1"
    by (rule submit) (simp_all add: demo_jobs_def pool_initial_def)
  moreover have "pool_step demo_runtime ?s1 ?s2"
    using demo_acquire [OF mem(2)] mem by (intro refuse) (simp_all add: submit_jobs_def pool_initial_def)
  moreover have "pool_step demo_runtime ?s2 (refuse_job (demo_jobs ! 0) ?e ?s2)"
    using demo_acquire [OF mem(1)] mem jobs(2)
    by (intro refuse) (simp_all add: submit_jobs_def refuse_job_def pool_initial_def)
  ultimately show ?thesis unfolding demo_end_def Let_def by (meson reach_step)
qed

lemma demo_end_batch:
  "execute_all 0 demo_end =
     Some [error_result (demo_request ''a'' ''Echo'') ''cancelled'' ''execution cancelled while queued'',
           error_result (demo_request ''b'' ''Stuck'') ''cancelled'' ''execution cancelled while queued'']"
  "ps_batches demo_end ! 0 = demo_jobs"
  by (simp_all add: execute_all_def batch_over_def execute_results_def batch_completed_def demo_end_def
      refuse_job_def submit_jobs_def demo_jobs_def batch_jobs_def pool_initial_def Let_def)

theorem execute_all_in_order_witness:
  "\<exists>g t'. run_end (run_one (demo_request ''b'' ''Stuck'') 1 demo_controls demo_runtime 0 g) =
     Some (t', Returned (1, error_result (demo_request ''b'' ''Stuck'') ''cancelled'' ''execution cancelled while queued''))"
  using execute_all_in_order [OF demo_reach demo_end_batch(1) demo_end_batch(2) [unfolded demo_jobs_def]]
  by (force dest: spec [of _ 1])

theorem permits_conserved_witness:
  "ps_available demo_end + held demo_runtime (ps_running demo_end) = 2"
  using permits_conserved [OF demo_reach]
  by (simp add: demo_runtime_def ExecutionRuntime_new_def)

theorem executor_progress_witness:
  "\<exists>s'. pool_work (demo_runtime\<lparr>rn_config := (rn_config demo_runtime)\<lparr>ec_tool_timeout := Some 9\<rparr>\<rparr>)
     (pool_initial demo_runtime) s'"
proof -
  let ?rn = "demo_runtime\<lparr>rn_config := (rn_config demo_runtime)\<lparr>ec_tool_timeout := Some 9\<rparr>\<rparr>"
  have "reach (pool_start ?rn) (pool_step ?rn) (pool_initial demo_runtime)"
    by (rule reach_start) (simp add: pool_start_def runtime_wf_def demo_runtime_def ExecutionRuntime_new_def
        pool_initial_def)
  then show ?thesis using executor_progress [of ?rn 9] by simp
qed

end
