(* ===== verification/Text.thy ===== *)
theory Text
  imports Paths
begin

text \<open>
  The parts of \<^verbatim>\<open>str\<close> the tools use, on the UTF-8 bytes of the text: splitting into scalar
  values (with the well-formedness rules of the encoding), white space, lines, and the
  left-to-right search behind \<^verbatim>\<open>matches\<close>, \<^verbatim>\<open>replace\<close> and \<^verbatim>\<open>replacen\<close>.
\<close>

section \<open>UTF-8\<close>

definition in_range :: "nat \<Rightarrow> nat \<Rightarrow> char \<Rightarrow> bool" where
  "in_range lo hi c \<longleftrightarrow> lo \<le> of_char c \<and> of_char c \<le> hi"

text \<open>The number of bytes of the scalar value the text starts with, if it starts with one.\<close>

fun scalar_length :: "string \<Rightarrow> nat option" where
  "scalar_length [] = None"
| "scalar_length (a # s) =
     (let cont = in_range 128 191;
          second = (if in_range 224 224 a then in_range 160 191 else if in_range 237 237 a then in_range 128 159
                    else if in_range 240 240 a then in_range 144 191 else if in_range 244 244 a then in_range 128 143
                    else cont) in
      if in_range 0 127 a then Some 1
      else if in_range 194 223 a then (case s of b # _ \<Rightarrow> if second b then Some 2 else None | _ \<Rightarrow> None)
      else if in_range 224 239 a then
        (case s of b # c # _ \<Rightarrow> if second b \<and> cont c then Some 3 else None | _ \<Rightarrow> None)
      else if in_range 240 244 a then
        (case s of b # c # d # _ \<Rightarrow> if second b \<and> cont c \<and> cont d then Some 4 else None | _ \<Rightarrow> None)
      else None)"

lemma scalar_length_pos: "scalar_length s = Some n \<Longrightarrow> 0 < n \<and> n \<le> length s"
  by (cases s) (auto simp: Let_def split: if_splits list.splits)

text \<open>The scalar values of a text, each as its bytes; \<open>None\<close> when it is not UTF-8.\<close>

function utf8_chars :: "string \<Rightarrow> string list option" where
  "utf8_chars s =
     (if s = [] then Some []
      else case scalar_length s of
             None \<Rightarrow> None
           | Some n \<Rightarrow> map_option (\<lambda>cs. take n s # cs) (utf8_chars (drop n s)))"
  by pat_completeness auto
termination
  by (relation "measure length") (auto dest: scalar_length_pos)

declare utf8_chars.simps [simp del]

definition valid_utf8 :: "string \<Rightarrow> bool" where
  "valid_utf8 s \<longleftrightarrow> utf8_chars s \<noteq> None"

text \<open>\<^verbatim>\<open>str::chars\<close>, on text that is UTF-8.\<close>

definition chars :: "string \<Rightarrow> string list" where
  "chars s = (case utf8_chars s of Some cs \<Rightarrow> cs | None \<Rightarrow> [])"

lemma utf8_chars_concat: "utf8_chars s = Some cs \<Longrightarrow> concat cs = s"
proof (induction s arbitrary: cs rule: utf8_chars.induct)
  case (1 s)
  then show ?case
    by (subst (asm) (2) utf8_chars.simps) (auto split: if_splits option.splits)
qed

lemma utf8_chars_Nil: "utf8_chars [] = Some []"
  by (subst utf8_chars.simps) simp

lemma utf8_chars_ascii:
  "in_range 0 127 a \<Longrightarrow> utf8_chars (a # s) = map_option ((#) [a]) (utf8_chars s)"
  by (subst utf8_chars.simps) (simp add: Let_def)


text \<open>
  \<^verbatim>\<open>String::from_utf8_lossy\<close>: every maximal piece of an unfinished scalar value, and every
  byte that cannot start one, becomes one replacement character.
\<close>

definition second_byte :: "char \<Rightarrow> char \<Rightarrow> bool" where
  "second_byte a =
     (if in_range 224 224 a then in_range 160 191 else if in_range 237 237 a then in_range 128 159
      else if in_range 240 240 a then in_range 144 191 else if in_range 244 244 a then in_range 128 143
      else in_range 128 191)"

fun bad_length :: "string \<Rightarrow> nat" where
  "bad_length (a # b # c # _) =
     (if in_range 224 244 a \<and> second_byte a b
      then (if in_range 240 244 a \<and> in_range 128 191 c then 3 else 2) else 1)"
| "bad_length (a # b # _) = (if in_range 224 244 a \<and> second_byte a b then 2 else 1)"
| "bad_length _ = 1"

lemma bad_length_pos: "0 < bad_length s"
  by (cases s rule: bad_length.cases) auto

definition replacement_character :: string where
  "replacement_character = [CHR 0xEF, CHR 0xBF, CHR 0xBD]"

function utf8_lossy :: "string \<Rightarrow> string" where
  "utf8_lossy s =
     (if s = [] then []
      else case scalar_length s of
             None \<Rightarrow> replacement_character @ utf8_lossy (drop (bad_length s) s)
           | Some n \<Rightarrow> take n s @ utf8_lossy (drop n s))"
  by pat_completeness auto
termination
  by (relation "measure length") (auto dest: scalar_length_pos simp: bad_length_pos)

declare utf8_lossy.simps [simp del]

lemma utf8_lossy_valid_id: "valid_utf8 s \<Longrightarrow> utf8_lossy s = s"
proof (induction s rule: utf8_lossy.induct)
  case (1 s)
  show ?case
  proof (cases "s = []")
    case True
    then show ?thesis by (simp add: utf8_lossy.simps)
  next
    case False
    with "1.prems" obtain n where n: "scalar_length s = Some n" and v: "valid_utf8 (drop n s)"
      unfolding valid_utf8_def by (subst (asm) utf8_chars.simps) (auto split: option.splits)
    with False "1.IH"(2) [OF False n v] show ?thesis by (subst utf8_lossy.simps) simp
  qed
qed


section \<open>White space and lines\<close>

text \<open>\<^verbatim>\<open>char::is_whitespace\<close>: the Unicode property \<^verbatim>\<open>White_Space\<close>, as encoded scalar values.\<close>

definition is_whitespace :: "string \<Rightarrow> bool" where
  "is_whitespace c \<longleftrightarrow>
     (case map of_char c of
        [a] \<Rightarrow> 9 \<le> a \<and> a \<le> 13 \<or> a = (32 :: nat)
      | [a, b] \<Rightarrow> a = 194 \<and> (b = 133 \<or> b = 160)
      | [a, b, d] \<Rightarrow>
          a = 225 \<and> b = 154 \<and> d = 128 \<or>
          a = 226 \<and> b = 128 \<and> (128 \<le> d \<and> d \<le> 138 \<or> d = 168 \<or> d = 169 \<or> d = 175) \<or>
          a = 226 \<and> b = 129 \<and> d = 159 \<or>
          a = 227 \<and> b = 128 \<and> d = 128
      | _ \<Rightarrow> False)"

text \<open>\<^verbatim>\<open>str::trim\<close>.\<close>

definition trim :: "string \<Rightarrow> string" where
  "trim s = concat (rev (dropWhile is_whitespace (rev (dropWhile is_whitespace (chars s)))))"

text \<open>\<^verbatim>\<open>split_inclusive('\n')\<close> without the terminators: each piece, and whether it had one.\<close>

fun line_pieces :: "string \<Rightarrow> (string \<times> bool) list" where
  "line_pieces [] = []"
| "line_pieces (c # s) =
     (if c = CHR 0x0A then ([], True) # line_pieces s
      else (case line_pieces s of [] \<Rightarrow> [([c], False)] | (p, t) # ps \<Rightarrow> (c # p, t) # ps))"

text \<open>\<^verbatim>\<open>str::lines\<close>: a carriage return counts as part of the terminator only before a line feed.\<close>

definition strip_cr :: "string \<times> bool \<Rightarrow> string" where
  "strip_cr l =
     (case l of (p, terminated) \<Rightarrow>
        if terminated \<and> p \<noteq> [] \<and> last p = CHR 0x0D then butlast p else p)"

definition str_lines :: "string \<Rightarrow> string list" where
  "str_lines s = map strip_cr (line_pieces s)"

lemma line_pieces_Nil [simp]: "line_pieces s = [] \<longleftrightarrow> s = []"
  by (cases s) (auto split: list.splits)

lemma line_pieces_no_newline: "list_all (\<lambda>p. CHR 0x0A \<notin> set (fst p)) (line_pieces s)"
  by (induction s) (auto split: list.split)

lemma line_pieces_concat:
  "concat (map (\<lambda>(p, t). p @ (if t then [CHR 0x0A] else [])) (line_pieces s)) = s"
  by (induction s) (auto split: list.splits prod.splits)


section \<open>Search and replacement\<close>

text \<open>
  The pieces between the matches of a nonempty pattern, scanned from the left without overlap
  (\<^verbatim>\<open>str::split\<close>). There is one match less than there are pieces.
\<close>

function split_str :: "string \<Rightarrow> string \<Rightarrow> string list" where
  "split_str pat s =
     (if pat = [] then [s]
      else if prefix pat s then [] # split_str pat (drop (length pat) s)
      else case s of
             [] \<Rightarrow> [[]]
           | c # s' \<Rightarrow> (case split_str pat s' of [] \<Rightarrow> [[c]] | p # ps \<Rightarrow> (c # p) # ps))"
  by pat_completeness auto
termination
  by (relation "measure (length \<circ> snd)") (auto simp: prefix_def)

declare split_str.simps [simp del]

definition count_matches :: "string \<Rightarrow> string \<Rightarrow> nat" where
  "count_matches s pat = length (split_str pat s) - 1"

definition str_replace :: "string \<Rightarrow> string \<Rightarrow> string \<Rightarrow> string" where
  "str_replace s pat new = join_with new (split_str pat s)"

definition str_replace_first :: "string \<Rightarrow> string \<Rightarrow> string \<Rightarrow> string" where
  "str_replace_first s pat new =
     (case split_str pat s of
        p # q # ps \<Rightarrow> p @ new @ join_with pat (q # ps)
      | _ \<Rightarrow> s)"

lemma split_str_nonempty [simp]: "split_str pat s \<noteq> []"
  by (subst split_str.simps) (auto split: list.splits)

lemma join_with_hd: "join_with sep ((c # p) # ps) = c # join_with sep (p # ps)"
  by (cases ps) auto

lemma join_split_str: "join_with pat (split_str pat s) = s"
proof (induction pat s rule: split_str.induct)
  case (1 pat s)
  show ?case
  proof (cases "pat = []")
    case True
    then show ?thesis by (subst split_str.simps) simp
  next
    case ne: False
    show ?thesis
    proof (cases "prefix pat s")
      case True
      with 1(1) ne have "join_with pat (split_str pat (drop (length pat) s)) = drop (length pat) s" by simp
      with ne True show ?thesis
        by (subst split_str.simps) (auto simp: join_with_Cons prefix_def)
    next
      case False
      show ?thesis
      proof (cases s)
        case Nil
        then show ?thesis using ne False by (subst split_str.simps) simp
      next
        case (Cons c s')
        with 1(2) ne False have "join_with pat (split_str pat s') = s'" by simp
        with ne False Cons show ?thesis
          by (subst split_str.simps) (auto simp: join_with_hd split: list.splits)
      qed
    qed
  qed
qed

lemma split_str_hd_prefix: "split_str pat s = p # ps \<Longrightarrow> prefix p s"
  using join_split_str [of pat s] by (cases ps) auto

lemma split_str_no_match:
  "pat \<noteq> [] \<Longrightarrow> p \<in> set (split_str pat s) \<Longrightarrow> \<not> sublist pat p"
proof (induction pat s arbitrary: p rule: split_str.induct)
  case (1 pat s)
  show ?case
  proof (cases "prefix pat s")
    case True
    with 1 have "p = [] \<or> p \<in> set (split_str pat (drop (length pat) s))"
      by (subst (asm) split_str.simps) auto
    with 1 True show ?thesis by auto
  next
    case False
    show ?thesis
    proof (cases s)
      case Nil
      with 1 False have "p = []" by (subst (asm) split_str.simps) auto
      with 1 show ?thesis by auto
    next
      case (Cons c s')
      obtain q qs where q: "split_str pat s' = q # qs" by (cases "split_str pat s'") auto
      with 1 False Cons have "p = c # q \<or> p \<in> set qs" by (subst (asm) split_str.simps) auto
      moreover have "\<not> sublist pat r" if "r \<in> set (q # qs)" for r
        using 1(2) [OF 1(3) False Cons 1(3)] q that by simp
      moreover have "\<not> prefix pat (c # q)"
        using False Cons split_str_hd_prefix [OF q] prefix_order.trans by fastforce
      ultimately show ?thesis by (auto simp: sublist_Cons_right)
    qed
  qed
qed

text \<open>A single match: where it is, and what replacing it does.\<close>

lemma single_match:
  assumes "count_matches s pat = 1"
  shows "\<exists>pre post. s = pre @ pat @ post \<and> split_str pat s = [pre, post] \<and>
    str_replace_first s pat new = pre @ new @ post \<and> str_replace s pat new = pre @ new @ post"
proof -
  from assms obtain pre post where sp: "split_str pat s = [pre, post]"
    by (cases "split_str pat s"; cases "tl (split_str pat s)") (auto simp: count_matches_def)
  then show ?thesis
    using join_split_str [of pat s] by (simp add: str_replace_first_def str_replace_def)
qed

end
