(* ===== verification/FileShared.thy ===== *)
theory FileShared
  imports Text Core
begin

text \<open>
  The helpers shared by the built-in tools (\<^verbatim>\<open>executor-tools/src/shared.rs\<close>). The file system
  is outside the program: its calls are the fields of an \<open>os\<close> record, each a function that
  returns a result and the next world, so other processes may interfere at every call. The
  tools' own state, the cache of file reads they share, is part of the state they thread.
\<close>

section \<open>Argument access\<close>

definition validation_error :: "string \<Rightarrow> execution_error" where
  "validation_error message = ToolValidation [] message"

definition required_string :: "json \<Rightarrow> string \<Rightarrow> execution_error + string" where
  "required_string arguments key =
     ok_or (validation_error (''missing string `'' @ key @ ''`'')) (json_str arguments key)"

fun first_string :: "json \<Rightarrow> string list \<Rightarrow> string option" where
  "first_string arguments [] = None"
| "first_string arguments (key # keys) =
     (case json_str arguments key of Some v \<Rightarrow> Some v | None \<Rightarrow> first_string arguments keys)"

definition required_string_any :: "json \<Rightarrow> string list \<Rightarrow> execution_error + string" where
  "required_string_any arguments keys =
     ok_or (validation_error (''missing string `'' @ join_with ''` or `'' keys @ ''`''))
       (first_string arguments keys)"

definition optional_bool :: "json \<Rightarrow> string \<Rightarrow> bool \<Rightarrow> bool" where
  "optional_bool arguments key dflt =
     (case Option.bind (json_get arguments key) as_bool of Some b \<Rightarrow> b | None \<Rightarrow> dflt)"

fun optional_usize_any :: "json \<Rightarrow> string list \<Rightarrow> nat option" where
  "optional_usize_any arguments [] = None"
| "optional_usize_any arguments (key # keys) =
     (case json_u64 arguments key of
        Some n \<Rightarrow> Some (unat n)
      | None \<Rightarrow> optional_usize_any arguments keys)"

definition execution_error_of :: "string \<Rightarrow> execution_error" where
  "execution_error_of message = ToolExecution ''filesystem'' message"


section \<open>Lexical path resolution\<close>

definition normalize_step :: "path \<Rightarrow> path_component \<Rightarrow> path" where
  "normalize_step normalized component =
     (case component of
        CurDir \<Rightarrow> normalized
      | ParentDir \<Rightarrow> path_pop normalized
      | c \<Rightarrow> path_join normalized [c])"

definition normalize_path :: "path \<Rightarrow> path" where
  "normalize_path p = foldl normalize_step [] p"

definition resolve_workspace_path :: "path \<Rightarrow> string \<Rightarrow> execution_error + path" where
  "resolve_workspace_path cwd p =
     (let candidate = (if is_absolute (path_components p) then path_components p
                       else path_join cwd (path_components p));
          normalized = normalize_path candidate;
          normalized_cwd = normalize_path cwd in
      if \<not> path_starts_with normalized normalized_cwd
      then Inl (execution_error_of (''path escapes cwd: '' @ path_display candidate))
      else Inr normalized)"

definition display_relative :: "path \<Rightarrow> path \<Rightarrow> string" where
  "display_relative cwd p = path_display (case strip_prefix p cwd of Some q \<Rightarrow> q | None \<Rightarrow> p)"


section \<open>The file system and the tools' state\<close>

record fs_error =
  fe_not_found :: bool
  fe_text :: string

text \<open>
  \<open>md_modified\<close> is the modification time in nanoseconds relative to the epoch, or the error of
  \<^verbatim>\<open>Metadata::modified\<close>; \<open>'p\<close> is whatever \<^verbatim>\<open>Permissions\<close> is.
\<close>

record 'p file_metadata =
  md_len :: nat
  md_permissions :: 'p
  md_modified :: "fs_error + int"

record ('w, 'p) os =
  os_canonicalize :: "path \<Rightarrow> ('w, fs_error, path) io"
  os_metadata :: "path \<Rightarrow> ('w, fs_error, 'p file_metadata) io"
  os_read :: "path \<Rightarrow> ('w, fs_error, string) io"
  os_write :: "path \<Rightarrow> string \<Rightarrow> ('w, fs_error, unit) io"
  os_create_dir_all :: "path \<Rightarrow> ('w, fs_error, unit) io"
  os_set_permissions :: "path \<Rightarrow> 'p \<Rightarrow> ('w, fs_error, unit) io"

record file_read_record =
  fr_content :: string
  fr_timestamp_ms :: nat
  fr_is_partial_view :: bool
  fr_offset :: "nat option"
  fr_limit :: "nat option"

type_synonym file_read_state = "path \<rightharpoonup> file_read_record"

record 'w session =
  ss_world :: 'w
  ss_read_state :: file_read_state

text \<open>A file-system call from a tool, its error mapped as the call site does.\<close>

definition sys ::
  "(fs_error \<Rightarrow> 'e) \<Rightarrow> ('w, fs_error, 'a) io \<Rightarrow> ('w session, 'e, 'a) io"
where
  "sys f m s = (case m (ss_world s) of (r, w) \<Rightarrow> (map_err f r, s\<lparr>ss_world := w\<rparr>))"

text \<open>A call whose failure the code looks at itself.\<close>

definition try_sys :: "('w, fs_error, 'a) io \<Rightarrow> ('w session, 'e, fs_error + 'a) io" where
  "try_sys m s = (case m (ss_world s) of (r, w) \<Rightarrow> (Inr r, s\<lparr>ss_world := w\<rparr>))"

definition insert_read_state :: "path \<Rightarrow> file_read_record \<Rightarrow> ('w session, 'e, unit) io" where
  "insert_read_state p rec s = (Inr (), s\<lparr>ss_read_state := (ss_read_state s)(p \<mapsto> rec)\<rparr>)"

text \<open>\<^verbatim>\<open>tokio::fs::read_to_string\<close>: the bytes, which have to be UTF-8.\<close>

definition os_read_to_string :: "('w, 'p, 'x) os_scheme \<Rightarrow> path \<Rightarrow> ('w, fs_error, string) io" where
  "os_read_to_string os p =
     bindI (os_read os p) (\<lambda>bytes.
       if valid_utf8 bytes then retI bytes
       else failI \<lparr>fe_not_found = False, fe_text = ''stream did not contain valid UTF-8''\<rparr>)"


lemma sys_eq:
  "try_sys m s = (r, s') \<longleftrightarrow> (\<exists>x w. m (ss_world s) = (x, w) \<and> r = Inr x \<and> s' = s\<lparr>ss_world := w\<rparr>)"
  "sys f m s = (Inr a, s') \<longleftrightarrow> (\<exists>w. m (ss_world s) = (Inr a, w) \<and> s' = s\<lparr>ss_world := w\<rparr>)"
  "insert_read_state p rec s = (u, s') \<longleftrightarrow>
     u = Inr () \<and> s' = s\<lparr>ss_read_state := (ss_read_state s)(p \<mapsto> rec)\<rparr>"
  by (auto simp: try_sys_def sys_def insert_read_state_def result_simps split: prod.splits)


section \<open>Resolution through the file system\<close>

definition check_cwd_prefix :: "path \<Rightarrow> path \<Rightarrow> path \<Rightarrow> execution_error + path" where
  "check_cwd_prefix canonical_path canonical_cwd original =
     (if \<not> path_starts_with canonical_path canonical_cwd
      then Inl (execution_error_of
             (''path escapes cwd after following symlinks: '' @ path_display original))
      else Inr canonical_path)"

text \<open>
  The walk up to an existing ancestor. It yields the ancestor to canonicalise and the rest to
  join back on; every round removes a component of the path it looks at.
\<close>

function walk_up ::
  "('w, 'p, 'x) os_scheme \<Rightarrow> path \<Rightarrow> path \<Rightarrow> path \<Rightarrow> ('w session, execution_error, path \<times> path) io"
where
  "walk_up os cwd existing_ancestor rest =
     (case path_parent existing_ancestor of
        None \<Rightarrow> retI (cwd, rest)
      | Some parent \<Rightarrow>
          let rest' = (case file_name existing_ancestor of
                           None \<Rightarrow> rest
                         | Some name \<Rightarrow> if rest = [] then [Normal name] else path_join [Normal name] rest) in
          if parent = [] then retI (cwd, rest')
          else bindI (try_sys (os_metadata os parent)) (\<lambda>m.
                 case m of
                   Inr _ \<Rightarrow> retI (parent, rest')
                 | Inl _ \<Rightarrow> walk_up os cwd parent rest'))"
  by pat_completeness auto
termination
  by (relation "measure (\<lambda>(_, _, p, _). length p)") (auto simp: path_parent_def split: if_splits)

declare walk_up.simps [simp del]

definition canonicalize_within_cwd ::
  "('w, 'p, 'x) os_scheme \<Rightarrow> path \<Rightarrow> path \<Rightarrow> ('w session, execution_error, path) io"
where
  "canonicalize_within_cwd os cwd p =
     bindI (sys (\<lambda>e. execution_error_of (''failed to canonicalize cwd: '' @ fe_text e))
              (os_canonicalize os cwd)) (\<lambda>canonical_cwd.
     bindI (try_sys (os_canonicalize os p)) (\<lambda>r.
       case r of
         Inr canonical_path \<Rightarrow> liftE (check_cwd_prefix canonical_path canonical_cwd p)
       | Inl _ \<Rightarrow>
           bindI (walk_up os cwd p []) (\<lambda>(existing_ancestor, rest).
           bindI (sys (\<lambda>e. execution_error_of (''failed to canonicalize parent directory: '' @ fe_text e))
                    (os_canonicalize os existing_ancestor)) (\<lambda>canonical_ancestor.
             let canonical_path = (if rest = [] then canonical_ancestor
                                   else path_join canonical_ancestor rest) in
             liftE (check_cwd_prefix canonical_path canonical_cwd p)))))"

definition modified_timestamp_ms ::
  "('w, 'p, 'x) os_scheme \<Rightarrow> path \<Rightarrow> ('w session, execution_error, nat) io"
where
  "modified_timestamp_ms os p =
     bindI (sys (\<lambda>e. execution_error_of
                   (''failed to read metadata for '' @ path_display p @ '': '' @ fe_text e))
              (os_metadata os p)) (\<lambda>md.
     bindI (liftE (map_err (\<lambda>e. execution_error_of (fe_text e)) (md_modified md))) (\<lambda>ns.
       if ns < 0 then failI (execution_error_of ''second time provided was later than self'')
       else retI (nat (ns div 1000000))))"

definition ensure_file_was_read_and_unchanged ::
  "string \<Rightarrow> path \<Rightarrow> string \<Rightarrow> ('w session, execution_error, unit) io"
where
  "ensure_file_was_read_and_unchanged tool_name p current_content =
     readI (\<lambda>s.
       case ss_read_state s p of
         None \<Rightarrow> Inl (execution_error_of
           (tool_name @ '': File has not been read yet. Read it first before writing to it.''))
       | Some last_read \<Rightarrow>
           if fr_is_partial_view last_read
           then Inl (execution_error_of (tool_name @
             '': File has only been partially read. Read the full file before writing to it.''))
           else if current_content \<noteq> fr_content last_read
           then Inl (execution_error_of (tool_name @
             '': File has been modified since read, either by the user or by a linter. Read it again before attempting to write it.''))
           else Inr ())"



section \<open>Normalisation\<close>

fun is_normal :: "path_component \<Rightarrow> bool" where
  "is_normal (Normal _) = True"
| "is_normal _ = False"

text \<open>No \<^verbatim>\<open>.\<close> and no \<^verbatim>\<open>..\<close> is left, and the root only at the front.\<close>

definition lexically_normal :: "path \<Rightarrow> bool" where
  "lexically_normal p \<longleftrightarrow>
     (case p of [] \<Rightarrow> True | c # q \<Rightarrow> (c = RootDir \<or> is_normal c) \<and> list_all is_normal q)"

lemma lexically_normal_simps [simp]:
  "lexically_normal []"
  "lexically_normal (c # q) \<longleftrightarrow> (c = RootDir \<or> is_normal c) \<and> list_all is_normal q"
  by (simp_all add: lexically_normal_def)

lemma lexically_normal_butlast: "lexically_normal p \<Longrightarrow> lexically_normal (butlast p)"
  by (cases p) (auto simp: list_all_iff dest: in_set_butlastD)

lemma lexically_normal_append:
  "lexically_normal p \<Longrightarrow> is_normal c \<Longrightarrow> lexically_normal (p @ [c])"
  by (cases p) auto

lemma is_absolute_single: "is_absolute [c] \<longleftrightarrow> c = RootDir"
  by (cases c) (auto simp: is_absolute_def)

lemma normalize_step_cases:
  "normalize_step p CurDir = p" "normalize_step p RootDir = [RootDir]"
  "normalize_step p (Normal n) = p @ [Normal n]"
  "normalize_step p ParentDir = (if p = [] \<or> last p = RootDir then p else butlast p)"
  by (auto simp: normalize_step_def path_join_def is_absolute_single path_pop_def path_parent_def)

lemma normalize_step_normal: "lexically_normal p \<Longrightarrow> lexically_normal (normalize_step p c)"
  by (cases c) (auto simp: normalize_step_cases lexically_normal_butlast lexically_normal_append)

lemma foldl_normalize_normal: "lexically_normal p \<Longrightarrow> lexically_normal (foldl normalize_step p q)"
  by (induction q arbitrary: p) (simp_all add: normalize_step_normal)

lemma normalize_path_normal: "lexically_normal (normalize_path p)"
  by (simp add: normalize_path_def foldl_normalize_normal)

lemma foldl_normalize_normals: "list_all is_normal q \<Longrightarrow> foldl normalize_step p q = p @ q"
proof (induction q arbitrary: p)
  case (Cons c q)
  then show ?case by (cases c) (auto simp: normalize_step_cases)
qed simp

lemma normalize_path_id: "lexically_normal p \<Longrightarrow> normalize_path p = p"
proof (cases p)
  case (Cons c q)
  assume "lexically_normal p"
  with Cons show ?thesis
    by (cases c) (auto simp: normalize_path_def normalize_step_cases foldl_normalize_normals)
qed (simp add: normalize_path_def)

lemma normalize_step_absolute: "is_absolute p \<Longrightarrow> is_absolute (normalize_step p c)"
  by (cases c; cases p; cases "tl p")
    (auto simp: normalize_step_cases is_absolute_def split: path_component.splits)

lemma foldl_normalize_absolute: "is_absolute p \<Longrightarrow> is_absolute (foldl normalize_step p q)"
  by (induction q arbitrary: p) (simp_all add: normalize_step_absolute)

lemma normalize_path_absolute: "is_absolute p \<Longrightarrow> is_absolute (normalize_path p)"
proof (cases p)
  case (Cons c q)
  assume "is_absolute p"
  with Cons have "c = RootDir" by (auto simp: is_absolute_def split: path_component.splits)
  with Cons show ?thesis
    using foldl_normalize_absolute [of "[RootDir]"]
    by (simp add: normalize_path_def normalize_step_cases is_absolute_def)
qed (simp add: is_absolute_def)

text \<open>
  Lexical containment: a path that resolves is free of \<^verbatim>\<open>.\<close> and \<^verbatim>\<open>..\<close>, normalising it again
  changes nothing, it lies below the normalised working directory component by component, and
  it is absolute when the working directory is. Every path that does not normalise to a place
  below the working directory is refused, and every relative path made of plain names is
  accepted as that place.
\<close>

theorem resolve_workspace_path_contained:
  "(\<forall>q. resolve_workspace_path cwd p = Inr q \<longrightarrow>
      lexically_normal q \<and> normalize_path q = q \<and> prefix (normalize_path cwd) q \<and>
      (is_absolute cwd \<longrightarrow> is_absolute q)) \<and>
   (list_all is_normal (path_components p) \<longrightarrow>
      resolve_workspace_path cwd p = Inr (normalize_path cwd @ path_components p)) \<and>
   (is_absolute (path_components p) \<and> \<not> prefix (normalize_path cwd) (normalize_path (path_components p)) \<longrightarrow>
      resolve_workspace_path cwd p =
        Inl (execution_error_of (''path escapes cwd: '' @ path_display (path_components p))))"
proof (intro conjI allI impI)
  fix q assume r: "resolve_workspace_path cwd p = Inr q"
  then obtain c where c: "q = normalize_path c" "prefix (normalize_path cwd) q"
    by (auto simp: resolve_workspace_path_def Let_def path_starts_with_def split: if_splits)
  show "lexically_normal q" "prefix (normalize_path cwd) q" "normalize_path q = q"
    using c by (simp_all add: normalize_path_normal normalize_path_id)
  assume "is_absolute cwd"
  then have "is_absolute (normalize_path cwd)" by (rule normalize_path_absolute)
  with c(2) show "is_absolute q"
    by (cases "normalize_path cwd"; cases q) (auto simp: is_absolute_def split: path_component.splits)
next
  assume n: "list_all is_normal (path_components p)"
  then have "\<not> is_absolute (path_components p)"
    by (cases "path_components p") (auto simp: is_absolute_def split: path_component.splits)
  moreover have "filter (\<lambda>c. c \<noteq> CurDir) (path_components p) = path_components p"
    using n by (auto simp: filter_id_conv list_all_iff)
  ultimately have "normalize_path (if is_absolute (path_components p) then path_components p
      else path_join cwd (path_components p)) = normalize_path cwd @ path_components p"
    using n foldl_normalize_normals [OF n] by (simp add: path_join_def normalize_path_def)
  then show "resolve_workspace_path cwd p = Inr (normalize_path cwd @ path_components p)"
    by (simp add: resolve_workspace_path_def Let_def path_starts_with_def)
next
  assume "is_absolute (path_components p) \<and> \<not> prefix (normalize_path cwd) (normalize_path (path_components p))"
  then show "resolve_workspace_path cwd p =
      Inl (execution_error_of (''path escapes cwd: '' @ path_display (path_components p)))"
    by (simp add: resolve_workspace_path_def path_starts_with_def)
qed

theorem resolve_workspace_path_contained_witness:
  "resolve_workspace_path [RootDir, Normal ''ws'', CurDir] ''src/main.rs'' =
     Inr [RootDir, Normal ''ws'', Normal ''src'', Normal ''main.rs'']"
proof -
  have "path_components ''src/main.rs'' = [Normal ''src'', Normal ''main.rs'']"
    by (simp add: path_components_def inner_components_def segment_component_def)
  then show ?thesis
    using resolve_workspace_path_contained [of "[RootDir, Normal ''ws'', CurDir]" "''src/main.rs''"]
    by (simp add: normalize_path_def normalize_step_cases)
qed



section \<open>Following symbolic links\<close>

text \<open>
  A triple: started in a state satisfying \<open>I\<close>, the computation ends in one, and a value it
  returns satisfies \<open>Q\<close>.
\<close>

definition keeps :: "('s \<Rightarrow> bool) \<Rightarrow> ('s, 'e, 'a) io \<Rightarrow> ('a \<Rightarrow> bool) \<Rightarrow> bool" where
  "keeps I m Q \<longleftrightarrow>
     (\<forall>s r s'. I s \<longrightarrow> m s = (r, s') \<longrightarrow> I s' \<and> (\<forall>a. r = Inr a \<longrightarrow> Q a))"

named_theorems keeps_rules

lemma keeps_bind:
  assumes "keeps I m P" and "\<And>a. P a \<Longrightarrow> keeps I (f a) Q"
  shows "keeps I (bindI m f) Q"
  unfolding keeps_def
proof (intro allI impI)
  fix s r s'
  assume I: "I s" and b: "bindI m f s = (r, s')"
  obtain x s1 where m: "m s = (x, s1)" by (cases "m s")
  show "I s' \<and> (\<forall>a. r = Inr a \<longrightarrow> Q a)"
  proof (cases x)
    case (Inl e)
    with b m have "r = Inl e" "s' = s1" by (auto simp: bindI_def)
    with assms(1) I m show ?thesis by (auto simp: keeps_def)
  next
    case (Inr a)
    with assms(1) I m have "I s1" "P a" by (auto simp: keeps_def)
    moreover from b m Inr have "f a s1 = (r, s')" by (simp add: bindI_def)
    ultimately show ?thesis using assms(2) unfolding keeps_def by blast
  qed
qed

lemma keeps_bind_any [keeps_rules]:
  "keeps I m (\<lambda>_. True) \<Longrightarrow> (\<And>a. keeps I (f a) Q) \<Longrightarrow> keeps I (bindI m f) Q"
  by (rule keeps_bind)

lemma keeps_base [keeps_rules]:
  "keeps I (failI e) Q" "Q a \<Longrightarrow> keeps I (retI a) Q" "(\<And>a. x = Inr a \<Longrightarrow> Q a) \<Longrightarrow> keeps I (liftE x) Q"
  "keeps I (readI g) (\<lambda>_. True)"
  by (auto simp: keeps_def failI_def retI_def liftE_def readI_def)

lemma keeps_weaken: "keeps I m P \<Longrightarrow> (\<And>a. P a \<Longrightarrow> Q a) \<Longrightarrow> keeps I m Q"
  unfolding keeps_def by blast

text \<open>A file-system call keeps what is known of the world.\<close>

definition preserves :: "('w \<Rightarrow> bool) \<Rightarrow> ('w, 'e, 'a) io \<Rightarrow> bool" where
  "preserves J m \<longleftrightarrow> (\<forall>w. J w \<longrightarrow> J (snd (m w)))"

abbreviation on_world :: "('w \<Rightarrow> bool) \<Rightarrow> 'w session \<Rightarrow> bool" where
  "on_world J s \<equiv> J (ss_world s)"

lemma keeps_sys [keeps_rules]:
  "preserves J m \<Longrightarrow> keeps (on_world J) (sys f m) (\<lambda>_. True)"
  "preserves J m \<Longrightarrow> keeps (on_world J) (try_sys m) (\<lambda>_. True)"
  by (auto simp: keeps_def preserves_def sys_def try_sys_def split: prod.splits)

lemma keeps_sys_result:
  "preserves J m \<Longrightarrow> (\<And>w a w'. J w \<Longrightarrow> m w = (Inr a, w') \<Longrightarrow> Q a) \<Longrightarrow> keeps (on_world J) (sys f m) Q"
  unfolding keeps_def preserves_def sys_def
  by (auto simp: result_simps split: prod.splits)

lemma keeps_try:
  "preserves J m \<Longrightarrow> (\<And>w x w'. J w \<Longrightarrow> m w = (x, w') \<Longrightarrow> Q x) \<Longrightarrow> keeps (on_world J) (try_sys m) Q"
  unfolding keeps_def preserves_def try_sys_def by (auto split: prod.splits)

lemma keeps_insert [keeps_rules]: "keeps (on_world J) (insert_read_state p r) (\<lambda>_. True)"
  by (auto simp: keeps_def insert_read_state_def)

text \<open>
  What may be relied on of a file system with links: \<open>real p\<close> is the place the path \<open>p\<close> leads to when every link on it
  is followed, and \<open>ccwd\<close> is such a place. Looking names does not break \<open>J\<close>; what \<^verbatim>\<open>canonicalize\<close> returns is the place
  itself, and the ancestors of a place are places; the root can be looked up. Reading and changing act on the place a
  path leads to, so they do not break \<open>J\<close> when that is at or below \<open>ccwd\<close>; nor does creating a directory there, or one
  that \<open>ccwd\<close> lies in.
\<close>

definition fs_frame :: "('w, 'p, 'x) os_scheme \<Rightarrow> (path \<Rightarrow> path) \<Rightarrow> path \<Rightarrow> ('w \<Rightarrow> bool) \<Rightarrow> bool" where
  "fs_frame os real ccwd J \<longleftrightarrow>
     (\<forall>p. preserves J (os_canonicalize os p)) \<and> (\<forall>p. preserves J (os_metadata os p)) \<and>
     (\<forall>p w r w'. J w \<longrightarrow> os_canonicalize os p w = (Inr r, w') \<longrightarrow> r = real p \<and> real r = r) \<and>
     (\<forall>q. real q = q \<longrightarrow> real (butlast q) = butlast q) \<and>
     (\<forall>w. J w \<longrightarrow> (\<exists>md w'. os_metadata os [RootDir] w = (Inr md, w'))) \<and>
     (\<forall>p. prefix ccwd (real p) \<longrightarrow>
        preserves J (os_read os p) \<and> (\<forall>c. preserves J (os_write os p c)) \<and>
        (\<forall>m. preserves J (os_set_permissions os p m))) \<and>
     (\<forall>p. prefix ccwd (real p) \<or> prefix (real p) ccwd \<longrightarrow> preserves J (os_create_dir_all os p))"

text \<open>
  No link dangles: where a name cannot be looked up there is no link, so a path through it leads just where it says.
\<close>

definition no_dangling :: "('w, 'p, 'x) os_scheme \<Rightarrow> (path \<Rightarrow> path) \<Rightarrow> ('w \<Rightarrow> bool) \<Rightarrow> bool" where
  "no_dangling os real J \<longleftrightarrow>
     (\<forall>a n w e w' rest. J w \<longrightarrow>
        os_metadata os (a @ [Normal n]) w = (Inl e, w') \<or> os_canonicalize os (a @ [Normal n]) w = (Inl e, w') \<longrightarrow>
        list_all is_normal rest \<longrightarrow> real (real a @ Normal n # rest) = real a @ Normal n # rest)"

lemma preserves_read_to_string: "preserves J (os_read os p) \<Longrightarrow> preserves J (os_read_to_string os p)"
  by (auto simp: preserves_def os_read_to_string_def bindI_def retI_def failI_def
      split: prod.splits sum.splits)

lemma path_parent_shorter: "path_parent p = Some q \<Longrightarrow> q = butlast p \<and> p \<noteq> []"
  by (auto simp: path_parent_def split: if_splits)

lemma keeps_walk_up [keeps_rules]:
  assumes "\<And>p. keeps I (try_sys (os_metadata os p) :: ('w session, execution_error, _) io) (\<lambda>_. True)"
  shows "keeps I (walk_up os cwd e rest) (\<lambda>_. True)"
proof (induction e arbitrary: rest rule: rev_induct)
  case Nil
  show ?case by (subst walk_up.simps) (simp add: path_parent_def keeps_base)
next
  case (snoc c e)
  have "keeps I (case m of Inl e' \<Rightarrow> walk_up os cwd e rest' | Inr a \<Rightarrow> retI (e, rest')) (\<lambda>_. True)"
    for m rest' by (cases m) (auto simp: snoc keeps_base)
  then show ?case
    by (subst walk_up.simps) (auto simp: path_parent_def Let_def keeps_base assms intro!: keeps_rules)
qed

lemma check_cwd_prefix_Inr: "check_cwd_prefix q ccwd p = Inr r \<longleftrightarrow> r = q \<and> path_starts_with q ccwd"
  by (auto simp: check_cwd_prefix_def)

text \<open>A path that could not be looked up: what lies at or below it leads nowhere else.\<close>

definition unlinked :: "(path \<Rightarrow> path) \<Rightarrow> path \<Rightarrow> bool" where
  "unlinked real e \<longleftrightarrow>
     (\<forall>rest. list_all is_normal rest \<longrightarrow> real (real (butlast e) @ last e # rest) = real (butlast e) @ last e # rest)"

lemma path_join_normals: "list_all is_normal q \<Longrightarrow> path_join p q = p @ q"
proof -
  assume q: "list_all is_normal q"
  then have "\<not> is_absolute q" by (cases q) (auto simp: is_absolute_def split: path_component.splits)
  moreover have "filter (\<lambda>c. c \<noteq> CurDir) q = q" using q by (auto simp: filter_id_conv list_all_iff)
  ultimately show ?thesis by (simp add: path_join_def)
qed

lemma absolute_normal_snoc:
  assumes "is_absolute (e @ [c])" and "lexically_normal (e @ [c])"
  shows "e = [] \<and> c = RootDir \<or> e \<noteq> [] \<and> is_absolute e \<and> lexically_normal e \<and> (\<exists>n. c = Normal n)"
  using assms by (cases e; cases c) (auto simp: is_absolute_def)

lemma lookup_unlinked:
  assumes "no_dangling os real J" and "J w" and "is_absolute e" and "lexically_normal e" and "e \<noteq> [RootDir]"
    and "os_metadata os e w = (Inl err, w') \<or> os_canonicalize os e w = (Inl err, w')"
  shows "unlinked real e"
  using assms(3-6)
proof (cases e rule: rev_exhaust)
  case (snoc a c)
  with absolute_normal_snoc [of a c] assms(3-5) obtain n where "c = Normal n" by auto
  with snoc assms(1,2,6) show ?thesis unfolding unlinked_def no_dangling_def by (metis butlast_snoc last_snoc)
qed (simp add: is_absolute_def)

text \<open>Where the walk ends, the ancestor with the remaining names leads nowhere else.\<close>

lemma keeps_walk_up_real:
  assumes f: "fs_frame os real ccwd J" and d: "no_dangling os real J" and cwd: "real (real cwd) = real cwd"
    and "is_absolute e" and "lexically_normal e" and "list_all is_normal rest"
    and "if e = [RootDir] then rest = [] else unlinked real e"
  shows "keeps (on_world J) (walk_up os cwd e rest :: ('w session, execution_error, _) io)
    (\<lambda>(a, r). list_all is_normal r \<and> real (real a @ r) = real a @ r)"
  using assms(4-7)
proof (induction e arbitrary: rest rule: rev_induct)
  case Nil
  then show ?case by (simp add: is_absolute_def)
next
  case (snoc c e)
  show ?case
  proof (cases "e = []")
    case True
    with snoc.prems absolute_normal_snoc [of e c] show ?thesis
      by (subst walk_up.simps) (simp add: path_parent_def cwd keeps_base)
  next
    case False
    with snoc.prems absolute_normal_snoc [of e c] obtain n
      where e: "is_absolute e" "lexically_normal e" "c = Normal n" by auto
    have rest: "(if rest = [] then [Normal n] else path_join [Normal n] rest) = Normal n # rest"
      using snoc.prems(3) by (simp add: path_join_normals)
    have linked: "real (real e @ Normal n # rest) = real e @ Normal n # rest"
      using snoc.prems(3,4) e(3) False by (simp add: unlinked_def)
    have step: "walk_up os cwd (e @ [c]) rest =
        (bindI (try_sys (os_metadata os e)) (\<lambda>m. case m of
             Inr _ \<Rightarrow> retI (e, Normal n # rest) | Inl _ \<Rightarrow> walk_up os cwd e (Normal n # rest))
          :: ('w session, execution_error, _) io)"
      using False rest e(3) by (subst walk_up.simps) (simp add: path_parent_def file_name_def Let_def)
    show ?thesis
      unfolding step
    proof (rule keeps_bind [where P = "\<lambda>m. \<forall>err. m = Inl err \<longrightarrow> e \<noteq> [RootDir] \<and> unlinked real e"])
      have root: "\<exists>md w'. os_metadata os [RootDir] w = (Inr md, w')" if "J w" for w
        using f that by (simp add: fs_frame_def)
      have "e \<noteq> [RootDir] \<and> unlinked real e" if "J w" "os_metadata os e w = (Inl err, w')" for w err w'
        using lookup_unlinked [OF d that(1) e(1,2)] root [OF that(1)] that(2) by (cases "e = [RootDir]") auto
      moreover have "preserves J (os_metadata os e)" using f by (simp add: fs_frame_def)
      ultimately show "keeps (on_world J) (try_sys (os_metadata os e))
          (\<lambda>m. \<forall>err. m = Inl err \<longrightarrow> e \<noteq> [RootDir] \<and> unlinked real e)"
        by (blast intro: keeps_try)
    next
      fix m assume "\<forall>err. m = Inl err \<longrightarrow> e \<noteq> [RootDir] \<and> unlinked real e"
      then show "keeps (on_world J) (case m of Inl _ \<Rightarrow> walk_up os cwd e (Normal n # rest) | Inr _ \<Rightarrow> retI (e, Normal n # rest))
          (\<lambda>(a, r). list_all is_normal r \<and> real (real a @ r) = real a @ r)"
        using snoc.IH [OF e(1,2), of "Normal n # rest"] snoc.prems(3) linked by (cases m) (simp_all add: keeps_base)
    qed
  qed
qed

text \<open>What is accepted is a place at or below the canonical working directory.\<close>

lemma keeps_canonicalize:
  assumes f: "fs_frame os real (real cwd) J" and d: "no_dangling os real J"
    and p: "is_absolute p" "lexically_normal p"
  shows "keeps (on_world J) (canonicalize_within_cwd os cwd p) (\<lambda>q. prefix (real cwd) q \<and> real q = q)"
  unfolding canonicalize_within_cwd_def
proof (rule keeps_bind [where P = "\<lambda>r. r = real cwd \<and> real r = r"])
  have pres: "preserves J (os_canonicalize os q)" for q
    using f by (simp add: fs_frame_def)
  have place: "r = real q \<and> real r = r" if "J w" "os_canonicalize os q w = (Inr r, w')" for q w r w'
    using f that unfolding fs_frame_def by blast
  have canon: "keeps (on_world J) (sys g (os_canonicalize os q)) (\<lambda>r. r = real q \<and> real r = r)"
    for q and g :: "fs_error \<Rightarrow> execution_error"
    by (rule keeps_sys_result) (use pres place in blast)+
  show "keeps (on_world J) (sys (\<lambda>e. execution_error_of (''failed to canonicalize cwd: '' @ fe_text e))
      (os_canonicalize os cwd)) (\<lambda>r. r = real cwd \<and> real r = r)" by (rule canon)
  fix r assume r: "r = real cwd \<and> real r = r"
  show "keeps (on_world J)
      (bindI (try_sys (os_canonicalize os p)) (\<lambda>x. case x of
          Inl _ \<Rightarrow> bindI (walk_up os cwd p []) (\<lambda>(a, rest).
            bindI (sys (\<lambda>e. execution_error_of (''failed to canonicalize parent directory: '' @ fe_text e))
              (os_canonicalize os a)) (\<lambda>ca.
              let q = (if rest = [] then ca else path_join ca rest) in liftE (check_cwd_prefix q r p)))
        | Inr q \<Rightarrow> liftE (check_cwd_prefix q r p)))
      (\<lambda>q. prefix (real cwd) q \<and> real q = q)"
  proof (rule keeps_bind [where P = "\<lambda>x. case x of Inl _ \<Rightarrow> p \<noteq> [RootDir] \<longrightarrow> unlinked real p | Inr q \<Rightarrow> real q = q"])
    have "case x of Inl _ \<Rightarrow> p \<noteq> [RootDir] \<longrightarrow> unlinked real p | Inr q \<Rightarrow> real q = q"
      if "J w" "os_canonicalize os p w = (x, w')" for w x w'
      using lookup_unlinked [OF d that(1) p] place [OF that(1)] that(2) by (cases x) auto
    with pres show "keeps (on_world J) (try_sys (os_canonicalize os p))
        (\<lambda>x. case x of Inl _ \<Rightarrow> p \<noteq> [RootDir] \<longrightarrow> unlinked real p | Inr q \<Rightarrow> real q = q)"
      by (intro keeps_try)
  next
    fix x :: "fs_error + path"
    assume x: "case x of Inl _ \<Rightarrow> p \<noteq> [RootDir] \<longrightarrow> unlinked real p | Inr q \<Rightarrow> real q = q"
    show "keeps (on_world J) (case x of
          Inl _ \<Rightarrow> bindI (walk_up os cwd p []) (\<lambda>(a, rest).
            bindI (sys (\<lambda>e. execution_error_of (''failed to canonicalize parent directory: '' @ fe_text e))
              (os_canonicalize os a)) (\<lambda>ca.
              let q = (if rest = [] then ca else path_join ca rest) in liftE (check_cwd_prefix q r p)))
        | Inr q \<Rightarrow> liftE (check_cwd_prefix q r p)) (\<lambda>q. prefix (real cwd) q \<and> real q = q)"
    proof (cases x)
      case (Inr q)
      with x r show ?thesis by (auto simp: check_cwd_prefix_Inr path_starts_with_def intro!: keeps_base)
    next
      case (Inl e)
      have joined: "(if rest = [] then ca else path_join ca rest) = ca @ rest" if "list_all is_normal rest" for ca rest
        using that by (simp add: path_join_normals)
      have rejoin: "keeps (on_world J)
          (bindI (sys g (os_canonicalize os a)) (\<lambda>ca.
             let q = (if rest = [] then ca else path_join ca rest) in liftE (check_cwd_prefix q r p)))
          (\<lambda>q. prefix (real cwd) q \<and> real q = q)"
        if "list_all is_normal rest" "real (real a @ rest) = real a @ rest" for a rest and g :: "fs_error \<Rightarrow> execution_error"
        by (rule keeps_bind [OF canon])
          (use that r in \<open>auto simp: Let_def joined check_cwd_prefix_Inr path_starts_with_def intro!: keeps_base\<close>)
      have walk: "keeps (on_world J) (walk_up os cwd p []) (\<lambda>(a, r). list_all is_normal r \<and> real (real a @ r) = real a @ r)"
        by (rule keeps_walk_up_real [OF f d _ p]) (use x Inl r in auto)
      show ?thesis
        unfolding Inl sum.case
      proof (rule keeps_bind [OF walk])
        fix ar assume "case ar of (a, r) \<Rightarrow> list_all is_normal r \<and> real (real a @ r) = real a @ r"
        then show "keeps (on_world J) (case ar of (a, rest) \<Rightarrow>
            bindI (sys (\<lambda>e. execution_error_of (''failed to canonicalize parent directory: '' @ fe_text e))
              (os_canonicalize os a)) (\<lambda>ca.
              let q = (if rest = [] then ca else path_join ca rest) in liftE (check_cwd_prefix q r p)))
            (\<lambda>q. prefix (real cwd) q \<and> real q = q)"
          unfolding case_prod_beta by (intro rejoin) (simp_all add: case_prod_beta)
      qed
    qed
  qed
qed

text \<open>The file-system calls do not touch the cache of file reads.\<close>

abbreviation cache_is :: "file_read_state \<Rightarrow> 'w session \<Rightarrow> bool" where
  "cache_is R s \<equiv> ss_read_state s = R"

lemma keeps_cache_sys [keeps_rules]:
  "keeps (cache_is R) (sys f m) (\<lambda>_. True)" "keeps (cache_is R) (try_sys m) (\<lambda>_. True)"
  by (auto simp: keeps_def sys_def try_sys_def split: prod.splits)

lemma keeps_cache_canonicalize [keeps_rules]:
  "keeps (cache_is R) (canonicalize_within_cwd os cwd p) (\<lambda>_. True)"
  unfolding canonicalize_within_cwd_def
  by (auto simp: Let_def split: sum.split prod.split intro!: keeps_rules)

lemma keeps_modified [keeps_rules]:
  "(\<And>f :: fs_error \<Rightarrow> execution_error. keeps I (sys f (os_metadata os p)) (\<lambda>_. True)) \<Longrightarrow>
     keeps I (modified_timestamp_ms os p) (\<lambda>_. True)"
  unfolding modified_timestamp_ms_def by (auto intro!: keeps_rules)

lemma keepsD: "keeps I m Q \<Longrightarrow> I s \<Longrightarrow> m s = (r, s') \<Longrightarrow> I s'"
  unfolding keeps_def by blast

text \<open>How the walk splits the path it is given; it never fails and only looks at the file system.\<close>

definition walk_result_ok :: "path \<Rightarrow> path \<Rightarrow> path \<times> path \<Rightarrow> bool" where
  "walk_result_ok cwd p r \<longleftrightarrow>
     (case r of (a, rest) \<Rightarrow>
        list_all is_normal rest \<and>
        (p = a @ rest \<or> a = cwd \<and> (p = rest \<or> p = RootDir # rest)))"

lemma walk_up_result:
  assumes "lexically_normal e" and "list_all is_normal rest"
  shows "\<exists>r s'. walk_up os cwd e rest s = (Inr r, s') \<and> walk_result_ok cwd (e @ rest) r \<and>
    ss_read_state s' = ss_read_state s"
  using assms
proof (induction e arbitrary: rest s rule: rev_induct)
  case Nil
  then show ?case by (subst walk_up.simps) (simp add: path_parent_def walk_result_ok_def retI_def)
next
  case (snoc c e)
  have e: "lexically_normal e" using lexically_normal_butlast [OF snoc.prems(1)] by simp
  show ?case
  proof (cases "c = RootDir")
    case True
    with snoc.prems have "e = []" by (cases e) auto
    with True snoc.prems show ?thesis
      by (subst walk_up.simps) (simp add: path_parent_def walk_result_ok_def retI_def)
  next
    case False
    with snoc.prems obtain n where n: "c = Normal n" by (cases e; cases c) auto
    have rest: "(if rest = [] then [Normal n] else path_join [Normal n] rest) = Normal n # rest"
      using snoc.prems(2) by (simp add: path_join_normals)
    obtain m w where m: "os_metadata os e (ss_world s) = (m, w)" by (cases "os_metadata os e (ss_world s)")
    have step: "walk_up os cwd (e @ [c]) rest s =
        (if e = [] then (Inr (cwd, Normal n # rest), s)
         else case m of Inr _ \<Rightarrow> (Inr (e, Normal n # rest), s\<lparr>ss_world := w\<rparr>)
              | Inl _ \<Rightarrow> walk_up os cwd e (Normal n # rest) (s\<lparr>ss_world := w\<rparr>))"
      using rest n m
      by (subst walk_up.simps) (simp add: path_parent_def file_name_def Let_def bindI_def try_sys_def retI_def
          split: sum.split)
    have all: "list_all is_normal (Normal n # rest)" using snoc.prems(2) by simp
    have app: "(e @ [c]) @ rest = e @ (Normal n # rest)" using n by simp
    show ?thesis
      unfolding step app using snoc.IH [OF e all, of "s\<lparr>ss_world := w\<rparr>"] snoc.prems(2)
      by (cases "e = []"; cases m) (auto simp: walk_result_ok_def)
  qed
qed

text \<open>
  Containment after following symbolic links: when a lexically normal path is accepted, the
  result lies below the canonical location of the working directory. It is the canonical form
  of an ancestor of the path (the path itself when that exists) with the remaining plain names
  put back, so no \<^verbatim>\<open>..\<close> and no link can lead out of the workspace; and the walk to that
  ancestor always ends. The cache of file reads is not touched.
\<close>

theorem canonicalize_within_cwd_contained:
  assumes "lexically_normal p" and "canonicalize_within_cwd os cwd p s = (Inr q, s')"
  shows "\<exists>ccwd w a rest ca w1 w2.
    os_canonicalize os cwd (ss_world s) = (Inr ccwd, w) \<and> prefix ccwd q \<and>
    (p = a @ rest \<or> a = cwd \<and> (p = rest \<or> p = RootDir # rest)) \<and> list_all is_normal rest \<and>
    os_canonicalize os a w1 = (Inr ca, w2) \<and> q = ca @ rest \<and>
    ss_read_state s' = ss_read_state s"
proof -
  from assms(2) obtain ccwd w where
    c: "os_canonicalize os cwd (ss_world s) = (Inr ccwd, w)"
    by (auto simp: canonicalize_within_cwd_def sys_def result_simps split: prod.splits)
  let ?s = "s\<lparr>ss_world := w\<rparr>"
  obtain x w' where x: "os_canonicalize os p w = (x, w')" by (cases "os_canonicalize os p w")
  let ?s' = "?s\<lparr>ss_world := w'\<rparr>"
  show ?thesis
  proof (cases x)
    case (Inr r)
    with assms(2) c x have "q = r" "prefix ccwd q" "s' = ?s'"
      by (simp_all add: canonicalize_within_cwd_def sys_def try_sys_def bindI_def map_err_def liftE_def
          check_cwd_prefix_Inr path_starts_with_def)
    with c x Inr show ?thesis
      by (intro exI [of _ ccwd] exI [of _ w] exI [of _ p] exI [of _ "[]"] exI [of _ q] exI [of _ w] exI [of _ w'])
        simp
  next
    case (Inl e)
    obtain a rest s1 where walk: "walk_up os cwd p [] ?s' = (Inr (a, rest), s1)"
        "walk_result_ok cwd p (a, rest)" "ss_read_state s1 = ss_read_state ?s'"
      using walk_up_result [OF assms(1), of "[]" os cwd ?s'] by auto
    obtain y w2 where y: "os_canonicalize os a (ss_world s1) = (y, w2)"
      by (cases "os_canonicalize os a (ss_world s1)")
    have n: "list_all is_normal rest" using walk(2) by (simp add: walk_result_ok_def)
    have "\<exists>ca. y = Inr ca \<and> q = ca @ rest \<and> prefix ccwd q \<and> s' = s1\<lparr>ss_world := w2\<rparr>"
      using assms(2) c x Inl walk(1) y n
      by (cases y) (auto simp: canonicalize_within_cwd_def sys_def try_sys_def bindI_def map_err_def
          liftE_def check_cwd_prefix_Inr path_starts_with_def path_join_normals Let_def)
    then obtain ca where "y = Inr ca" "q = ca @ rest" "prefix ccwd q" "s' = s1\<lparr>ss_world := w2\<rparr>" by blast
    with c y n walk(2,3) show ?thesis unfolding walk_result_ok_def
      by (intro exI [of _ ccwd] exI [of _ w] exI [of _ a] exI [of _ rest] exI [of _ ca]
          exI [of _ "ss_world s1"] exI [of _ w2]) simp
  qed
qed



section \<open>A concrete file system\<close>

text \<open>
  A file system without links, as the list of its files; a directory exists when a file lies
  below it. It serves to evaluate the tools on concrete inputs.
\<close>

definition mem_missing :: fs_error where
  "mem_missing = \<lparr>fe_not_found = True, fe_text = ''No such file or directory (os error 2)''\<rparr>"

definition mem_exists :: "path \<Rightarrow> (path \<times> string) list \<Rightarrow> bool" where
  "mem_exists p w = list_ex (\<lambda>(q, _). prefix p q) w"

definition mem_os :: "((path \<times> string) list, unit) os" where
  "mem_os =
     \<lparr>os_canonicalize = (\<lambda>p w. (if mem_exists p w then Inr p else Inl mem_missing, w)),
      os_metadata = (\<lambda>p w.
        (if mem_exists p w
         then Inr \<lparr>md_len = (case map_of w p of Some c \<Rightarrow> length c | None \<Rightarrow> 0), md_permissions = (),
                   md_modified = Inr 5000000\<rparr>
         else Inl mem_missing, w)),
      os_read = (\<lambda>p w. (ok_or mem_missing (map_of w p), w)),
      os_write = (\<lambda>p c w. (Inr (), (p, c) # w)),
      os_create_dir_all = (\<lambda>p w. (Inr (), w)),
      os_set_permissions = (\<lambda>p m w. (Inr (), w))\<rparr>"

definition ws_dir :: path where
  "ws_dir = [RootDir, Normal ''ws'']"

definition ws_session :: "(path \<times> string) list session" where
  "ws_session = \<lparr>ss_world = [(ws_dir @ [Normal ''a.txt''], ''one two'')], ss_read_state = Map.empty\<rparr>"

lemmas mem_defs = mem_os_def mem_exists_def ws_dir_def ws_session_def mem_missing_def

text \<open>The same with one symbolic link, which every call follows.\<close>

definition through_link :: "path \<Rightarrow> path \<Rightarrow> path \<Rightarrow> path" where
  "through_link link target p = (if prefix link p then target @ drop (length link) p else p)"

definition link_os :: "path \<Rightarrow> path \<Rightarrow> ((path \<times> string) list, unit) os" where
  "link_os link target =
     \<lparr>os_canonicalize = (\<lambda>p. os_canonicalize mem_os (through_link link target p)),
      os_metadata = (\<lambda>p. os_metadata mem_os (through_link link target p)),
      os_read = (\<lambda>p. os_read mem_os (through_link link target p)),
      os_write = (\<lambda>p. os_write mem_os (through_link link target p)),
      os_create_dir_all = (\<lambda>p. os_create_dir_all mem_os (through_link link target p)),
      os_set_permissions = (\<lambda>p. os_set_permissions mem_os (through_link link target p))\<rparr>"

text \<open>A new file in a new directory: the walk stops at the workspace.\<close>

lemma walk_up_demo:
  "walk_up mem_os ws_dir (ws_dir @ [Normal ''d'', Normal ''n.txt'']) [] ws_session =
     (Inr (ws_dir, [Normal ''d'', Normal ''n.txt'']), ws_session)"
  by (simp add: walk_up.simps Let_def mem_defs path_parent_def file_name_def bindI_def try_sys_def retI_def
      path_join_def is_absolute_def)

lemma canonicalize_demo:
  "canonicalize_within_cwd mem_os ws_dir (ws_dir @ [Normal ''d'', Normal ''n.txt'']) ws_session =
     (Inr (ws_dir @ [Normal ''d'', Normal ''n.txt'']), ws_session)"
  using walk_up_demo
  by (simp add: canonicalize_within_cwd_def mem_defs bindI_def try_sys_def sys_def
      map_err_def liftE_def check_cwd_prefix_def path_starts_with_def path_join_def is_absolute_def Let_def)

theorem canonicalize_within_cwd_contained_witness:
  "\<exists>ccwd. prefix ccwd (ws_dir @ [Normal ''d'', Normal ''n.txt'']) \<and>
     (\<exists>w. os_canonicalize mem_os ws_dir (ss_world ws_session) = (Inr ccwd, w))"
proof -
  have "lexically_normal (ws_dir @ [Normal ''d'', Normal ''n.txt''])" by (simp add: ws_dir_def)
  from canonicalize_within_cwd_contained [OF this canonicalize_demo] show ?thesis by blast
qed

end
