(* ===== verification/FileTools.thy ===== *)
theory FileTools
  imports FileShared Scheduler
begin

text \<open>
  The tools \<^verbatim>\<open>Read\<close>, \<^verbatim>\<open>Write\<close> and \<^verbatim>\<open>Edit\<close> (\<^verbatim>\<open>executor-tools/src/file_read.rs\<close>,
  \<^verbatim>\<open>file_write.rs\<close>, \<^verbatim>\<open>file_edit.rs\<close>), each as the sequence of file-system calls and cache
  updates its \<^verbatim>\<open>invoke\<close> makes.
\<close>

section \<open>Read\<close>

definition DEFAULT_MAX_FILE_READ_BYTES :: nat where
  "DEFAULT_MAX_FILE_READ_BYTES = 50 * 1024 * 1024"

record file_read_tool =
  frt_max_file_read_bytes :: nat

definition FileReadTool_new :: file_read_tool where
  "FileReadTool_new = \<lparr>frt_max_file_read_bytes = DEFAULT_MAX_FILE_READ_BYTES\<rparr>"

definition with_max_file_read_bytes :: "nat \<Rightarrow> file_read_tool \<Rightarrow> file_read_tool" where
  "with_max_file_read_bytes n t = t\<lparr>frt_max_file_read_bytes := n\<rparr>"

definition path_keys :: "string list" where
  "path_keys = [''file_path'', ''path'']"

text \<open>\<^verbatim>\<open>invocation_detail\<close> of the three tools.\<close>

definition file_invocation_detail :: "json \<Rightarrow> string" where
  "file_invocation_detail arguments = unwrap_or [] (required_string_any arguments path_keys)"

definition friendly_file_error :: "path \<Rightarrow> path \<Rightarrow> fs_error \<Rightarrow> string" where
  "friendly_file_error cwd p err =
     (if fe_not_found err
      then ''File does not exist. Current working directory: '' @ path_display cwd @
           ''. Requested path: '' @ path_display p
      else fe_text err)"

definition read_validate :: "json \<Rightarrow> execution_error + unit" where
  "read_validate arguments = bindE (required_string_any arguments path_keys) (\<lambda>_. Inr ())"

text \<open>The numbered lines of a slice: \<^verbatim>\<open>lines().enumerate().skip(..).take(..)\<close>.\<close>

definition numbered_lines :: "string \<Rightarrow> nat \<Rightarrow> nat option \<Rightarrow> string list" where
  "numbered_lines content start_line max_lines =
     map (\<lambda>(idx, line). show_nat (idx + 1) @ '': '' @ line)
       (take (case max_lines of Some n \<Rightarrow> n | None \<Rightarrow> 2 ^ 64 - 1)
          (drop (start_line - 1) (enumerate 0 (str_lines content))))"

definition render_read :: "string \<Rightarrow> nat \<Rightarrow> nat option \<Rightarrow> string" where
  "render_read content start_line max_lines =
     (let lines = numbered_lines content start_line max_lines in
      if content = [] then
        ''<system-reminder>Warning: the file exists but the contents are empty.</system-reminder>''
      else if lines = [] then
        ''<system-reminder>Warning: the file exists but is shorter than the provided offset ('' @
        show_nat start_line @ ''). The file has '' @ show_nat (length (str_lines content)) @
        '' lines.</system-reminder>''
      else join_with [CHR 0x0A] lines)"

definition read_failure :: "string \<Rightarrow> execution_error" where
  "read_failure message = ToolExecution ''Read'' message"

text \<open>The path prologue of the three tools: resolve lexically, then through the file system.\<close>

definition tool_path ::
  "('w, 'p, 'x) os_scheme \<Rightarrow> tool_context \<Rightarrow> string \<Rightarrow> ('w session, execution_error, path) io"
where
  "tool_path os ctx input_path =
     bindI (liftE (resolve_workspace_path (tc_cwd ctx) input_path)) (\<lambda>p.
       canonicalize_within_cwd os (tc_cwd ctx) p)"

definition read_invoke ::
  "('w, 'p, 'x) os_scheme \<Rightarrow> file_read_tool \<Rightarrow> json \<Rightarrow> tool_context \<Rightarrow> ('w session, execution_error, json) io"
where
  "read_invoke os tool arguments ctx =
     bindI (liftE (required_string_any arguments path_keys)) (\<lambda>input_path.
     bindI (tool_path os ctx input_path) (\<lambda>p.
     bindI (sys (\<lambda>e. read_failure (friendly_file_error (tc_cwd ctx) p e)) (os_metadata os p)) (\<lambda>md.
     if md_len md > frt_max_file_read_bytes tool
     then failI (read_failure (''file exceeds maximum read size ('' @
            show_nat (frt_max_file_read_bytes tool) @ '' bytes): '' @ path_display p))
     else
     bindI (sys (\<lambda>e. read_failure (friendly_file_error (tc_cwd ctx) p e)) (os_read os p)) (\<lambda>bytes.
     if CHR 0x00 \<in> set bytes
     then failI (read_failure ''file appears to be binary; Read only supports UTF-8 text'')
     else if \<not> valid_utf8 bytes then failI (read_failure ''file is not valid UTF-8 text'')
     else
     bindI (modified_timestamp_ms os p) (\<lambda>timestamp_ms.
       let content = bytes;
           start_line = max 1 (case optional_usize_any arguments [''offset'', ''start_line''] of
                                 Some n \<Rightarrow> n | None \<Rightarrow> 1);
           max_lines = optional_usize_any arguments [''limit'', ''max_lines''];
           line_count = length (str_lines content);
           is_partial_view = (start_line > 1 \<or> (case max_lines of Some n \<Rightarrow> n < line_count | None \<Rightarrow> False)) in
       bindI (insert_read_state p
                \<lparr>fr_content = content, fr_timestamp_ms = timestamp_ms, fr_is_partial_view = is_partial_view,
                 fr_offset = Some start_line, fr_limit = max_lines\<rparr>) (\<lambda>_.
         retI (json_object
           [(''file_path'', JString input_path), (''path'', JString (path_display p)),
            (''content'', JString (render_read content start_line max_lines)),
            (''start_line'', json_usize start_line), (''total_lines'', json_usize line_count)])))))))"


section \<open>Write\<close>

definition WRITE_CONTENT_PREVIEW_CHARS :: nat where
  "WRITE_CONTENT_PREVIEW_CHARS = 20000"

definition content_preview :: "string \<Rightarrow> string \<times> bool" where
  "content_preview content =
     (if length (chars content) \<le> WRITE_CONTENT_PREVIEW_CHARS then (content, False)
      else (concat (take WRITE_CONTENT_PREVIEW_CHARS (chars content)), True))"

definition write_validate :: "json \<Rightarrow> execution_error + unit" where
  "write_validate arguments =
     bindE (required_string_any arguments path_keys) (\<lambda>_.
     bindE (required_string arguments ''content'') (\<lambda>_. Inr ()))"

definition tool_failure :: "string \<Rightarrow> fs_error \<Rightarrow> execution_error" where
  "tool_failure tool e = ToolExecution tool (fe_text e)"

text \<open>Creating the missing parents of a file about to be written.\<close>

definition create_parents ::
  "('w, 'p, 'x) os_scheme \<Rightarrow> string \<Rightarrow> path \<Rightarrow> ('w session, execution_error, unit) io"
where
  "create_parents os tool p =
     (case path_parent p of
        None \<Rightarrow> retI ()
      | Some parent \<Rightarrow> sys (tool_failure tool) (os_create_dir_all os parent))"

text \<open>The cache entry of a file the tools have just written.\<close>

definition written_record :: "string \<Rightarrow> nat \<Rightarrow> file_read_record" where
  "written_record content timestamp_ms =
     \<lparr>fr_content = content, fr_timestamp_ms = timestamp_ms, fr_is_partial_view = False,
      fr_offset = None, fr_limit = None\<rparr>"

definition write_invoke ::
  "('w, 'p, 'x) os_scheme \<Rightarrow> json \<Rightarrow> tool_context \<Rightarrow> ('w session, execution_error, json) io"
where
  "write_invoke os arguments ctx =
     bindI (liftE (required_string_any arguments path_keys)) (\<lambda>input_path.
     bindI (tool_path os ctx input_path) (\<lambda>p.
     bindI (liftE (required_string arguments ''content'')) (\<lambda>content.
     bindI (try_sys (os_read_to_string os p)) (\<lambda>existing.
     bindI (case existing of
              Inr existing_content \<Rightarrow> ensure_file_was_read_and_unchanged ''Write'' p existing_content
            | Inl _ \<Rightarrow> retI ()) (\<lambda>_.
     bindI (create_parents os ''Write'' p) (\<lambda>_.
     bindI (sys (tool_failure ''Write'') (os_write os p content)) (\<lambda>_.
     bindI (modified_timestamp_ms os p) (\<lambda>timestamp_ms.
     bindI (insert_read_state p (written_record content timestamp_ms)) (\<lambda>_.
       let (preview, truncated) = content_preview content in
       retI (json_object
         [(''file_path'', JString input_path), (''path'', JString (path_display p)),
          (''written'', JBool True), (''bytes'', json_usize (length content)),
          (''content_preview'', JString preview), (''content_truncated'', JBool truncated)]))))))))))"


section \<open>Edit\<close>

definition edit_failure :: "string \<Rightarrow> execution_error" where
  "edit_failure message = ToolExecution ''Edit'' message"

definition edit_validate :: "json \<Rightarrow> execution_error + unit" where
  "edit_validate arguments =
     bindE (required_string_any arguments path_keys) (\<lambda>_.
     bindE (required_string_any arguments [''old_string'', ''old'']) (\<lambda>_.
     bindE (required_string_any arguments [''new_string'', ''new'']) (\<lambda>_. Inr ())))"

text \<open>The new text, or why there is none: the part of \<^verbatim>\<open>invoke\<close> between the guard and the write.\<close>

definition apply_edit :: "string \<Rightarrow> string \<Rightarrow> string \<Rightarrow> bool \<Rightarrow> execution_error + string" where
  "apply_edit content old new replace_all =
     (let count = (if old = [] then 1 else count_matches content old) in
      if count = 0
      then Inl (edit_failure (''String to replace not found in file.'' @ [CHR 0x0A] @ ''String: '' @ old))
      else if count > 1 \<and> \<not> replace_all
      then Inl (edit_failure (''Found '' @ show_nat count @
             '' matches of the string to replace, but replace_all is false. Provide more context to uniquely identify the instance or set replace_all to true.'' @
             [CHR 0x0A] @ ''String: '' @ old))
      else Inr (if old = [] then new
                else if replace_all then str_replace content old new
                else str_replace_first content old new))"

text \<open>The text to edit: an empty old string may create the file.\<close>

definition edit_content :: "string \<Rightarrow> fs_error + string \<Rightarrow> execution_error + string" where
  "edit_content old r =
     (case r of
        Inr content \<Rightarrow> Inr content
      | Inl err \<Rightarrow>
          if fe_not_found err \<and> old = [] then Inr [] else Inl (edit_failure (fe_text err)))"

text \<open>What has to hold of the existing text before it may be changed.\<close>

definition edit_guard :: "string \<Rightarrow> path \<Rightarrow> string \<Rightarrow> ('w session, execution_error, unit) io" where
  "edit_guard old p content =
     (if old \<noteq> [] then ensure_file_was_read_and_unchanged ''Edit'' p content
      else if trim content \<noteq> [] then failI (edit_failure ''Cannot create new file - file already exists.'')
      else retI ())"

text \<open>Restoring the permissions the file had before.\<close>

definition restore_permissions ::
  "('w, 'p, 'x) os_scheme \<Rightarrow> path \<Rightarrow> fs_error + 'p file_metadata \<Rightarrow> ('w session, execution_error, unit) io"
where
  "restore_permissions os p existing_metadata =
     (case existing_metadata of
        Inl _ \<Rightarrow> retI ()
      | Inr md \<Rightarrow>
          sys (\<lambda>e. edit_failure (''failed to restore file permissions: '' @ fe_text e))
            (os_set_permissions os p (md_permissions md)))"

definition edit_invoke ::
  "('w, 'p, 'x) os_scheme \<Rightarrow> json \<Rightarrow> tool_context \<Rightarrow> ('w session, execution_error, json) io"
where
  "edit_invoke os arguments ctx =
     bindI (liftE (required_string_any arguments path_keys)) (\<lambda>input_path.
     bindI (tool_path os ctx input_path) (\<lambda>p.
     if path_extension p = Some ''ipynb''
     then failI (edit_failure ''File is a Jupyter Notebook. Use a notebook-aware edit tool instead.'')
     else
     bindI (liftE (required_string_any arguments [''old_string'', ''old''])) (\<lambda>old.
     bindI (liftE (required_string_any arguments [''new_string'', ''new''])) (\<lambda>new.
     if old = new
     then failI (edit_failure ''No changes to make: old_string and new_string are exactly the same.'')
     else
     let replace_all = optional_bool arguments ''replace_all'' False in
     bindI (try_sys (os_metadata os p)) (\<lambda>existing_metadata.
     bindI (try_sys (os_read_to_string os p)) (\<lambda>r.
     bindI (liftE (edit_content old r)) (\<lambda>content.
     bindI (edit_guard old p content) (\<lambda>_.
     bindI (liftE (apply_edit content old new replace_all)) (\<lambda>updated.
     bindI (create_parents os ''Edit'' p) (\<lambda>_.
     bindI (sys (tool_failure ''Edit'') (os_write os p updated)) (\<lambda>_.
     bindI (restore_permissions os p existing_metadata) (\<lambda>_.
     bindI (sys (tool_failure ''Edit'') (os_read_to_string os p)) (\<lambda>updated_content.
     bindI (modified_timestamp_ms os p) (\<lambda>timestamp_ms.
     bindI (insert_read_state p (written_record updated_content timestamp_ms)) (\<lambda>_.
       retI (json_object
         [(''file_path'', JString input_path), (''path'', JString (path_display p)),
          (''replaced'', JBool True), (''replace_all'', JBool replace_all)]))))))))))))))))"



section \<open>The tools stay inside the workspace\<close>

text \<open>What the prologue yields is a place below the canonical working directory.\<close>

lemma keeps_tool_path:
  assumes "fs_frame os real (real (tc_cwd ctx)) J" and "no_dangling os real J" and "is_absolute (tc_cwd ctx)"
  shows "keeps (on_world J) (tool_path os ctx p) (\<lambda>q. prefix (real (tc_cwd ctx)) q \<and> real q = q)"
  unfolding tool_path_def
proof (rule keeps_bind [where P = "\<lambda>q. is_absolute q \<and> lexically_normal q"])
  show "keeps (on_world J) (liftE (resolve_workspace_path (tc_cwd ctx) p)) (\<lambda>q. is_absolute q \<and> lexically_normal q)"
    using resolve_workspace_path_contained [of "tc_cwd ctx" p] assms(3) by (intro keeps_base(3)) blast
qed (use keeps_canonicalize [OF assms(1,2)] in blast)

lemma fs_frameD:
  assumes "fs_frame os real ccwd J"
  shows "preserves J (os_metadata os p)"
    and "prefix ccwd p \<and> real p = p \<Longrightarrow> preserves J (os_read os p)"
    and "prefix ccwd p \<and> real p = p \<Longrightarrow> preserves J (os_read_to_string os p)"
    and "prefix ccwd p \<and> real p = p \<Longrightarrow> preserves J (os_write os p c)"
    and "prefix ccwd p \<and> real p = p \<Longrightarrow> preserves J (os_set_permissions os p m)"
    and "prefix ccwd p \<and> real p = p \<Longrightarrow> path_parent p = Some q \<Longrightarrow> preserves J (os_create_dir_all os q)"
proof -
  have act: "preserves J (os_read os p) \<and> (\<forall>c. preserves J (os_write os p c)) \<and> (\<forall>m. preserves J (os_set_permissions os p m))"
    if "prefix ccwd p \<and> real p = p"
    using assms that unfolding fs_frame_def by metis
  show "preserves J (os_metadata os p)" using assms by (simp add: fs_frame_def)
  show "prefix ccwd p \<and> real p = p \<Longrightarrow> preserves J (os_read os p)"
    "prefix ccwd p \<and> real p = p \<Longrightarrow> preserves J (os_read_to_string os p)"
    "prefix ccwd p \<and> real p = p \<Longrightarrow> preserves J (os_write os p c)"
    "prefix ccwd p \<and> real p = p \<Longrightarrow> preserves J (os_set_permissions os p m)"
    using act by (auto intro: preserves_read_to_string)
  assume p: "prefix ccwd p \<and> real p = p" and "path_parent p = Some q"
  then have q: "q = butlast p" "p \<noteq> []" by (auto dest: path_parent_shorter)
  moreover from assms p q have "real q = q" by (simp add: fs_frame_def)
  moreover have "prefix ccwd q \<or> prefix q ccwd"
    using p q by (cases p rule: rev_exhaust) auto
  ultimately show "preserves J (os_create_dir_all os q)" using assms unfolding fs_frame_def by metis
qed

lemma keeps_parts [keeps_rules]:
  assumes "fs_frame os real ccwd J" and "prefix ccwd p \<and> real p = p"
  shows "keeps (on_world J) (create_parents os t p) (\<lambda>_. True)"
    and "keeps (on_world J) (restore_permissions os p md) (\<lambda>_. True)"
  using fs_frameD(5,6) [OF assms] 
  by (auto simp: create_parents_def restore_permissions_def split: option.split sum.split intro!: keeps_rules)

lemma keeps_guards [keeps_rules]:
  "keeps I (ensure_file_was_read_and_unchanged t p c) (\<lambda>_. True)"
  "keeps I (edit_guard old p c) (\<lambda>_. True)"
  by (auto simp: ensure_file_was_read_and_unchanged_def edit_guard_def intro!: keeps_rules)

lemma keeps_read_invoke:
  assumes f: "fs_frame os real (real (tc_cwd ctx)) J" and d: "no_dangling os real J" and c: "is_absolute (tc_cwd ctx)"
  shows "keeps (on_world J) (read_invoke os tool arguments ctx) (\<lambda>_. True)"
  unfolding read_invoke_def
  by (rule keeps_bind [where P = "\<lambda>_. True"], (auto intro: keeps_rules)[1],
      rule keeps_bind, rule keeps_tool_path [OF f d c])
    (auto simp: Let_def intro!: keeps_rules fs_frameD [OF f])

lemma keeps_write_invoke:
  assumes f: "fs_frame os real (real (tc_cwd ctx)) J" and d: "no_dangling os real J" and c: "is_absolute (tc_cwd ctx)"
  shows "keeps (on_world J) (write_invoke os arguments ctx) (\<lambda>_. True)"
  unfolding write_invoke_def
  by (rule keeps_bind [where P = "\<lambda>_. True"], (auto intro: keeps_rules)[1],
      rule keeps_bind, rule keeps_tool_path [OF f d c])
    (auto simp: Let_def split: sum.split prod.split intro!: keeps_rules fs_frameD [OF f] keeps_parts [OF f])

lemma keeps_edit_invoke:
  assumes f: "fs_frame os real (real (tc_cwd ctx)) J" and d: "no_dangling os real J" and c: "is_absolute (tc_cwd ctx)"
  shows "keeps (on_world J) (edit_invoke os arguments ctx) (\<lambda>_. True)"
  unfolding edit_invoke_def
  by (rule keeps_bind [where P = "\<lambda>_. True"], (auto intro: keeps_rules)[1],
      rule keeps_bind, rule keeps_tool_path [OF f d c])
    (auto simp: Let_def intro!: keeps_rules fs_frameD [OF f] keeps_parts [OF f])

text \<open>
  (C7) The three tools stay inside the workspace, links included. Let \<open>real\<close> say where paths lead to when links are followed,
  let nobody change a link meanwhile and let no link dangle. Then, whatever the arguments, and whatever else happens to the
  files, Read, Write and Edit read the contents of, write and change the permissions of files only at places at or below the place of
  the absolute working directory, and create directories only there: every property of the world
  that such calls and the looking up of names keep is kept, on success and on failure alike. A link that leads out is therefore
  never followed, nor is \<^verbatim>\<open>..\<close>.
\<close>

theorem file_tools_confined:
  assumes "fs_frame os real (real (tc_cwd ctx)) J" and "no_dangling os real J" and "is_absolute (tc_cwd ctx)"
    and "J (ss_world s)"
  shows "J (ss_world (snd (read_invoke os tool arguments ctx s))) \<and>
    J (ss_world (snd (write_invoke os arguments ctx s))) \<and>
    J (ss_world (snd (edit_invoke os arguments ctx s)))"
  using keepsD [OF keeps_read_invoke [OF assms(1-3)], of s] keepsD [OF keeps_write_invoke [OF assms(1-3)], of s]
    keepsD [OF keeps_edit_invoke [OF assms(1-3)], of s] assms(4)
  by (metis prod.collapse)


section \<open>The guard on writes\<close>

lemma keeps_cache_parts [keeps_rules]:
  "keeps (cache_is R) (tool_path os ctx input) (\<lambda>_. True)"
  "keeps (cache_is R) (create_parents os t p) (\<lambda>_. True)"
  "keeps (cache_is R) (restore_permissions os p md) (\<lambda>_. True)"
  by (auto simp: tool_path_def create_parents_def restore_permissions_def split: option.split sum.split
      intro!: keeps_rules)

lemma same_cache:
  "tool_path os ctx input s = (pr, s') \<Longrightarrow> ss_read_state s' = ss_read_state s"
  "create_parents os t p s = (ur, s') \<Longrightarrow> ss_read_state s' = ss_read_state s"
  "restore_permissions os p md s = (ur, s') \<Longrightarrow> ss_read_state s' = ss_read_state s"
  "modified_timestamp_ms os p s = (tr, s') \<Longrightarrow> ss_read_state s' = ss_read_state s"
  using keepsD [OF keeps_cache_parts(1) refl] keepsD [OF keeps_cache_parts(2) refl]
    keepsD [OF keeps_cache_parts(3) refl] keepsD [OF keeps_modified [OF keeps_cache_sys(1)] refl]
  by metis+

text \<open>The cache holds the whole current text of a file.\<close>

definition read_in_full :: "file_read_state \<Rightarrow> path \<Rightarrow> string \<Rightarrow> bool" where
  "read_in_full R p content \<longleftrightarrow>
     (\<exists>rec. R p = Some rec \<and> \<not> fr_is_partial_view rec \<and> fr_content rec = content)"

lemma ensure_iff:
  "ensure_file_was_read_and_unchanged t p content s = (Inr (), s') \<longleftrightarrow>
     s' = s \<and> read_in_full (ss_read_state s) p content"
  by (auto simp: ensure_file_was_read_and_unchanged_def readI_def read_in_full_def split: option.splits if_splits)

lemma read_in_full_written [simp]: "read_in_full (R(p \<mapsto> written_record content ts)) p content"
  by (simp add: read_in_full_def written_record_def)

text \<open>How a successful write went: the guard, the cache, and the text handed to the system.\<close>

lemma write_invoke_success:
  assumes "write_invoke os arguments ctx s = (Inr out, s')"
  shows "\<exists>input p content s1 existing w2 ts.
    required_string_any arguments path_keys = Inr input \<and> tool_path os ctx input s = (Inr p, s1) \<and>
    required_string arguments ''content'' = Inr content \<and>
    os_read_to_string os p (ss_world s1) = (existing, w2) \<and>
    (\<forall>c. existing = Inr c \<longrightarrow> read_in_full (ss_read_state s) p c) \<and>
    ss_read_state s' = (ss_read_state s)(p \<mapsto> written_record content ts)"
proof -
  from assms obtain input p content existing ts s1 w2 s2 s3 s4 w5 s5 s6 where
    steps: "required_string_any arguments path_keys = Inr input" "tool_path os ctx input s = (Inr p, s1)"
      "required_string arguments ''content'' = Inr content"
      "os_read_to_string os p (ss_world s1) = (existing, w2)" "s2 = s1\<lparr>ss_world := w2\<rparr>"
      "(case existing of Inl _ \<Rightarrow> retI () | Inr c \<Rightarrow> ensure_file_was_read_and_unchanged ''Write'' p c) s2 = (Inr (), s3)"
      "create_parents os ''Write'' p s3 = (Inr (), s4)"
      "os_write os p content (ss_world s4) = (Inr (), w5)" "s5 = s4\<lparr>ss_world := w5\<rparr>"
      "modified_timestamp_ms os p s5 = (Inr ts, s6)"
      "s' = s6\<lparr>ss_read_state := (ss_read_state s6)(p \<mapsto> written_record content ts)\<rparr>"
    by (simp add: write_invoke_def result_simps sys_eq Let_def case_prod_unfold) (elim exE conjE, rule that)
  have c1: "ss_read_state s1 = ss_read_state s" by (rule same_cache(1) [OF steps(2)])
  have c3: "s3 = s2" "\<forall>c. existing = Inr c \<longrightarrow> read_in_full (ss_read_state s2) p c"
    using steps(6) by (auto simp: ensure_iff retI_def split: sum.splits)
  have c4: "ss_read_state s4 = ss_read_state s3" by (rule same_cache(2) [OF steps(7)])
  have c6: "ss_read_state s6 = ss_read_state s5" by (rule same_cache(4) [OF steps(10)])
  have "ss_read_state s' = (ss_read_state s)(p \<mapsto> written_record content ts)"
    using steps(5,9,11) c1 c3(1) c4 c6 by simp
  moreover have "ss_read_state s2 = ss_read_state s" using steps(5) c1 by simp
  ultimately show ?thesis using steps(1-4) c3(2) by (metis (no_types))
qed

text \<open>
  (C5) Read before write: when \<^verbatim>\<open>Write\<close> succeeds on a path whose text could be read, that very
  text had been recorded for that path by a full read (or by an earlier write or edit). After
  it the cache holds the new text for the path and is otherwise unchanged, so an \<^verbatim>\<open>Edit\<close> or
  \<^verbatim>\<open>Write\<close> that finds this text there passes the guard.
\<close>

theorem write_requires_read:
  assumes "write_invoke os arguments ctx s = (Inr out, s')"
  shows "\<exists>input p content s1 existing w2 ts.
    required_string_any arguments path_keys = Inr input \<and> tool_path os ctx input s = (Inr p, s1) \<and>
    required_string arguments ''content'' = Inr content \<and>
    os_read_to_string os p (ss_world s1) = (existing, w2) \<and>
    (\<forall>c. existing = Inr c \<longrightarrow> read_in_full (ss_read_state s) p c) \<and>
    ss_read_state s' = (ss_read_state s)(p \<mapsto> written_record content ts) \<and>
    (\<forall>tool. ensure_file_was_read_and_unchanged tool p content s' = (Inr (), s'))"
  using write_invoke_success [OF assms] by (auto simp: ensure_iff)



section \<open>Editing\<close>

lemma apply_edit_pieces:
  assumes "apply_edit content old new replace_all = Inr updated" and "old \<noteq> []"
  shows "updated = join_with new (split_str old content) \<and> 2 \<le> length (split_str old content) \<and>
    (\<not> replace_all \<longrightarrow> length (split_str old content) = 2)"
proof -
  let ?ps = "split_str old content"
  from assms have n: "count_matches content old \<noteq> 0" "\<not> replace_all \<Longrightarrow> count_matches content old \<le> 1"
    and u: "updated = (if replace_all then str_replace content old new else str_replace_first content old new)"
    by (auto simp: apply_edit_def Let_def split: if_splits)
  from n have len: "2 \<le> length ?ps" "\<not> replace_all \<Longrightarrow> length ?ps = 2"
    by (auto simp: count_matches_def)
  moreover have "updated = join_with new ?ps"
  proof (cases replace_all)
    case False
    then obtain a b where "?ps = [a, b]" using len(2) by (metis length_0_conv length_Suc_conv numeral_2_eq_2)
    with u False show ?thesis by (simp add: str_replace_first_def)
  qed (simp add: u str_replace_def)
  ultimately show ?thesis by blast
qed

text \<open>
  (C12) The replacement: an edit with a nonempty old string that is accepted cuts the text at the
  occurrences of that string, none of which is left inside a piece, and puts the new string in
  their place. There is at least one occurrence, and exactly one unless all are to be replaced.
  An old string that does not occur is refused.
\<close>

theorem apply_edit_correct:
  assumes "old \<noteq> []"
  shows "(\<forall>updated. apply_edit content old new replace_all = Inr updated \<longrightarrow>
      (\<exists>pieces. content = join_with old pieces \<and> updated = join_with new pieces \<and>
         (\<forall>p \<in> set pieces. \<not> sublist old p) \<and> 2 \<le> length pieces \<and>
         (\<not> replace_all \<longrightarrow> length pieces = 2))) \<and>
    (\<not> sublist old content \<longrightarrow> (\<exists>e. apply_edit content old new replace_all = Inl e))"
proof (intro conjI allI impI)
  fix updated assume "apply_edit content old new replace_all = Inr updated"
  from apply_edit_pieces [OF this assms] show "\<exists>pieces. content = join_with old pieces \<and>
      updated = join_with new pieces \<and> (\<forall>p \<in> set pieces. \<not> sublist old p) \<and> 2 \<le> length pieces \<and>
      (\<not> replace_all \<longrightarrow> length pieces = 2)"
    using split_str_no_match [OF assms] join_split_str [of old content]
    by (intro exI [of _ "split_str old content"]) auto
next
  assume n: "\<not> sublist old content"
  have "length (split_str old content) < 2"
  proof (rule ccontr)
    assume "\<not> ?thesis"
    then obtain a b ps where "split_str old content = a # b # ps"
      by (cases "split_str old content"; cases "tl (split_str old content)") auto
    then have "content = a @ old @ join_with old (b # ps)"
      using join_split_str [of old content] by (simp add: join_with_Cons)
    with n show False by (auto simp: sublist_def)
  qed
  then have "count_matches content old = 0" by (simp add: count_matches_def)
  with assms show "\<exists>e. apply_edit content old new replace_all = Inl e" by (simp add: apply_edit_def)
qed

theorem apply_edit_correct_witness:
  "\<exists>e. apply_edit ''one two'' ''six'' ''ten'' True = Inl e"
proof -
  have "\<not> sublist ''six'' ''one two''" by (simp add: sublist_Cons_right)
  then show ?thesis using apply_edit_correct [of "''six''" "''one two''" "''ten''" True] by simp
qed

text \<open>Overlapping occurrences count once: the text has two occurrences and the edit is accepted.\<close>

lemma edit_overlapping_occurrences:
  "''aaa'' = [] @ ''aa'' @ ''a'' \<and> ''aaa'' = ''a'' @ ''aa'' @ [] \<and> apply_edit ''aaa'' ''aa'' ''b'' False = Inr ''ba''"
  by (simp add: apply_edit_def count_matches_def split_str.simps str_replace_first_def)





section \<open>Reading\<close>

lemma render_read_full:
  assumes "content \<noteq> []" and "length (str_lines content) < 2 ^ 64"
    and "case max_lines of Some n \<Rightarrow> length (str_lines content) \<le> n | None \<Rightarrow> True"
  shows "render_read content 1 max_lines =
    join_with [CHR 0x0A] (map (\<lambda>(idx, line). show_nat (idx + 1) @ '': '' @ line) (enumerate 0 (str_lines content)))"
proof -
  have "take (case max_lines of Some n \<Rightarrow> n | None \<Rightarrow> 2 ^ 64 - 1) (enumerate 0 (str_lines content)) =
      enumerate 0 (str_lines content)"
    using assms(2,3) by (cases max_lines) simp_all
  moreover have "str_lines content \<noteq> []" using assms(1) by (simp add: str_lines_def)
  ultimately show ?thesis
    using assms(1) by (simp add: render_read_def numbered_lines_def Let_def enumerate_eq_zip)
qed

text \<open>
  What \<^verbatim>\<open>Read\<close> records: a successful read found a file within the size limit, with UTF-8 text
  and no NUL byte; the cache then holds exactly that text for the path and is otherwise
  unchanged. An entry that is not marked partial means that the reply showed every line of the
  file, numbered from one, so the guard of the mutating tools lets through only files that were
  shown completely.
\<close>

theorem read_records_text:
  assumes "read_invoke os tool arguments ctx s = (Inr out, s')"
  shows "\<exists>input p s1 md w1 w2 rec.
    required_string_any arguments path_keys = Inr input \<and> tool_path os ctx input s = (Inr p, s1) \<and>
    os_metadata os p (ss_world s1) = (Inr md, w1) \<and> md_len md \<le> frt_max_file_read_bytes tool \<and>
    os_read os p w1 = (Inr (fr_content rec), w2) \<and>
    CHR 0x00 \<notin> set (fr_content rec) \<and> valid_utf8 (fr_content rec) \<and>
    ss_read_state s' = (ss_read_state s)(p \<mapsto> rec) \<and>
    (\<not> fr_is_partial_view rec \<and> fr_content rec \<noteq> [] \<and> length (str_lines (fr_content rec)) < 2 ^ 64 \<longrightarrow>
       json_str out ''content'' =
         Some (join_with [CHR 0x0A] (map (\<lambda>(idx, line). show_nat (idx + 1) @ '': '' @ line)
           (enumerate 0 (str_lines (fr_content rec))))))"
proof -
  let ?start = "max 1 (case optional_usize_any arguments [''offset'', ''start_line''] of Some n \<Rightarrow> n | None \<Rightarrow> 1)"
  let ?limit = "optional_usize_any arguments [''limit'', ''max_lines'']"
  let ?rec = "\<lambda>content ts. \<lparr>fr_content = content, fr_timestamp_ms = ts,
    fr_is_partial_view = (?start > 1 \<or> (case ?limit of Some n \<Rightarrow> n < length (str_lines content) | None \<Rightarrow> False)),
    fr_offset = Some ?start, fr_limit = ?limit\<rparr>"
  from assms obtain input p md content ts s1 w1 s2 w2 s3 s4 where
    steps: "required_string_any arguments path_keys = Inr input" "tool_path os ctx input s = (Inr p, s1)"
      "os_metadata os p (ss_world s1) = (Inr md, w1)" "s2 = s1\<lparr>ss_world := w1\<rparr>"
      "\<not> frt_max_file_read_bytes tool < md_len md" "os_read os p (ss_world s2) = (Inr content, w2)"
      "s3 = s2\<lparr>ss_world := w2\<rparr>" "CHR 0x00 \<notin> set content" "valid_utf8 content"
      "modified_timestamp_ms os p s3 = (Inr ts, s4)"
      "s' = s4\<lparr>ss_read_state := (ss_read_state s4)(p \<mapsto> ?rec content ts)\<rparr>"
      "out = json_object
           [(''file_path'', JString input), (''path'', JString (path_display p)),
            (''content'', JString (render_read content ?start ?limit)),
            (''start_line'', json_usize ?start), (''total_lines'', json_usize (length (str_lines content)))]"
    unfolding read_invoke_def Let_def result_simps sys_eq not_not by blast
  have "ss_read_state s' = (ss_read_state s)(p \<mapsto> ?rec content ts)"
    using steps(4,7,11) same_cache(1) [OF steps(2)] same_cache(4) [OF steps(10)] by simp
  moreover have "json_str out ''content'' = Some (render_read content ?start ?limit)"
    using steps(12) by simp
  moreover have "render_read content ?start ?limit = join_with [CHR 0x0A]
      (map (\<lambda>(idx, line). show_nat (idx + 1) @ '': '' @ line) (enumerate 0 (str_lines content)))"
    if "\<not> fr_is_partial_view (?rec content ts)" "content \<noteq> []" "length (str_lines content) < 2 ^ 64"
  proof -
    have "?start = 1" using that(1) by (simp split: option.splits)
    moreover have "case ?limit of Some n \<Rightarrow> length (str_lines content) \<le> n | None \<Rightarrow> True"
      using that(1) by (simp split: option.splits)
    ultimately show ?thesis using render_read_full [OF that(2,3)] by (simp only:)
  qed
  ultimately show ?thesis using steps(1-9)
    by (intro exI [of _ input] exI [of _ p] exI [of _ s1] exI [of _ md] exI [of _ w1] exI [of _ w2]
        exI [of _ "?rec content ts"]) simp
qed



section \<open>A failed call leaves the cache alone\<close>

definition errors_keep :: "file_read_state \<Rightarrow> ('w session, 'e, 'a) io \<Rightarrow> bool" where
  "errors_keep R m \<longleftrightarrow> (\<forall>s e s'. cache_is R s \<longrightarrow> m s = (Inl e, s') \<longrightarrow> cache_is R s')"

named_theorems errors_rules

lemma errors_keep_bind:
  assumes "keeps (cache_is R) m (\<lambda>_. True)" and "\<And>a. errors_keep R (f a)"
  shows "errors_keep R (bindI m f)"
  unfolding errors_keep_def
proof (intro allI impI)
  fix s e s'
  assume R: "cache_is R s" and "bindI m f s = (Inl e, s')"
  then consider "m s = (Inl e, s')" | a s1 where "m s = (Inr a, s1)" "f a s1 = (Inl e, s')"
    by (auto simp: result_simps)
  then show "cache_is R s'"
  proof cases
    case 1
    with keepsD [OF assms(1) R] show ?thesis by blast
  next
    case 2
    with keepsD [OF assms(1) R] assms(2) [of a] show ?thesis unfolding errors_keep_def by blast
  qed
qed

lemma errors_keep_base [errors_rules]:
  "errors_keep R (failI e)" "errors_keep R (retI a)"
  "errors_keep R (bindI (insert_read_state p rec) (\<lambda>_. retI a))"
  by (simp_all add: errors_keep_def failI_def retI_def bindI_def insert_read_state_def)

lemma errors_keep_if [errors_rules]:
  "errors_keep R m \<Longrightarrow> errors_keep R m' \<Longrightarrow> errors_keep R (if b then m else m')"
  by (cases b) simp_all

lemma keeps_case_sum:
  "(\<And>a. keeps I (f a) Q) \<Longrightarrow> (\<And>b. keeps I (g b) Q) \<Longrightarrow>
     keeps I (case x of Inl a \<Rightarrow> f a | Inr b \<Rightarrow> g b) Q"
  by (cases x) simp_all

text \<open>
  A call of one of the three tools that fails, for whatever reason and wherever it fails,
  leaves the cache of file reads exactly as it was: the right to write is never gained by an
  attempt that did not succeed, and never lost by one.
\<close>

theorem failed_call_keeps_cache:
  "(\<forall>e s'. read_invoke os tool arguments ctx s = (Inl e, s') \<longrightarrow> ss_read_state s' = ss_read_state s) \<and>
   (\<forall>e s'. write_invoke os arguments ctx s = (Inl e, s') \<longrightarrow> ss_read_state s' = ss_read_state s) \<and>
   (\<forall>e s'. edit_invoke os arguments ctx s = (Inl e, s') \<longrightarrow> ss_read_state s' = ss_read_state s)"
proof -
  let ?R = "ss_read_state s"
  have "errors_keep ?R (read_invoke os tool arguments ctx)"
    unfolding read_invoke_def Let_def
    by (rule errors_rules | rule errors_keep_bind | rule keeps_case_sum | rule TrueI | rule keeps_rules)+
  moreover have "errors_keep ?R (write_invoke os arguments ctx)"
    unfolding write_invoke_def Let_def case_prod_unfold
    by (rule errors_rules | rule errors_keep_bind | rule keeps_case_sum | rule TrueI | rule keeps_rules)+
  moreover have "errors_keep ?R (edit_invoke os arguments ctx)"
    unfolding edit_invoke_def Let_def
    by (rule errors_rules | rule errors_keep_bind | rule keeps_case_sum | rule TrueI | rule keeps_rules)+
  ultimately show ?thesis unfolding errors_keep_def by blast
qed


section \<open>Concrete calls\<close>

definition ws_context :: tool_context where
  "ws_context =
     tool_context_of (demo_request ''r'' ''Read'') ((ExecutorConfig_default None)\<lparr>ec_cwd := ws_dir\<rparr>)
       SubmissionControls_new None"

definition ws_read_session :: "(path \<times> string) list session" where
  "ws_read_session =
     ws_session\<lparr>ss_read_state := [ws_dir @ [Normal ''a.txt''] \<mapsto> written_record ''one two'' 5]\<rparr>"

lemma ws_context_cwd [simp]: "tc_cwd ws_context = ws_dir"
  by (simp add: ws_context_def tool_context_of_def)

lemma ws_tool_path:
  "ss_world s = [(ws_dir @ [Normal ''a.txt''], ''one two'')] \<Longrightarrow>
     tool_path mem_os ws_context ''a.txt'' s = (Inr (ws_dir @ [Normal ''a.txt'']), s)"
proof -
  assume w: "ss_world s = [(ws_dir @ [Normal ''a.txt''], ''one two'')]"
  have "path_components ''a.txt'' = [Normal ''a.txt'']"
    by (simp add: path_components_def inner_components_def segment_component_def)
  then have "resolve_workspace_path ws_dir ''a.txt'' = Inr (ws_dir @ [Normal ''a.txt''])"
    by (simp add: resolve_workspace_path_def Let_def ws_dir_def is_absolute_def path_join_def
        normalize_path_def normalize_step_cases path_starts_with_def)
  then show ?thesis
    using w by (simp add: tool_path_def canonicalize_within_cwd_def mem_os_def mem_exists_def bindI_def sys_def
        try_sys_def liftE_def map_err_def check_cwd_prefix_def path_starts_with_def)
qed

lemma ws_utf8: "valid_utf8 ''one two''"
  by (simp add: valid_utf8_def utf8_chars_ascii utf8_chars_Nil in_range_def)

lemma mem_os_calls:
  "os_metadata mem_os p w =
     (if mem_exists p w
      then Inr \<lparr>md_len = (case map_of w p of Some c \<Rightarrow> length c | None \<Rightarrow> 0), md_permissions = (),
                md_modified = Inr 5000000\<rparr>
      else Inl mem_missing, w)"
  "os_read mem_os p w = (ok_or mem_missing (map_of w p), w)"
  "os_write mem_os p c w = (Inr (), (p, c) # w)"
  "os_create_dir_all mem_os p w = (Inr (), w)"
  "os_set_permissions mem_os p m w = (Inr (), w)"
  by (simp_all add: mem_os_def)

lemmas ws_eval = bindI_def sys_def try_sys_def liftE_def retI_def map_err_def mem_os_calls mem_exists_def
  os_read_to_string_def modified_timestamp_ms_def insert_read_state_def ok_or_def ws_utf8
  required_string_any_def required_string_def path_keys_def json_str_def

lemma ws_read:
  "\<exists>out s'. read_invoke mem_os FileReadTool_new (JObject [(''file_path'', JString ''a.txt'')]) ws_context
     ws_session = (Inr out, s')"
  by (simp add: read_invoke_def ws_tool_path ws_eval Let_def ws_session_def FileReadTool_new_def
      DEFAULT_MAX_FILE_READ_BYTES_def)

theorem read_records_text_witness:
  "\<exists>p rec. ss_read_state (snd (read_invoke mem_os FileReadTool_new
     (JObject [(''file_path'', JString ''a.txt'')]) ws_context ws_session)) p = Some rec \<and> valid_utf8 (fr_content rec)"
proof -
  obtain out s' where r: "read_invoke mem_os FileReadTool_new (JObject [(''file_path'', JString ''a.txt'')])
      ws_context ws_session = (Inr out, s')" using ws_read by blast
  from read_records_text [OF r] r show ?thesis by auto
qed

lemma ws_write:
  "\<exists>out s'. write_invoke mem_os (JObject [(''content'', JString ''three''), (''file_path'', JString ''a.txt'')])
     ws_context ws_read_session = (Inr out, s')"
  by (simp add: write_invoke_def ws_tool_path ws_eval Let_def ws_read_session_def ws_session_def
      ensure_file_was_read_and_unchanged_def readI_def written_record_def create_parents_def path_parent_def
      case_prod_unfold)

theorem write_requires_read_witness:
  "\<exists>p content. read_in_full (ss_read_state (snd (write_invoke mem_os
     (JObject [(''content'', JString ''three''), (''file_path'', JString ''a.txt'')]) ws_context ws_read_session)))
     p content"
proof -
  obtain out s' where r: "write_invoke mem_os
      (JObject [(''content'', JString ''three''), (''file_path'', JString ''a.txt'')])
      ws_context ws_read_session = (Inr out, s')" using ws_write by blast
  from write_requires_read [OF r] r show ?thesis by (auto simp: ensure_iff)
qed



text \<open>
  A workspace with a link \<^verbatim>\<open>out\<close> to \<^verbatim>\<open>/etc\<close>. What is known of the files: the workspace and \<^verbatim>\<open>/etc/passwd\<close> with its text.
\<close>

definition out_link :: path where
  "out_link = ws_dir @ [Normal ''out'']"

definition etc_dir :: path where
  "etc_dir = [RootDir, Normal ''etc'']"

definition etc_intact :: "(path \<times> string) list \<Rightarrow> bool" where
  "etc_intact w \<longleftrightarrow> mem_exists ws_dir w \<and> map_of w (etc_dir @ [Normal ''passwd'']) = Some ''root''"

lemma mem_exists_prefix: "prefix p q \<Longrightarrow> mem_exists q w \<Longrightarrow> mem_exists p w"
proof -
  assume p: "prefix p q" and "mem_exists q w"
  then obtain a c where "(a, c) \<in> set w" "prefix q a" by (auto simp: mem_exists_def list_ex_iff)
  moreover from p this(2) have "prefix p a" by (rule prefix_order.trans)
  ultimately show ?thesis by (force simp: mem_exists_def list_ex_iff)
qed

lemma etc_intact_exists: "etc_intact w \<Longrightarrow> prefix p ws_dir \<or> prefix p etc_dir \<Longrightarrow> mem_exists p w"
proof -
  assume i: "etc_intact w" and p: "prefix p ws_dir \<or> prefix p etc_dir"
  from i have "mem_exists etc_dir w"
    by (auto simp: etc_intact_def mem_exists_def list_ex_iff dest!: map_of_SomeD
        intro!: bexI [of _ "(etc_dir @ [Normal ''passwd''], ''root'')"])
  moreover from i have "mem_exists ws_dir w" by (simp add: etc_intact_def)
  ultimately show ?thesis using p mem_exists_prefix by blast
qed

lemma link_os_sel [simp]:
  "os_canonicalize (link_os l t) p = os_canonicalize mem_os (through_link l t p)" "os_metadata (link_os l t) p = os_metadata mem_os (through_link l t p)"
  "os_read (link_os l t) p = os_read mem_os (through_link l t p)" "os_write (link_os l t) p = os_write mem_os (through_link l t p)"
  "os_create_dir_all (link_os l t) p = os_create_dir_all mem_os (through_link l t p)"
  "os_set_permissions (link_os l t) p = os_set_permissions mem_os (through_link l t p)"
  by (simp_all add: link_os_def)

lemma follow_out:
  "\<not> prefix out_link (etc_dir @ q)" "through_link out_link etc_dir (through_link out_link etc_dir p) = through_link out_link etc_dir p"
  "through_link out_link etc_dir p = p \<longleftrightarrow> \<not> prefix out_link p"
proof -
  show "\<not> prefix out_link (etc_dir @ q)" for q by (simp add: out_link_def ws_dir_def etc_dir_def)
  then show "through_link out_link etc_dir (through_link out_link etc_dir p) = through_link out_link etc_dir p"
    "through_link out_link etc_dir p = p \<longleftrightarrow> \<not> prefix out_link p"
    by (auto simp: through_link_def) metis
qed

lemma out_frame:
  "fs_frame (link_os out_link etc_dir) (through_link out_link etc_dir) (through_link out_link etc_dir (tc_cwd ws_context)) etc_intact"
proof -
  have ws: "through_link out_link etc_dir ws_dir = ws_dir"
    by (simp add: through_link_def out_link_def ws_dir_def)
  have writes: "etc_intact ((p, c) # w)" if "etc_intact w" "prefix ws_dir p" for w p c
    using that by (auto simp: etc_intact_def mem_exists_def ws_dir_def etc_dir_def)
  have root: "through_link out_link etc_dir [RootDir] = [RootDir]"
    by (simp add: through_link_def out_link_def ws_dir_def)
  have "mem_exists [RootDir] w" if "etc_intact w" for w
    using that by (rule etc_intact_exists) (simp add: ws_dir_def)
  moreover have "\<not> prefix out_link (through_link out_link etc_dir q)" for q
    using follow_out(2,3) by metis
  moreover have "\<not> prefix out_link (butlast q)" if "\<not> prefix out_link q" for q
    using that by (metis prefix_order.trans prefixeq_butlast)
  ultimately show ?thesis
    using writes
    by (auto simp: fs_frame_def preserves_def ws root follow_out mem_os_def split: if_splits)
qed

lemma out_resolves: "no_dangling (link_os out_link etc_dir) (through_link out_link etc_dir) etc_intact"
proof -
  have "\<not> prefix out_link (through_link out_link etc_dir a @ Normal n # rest)"
    if w: "etc_intact w" and missing: "\<not> mem_exists (through_link out_link etc_dir (a @ [Normal n])) w" for a n w rest
  proof (cases "prefix out_link a")
    case True
    then show ?thesis using follow_out(1) by (simp add: through_link_def)
  next
    case False
    show ?thesis
    proof
      assume "prefix out_link (through_link out_link etc_dir a @ Normal n # rest)"
      with False have "prefix out_link ((a @ [Normal n]) @ rest)" by (simp add: through_link_def)
      then consider "prefix out_link (a @ [Normal n])" | us where "out_link = (a @ [Normal n]) @ us"
        by (metis prefix_append)
      then have "out_link = a @ [Normal n] \<or> prefix (a @ [Normal n]) ws_dir"
      proof cases
        case 1
        with False show ?thesis by simp
      next
        case 2
        then show ?thesis by (cases us rule: rev_cases) (auto simp: out_link_def prefix_def)
      qed
      then consider "out_link = a @ [Normal n]" | "prefix (a @ [Normal n]) ws_dir" by blast
      then show False
      proof cases
        case 1
        then have "through_link out_link etc_dir (a @ [Normal n]) = etc_dir" by (simp add: through_link_def)
        with missing etc_intact_exists [OF w, of etc_dir] show ?thesis by simp
      next
        case 2
        then have "\<not> prefix out_link (a @ [Normal n])"
          by (metis prefix_length_le prefix_order.trans length_append_singleton not_less_eq_eq out_link_def)
        with missing etc_intact_exists [OF w] 2 show ?thesis by (simp add: through_link_def)
      qed
    qed
  qed
  then show ?thesis
    by (auto simp: no_dangling_def follow_out mem_os_def split: if_splits)
qed

theorem file_tools_confined_witness:
  "etc_intact (ss_world (snd (write_invoke (link_os out_link etc_dir)
     (JObject [(''content'', JString ''x''), (''file_path'', JString ''out/passwd'')]) ws_context
     (ws_session\<lparr>ss_world := (etc_dir @ [Normal ''passwd''], ''root'') # ss_world ws_session\<rparr>))))"
proof -
  have "is_absolute (tc_cwd ws_context)" by (simp add: ws_dir_def is_absolute_def)
  moreover have "etc_intact (ss_world (ws_session\<lparr>ss_world := (etc_dir @ [Normal ''passwd''], ''root'') # ss_world ws_session\<rparr>))"
    by (simp add: etc_intact_def mem_defs)
  ultimately show ?thesis
    using file_tools_confined [OF out_frame out_resolves] by blast
qed

text \<open>
  A link that dangles is not seen: where \<^verbatim>\<open>new\<close> is a link to a file of \<^verbatim>\<open>/etc\<close> that does not exist yet, the path is accepted as
  a new file of the workspace, and writing it creates the file outside.
\<close>

abbreviation dangling_os :: "((path \<times> string) list, unit) os" where
  "dangling_os \<equiv> link_os (ws_dir @ [Normal ''new'']) (etc_dir @ [Normal ''new''])"

lemma dangling_accepted: "tool_path dangling_os ws_context ''new'' ws_session = (Inr (ws_dir @ [Normal ''new'']), ws_session)"
proof -
  have "path_components ''new'' = [Normal ''new'']"
    by (simp add: path_components_def inner_components_def segment_component_def)
  then have "resolve_workspace_path ws_dir ''new'' = Inr (ws_dir @ [Normal ''new''])"
    by (simp add: resolve_workspace_path_def Let_def ws_dir_def is_absolute_def path_join_def
        normalize_path_def normalize_step_cases path_starts_with_def)
  then show ?thesis
    by (simp add: tool_path_def canonicalize_within_cwd_def walk_up.simps path_parent_def file_name_def mem_defs through_link_def
        etc_dir_def bindI_def sys_def try_sys_def liftE_def retI_def map_err_def check_cwd_prefix_def path_starts_with_def
        path_join_def is_absolute_def Let_def)
qed

lemma dangling_link_escapes:
  "map_of (ss_world (snd (write_invoke dangling_os
     (JObject [(''content'', JString ''x''), (''file_path'', JString ''new'')]) ws_context ws_session)))
     (etc_dir @ [Normal ''new'']) = Some ''x''"
  by (simp add: write_invoke_def dangling_accepted [unfolded ws_session_def ws_dir_def etc_dir_def append.simps] ws_eval Let_def ws_session_def through_link_def etc_dir_def ws_dir_def mem_missing_def
      create_parents_def path_parent_def case_prod_unfold)

lemma ws_write_unread:
  "\<exists>e s'. write_invoke mem_os (JObject [(''content'', JString ''three''), (''file_path'', JString ''a.txt'')])
     ws_context ws_session = (Inl e, s')"
  by (simp add: write_invoke_def ws_tool_path ws_eval ws_session_def
      ensure_file_was_read_and_unchanged_def readI_def)

theorem failed_call_keeps_cache_witness:
  "\<exists>e s'. write_invoke mem_os (JObject [(''content'', JString ''three''), (''file_path'', JString ''a.txt'')])
     ws_context ws_session = (Inl e, s') \<and> ss_read_state s' = Map.empty"
proof -
  obtain e s' where r: "write_invoke mem_os
      (JObject [(''content'', JString ''three''), (''file_path'', JString ''a.txt'')]) ws_context ws_session = (Inl e, s')"
    using ws_write_unread by blast
  with failed_call_keeps_cache [where os = mem_os and s = ws_session and ctx = ws_context] show ?thesis
    by (auto simp: ws_session_def)
qed

end
