(* ===== verification/Server.thy ===== *)
theory Server
  imports Scheduler
begin

text \<open>
  One connection of the daemon (\<^verbatim>\<open>wsl-executor-daemon/src/server.rs\<close>): the read loop, the task it
  spawns per accepted execution, the shared table of active executions and the queue of
  responses. The loop body is the function \<open>handle_message\<close>; the state machine interleaves it with
  the tasks' own steps. The session factory is the argument \<open>create_session\<close>. What the tool
  executor does inside a task is covered by the theories \<open>Scheduler\<close> and \<open>Batch\<close>; here a task
  observes events of its own execution and gets a result of its own execution.
\<close>

section \<open>State\<close>

record daemon_session =
  ds_runtime :: execution_runtime
  ds_tools :: "tool_descriptor list"
  ds_workspace :: path

text \<open>
  A spawned task waits for a global permit, executes (with or without one), has left the table
  of active executions with its result in hand, or is over.
\<close>

datatype task_phase = Waiting | Executing bool | Leaving execution_result | Over

record task =
  tk_request :: execution_request
  tk_timeout_ms :: "64 word option"
  tk_cancelled :: bool
  tk_phase :: task_phase

text \<open>
  \<open>Draining\<close> is the code after the loop; \<open>Stopped\<close> a normal return, \<open>Aborted\<close> the early return on
  a frame error, \<open>Crashed\<close> a failed \<^verbatim>\<open>expect\<close>.
\<close>

datatype server_mode = Serving | Draining | Stopped | Aborted frame_error | Crashed string

record server_state =
  sv_mode :: server_mode
  sv_session :: "daemon_session option"
  sv_factory :: bool
  sv_active :: "string \<rightharpoonup> nat"
  sv_tasks :: "task list"
  sv_sent :: "server_message list"
  sv_permits :: nat
  sv_elsewhere :: nat

definition serve_initial :: "nat \<Rightarrow> server_state" where
  "serve_initial permits =
     \<lparr>sv_mode = Serving, sv_session = None, sv_factory = True, sv_active = Map.empty, sv_tasks = [],
      sv_sent = [], sv_permits = permits, sv_elsewhere = 0\<rparr>"

definition respond :: "server_message \<Rightarrow> server_state \<Rightarrow> server_state" where
  "respond m s = s\<lparr>sv_sent := sv_sent s @ [m]\<rparr>"

definition send_failure :: "string option \<Rightarrow> string \<Rightarrow> string \<Rightarrow> server_state \<Rightarrow> server_state" where
  "send_failure execution_id code message s =
     respond (SM_Failed execution_id (ProtocolFailure_new code message)) s"

text \<open>\<^verbatim>\<open>WireObserver::on_event\<close>: the message for an observation; sending never fails the execution.\<close>

fun wire_message :: "execution_event \<Rightarrow> server_message" where
  "wire_message (EV_Started execution_id tool detail) = SM_Started execution_id tool detail"
| "wire_message (EV_Progress execution_id tool message data) = SM_Progress execution_id tool message data"
| "wire_message (EV_Failed execution_id _ error _ _ _) =
     SM_Failed (Some execution_id) (ProtocolFailure_new (error_code error) (error_text error))"

definition wire_observer :: observer where
  "wire_observer _ = Returned ()"

text \<open>Cancelling a token that the table of active executions holds.\<close>

definition cancel_task :: "nat \<Rightarrow> task list \<Rightarrow> task list" where
  "cancel_task n ts = (if n < length ts then ts[n := (ts ! n)\<lparr>tk_cancelled := True\<rparr>] else ts)"

text \<open>After the loop every active token is cancelled.\<close>

definition leave_loop :: "server_state \<Rightarrow> server_state" where
  "leave_loop s =
     s\<lparr>sv_mode := Draining,
       sv_tasks := map (\<lambda>(n, t). if sv_active s (er_id (tk_request t)) = Some n then t\<lparr>tk_cancelled := True\<rparr> else t)
         (enumerate 0 (sv_tasks s))\<rparr>"

definition expect_failed :: "string \<Rightarrow> server_state \<Rightarrow> server_state" where
  "expect_failed message s = s\<lparr>sv_mode := Crashed message\<rparr>"


section \<open>The read loop\<close>

definition is_hello :: "client_message \<Rightarrow> bool" where
  "is_hello m = (case m of CM_Hello _ _ _ \<Rightarrow> True | _ \<Rightarrow> False)"

definition handle_hello ::
  "(string \<Rightarrow> string \<Rightarrow> protocol_failure + daemon_session) \<Rightarrow> 32 word \<Rightarrow> string \<Rightarrow> string \<Rightarrow>
     server_state \<Rightarrow> server_state"
where
  "handle_hello create_session protocol_version token workspace s =
     (if sv_session s \<noteq> None
      then send_failure None ''duplicate_hello'' ''session is already established'' s
      else if protocol_version \<noteq> PROTOCOL_VERSION
      then leave_loop
             (send_failure None ''unsupported_protocol''
                (''host requested protocol '' @ show_nat (unat protocol_version) @ '', guest supports '' @
                 show_nat (unat PROTOCOL_VERSION)) s)
      else if \<not> sv_factory s then expect_failed ''session factory available'' s
      else
        (case create_session token workspace of
           Inr created \<Rightarrow>
             respond (SM_HelloAck PROTOCOL_VERSION (path_display (ds_workspace created)))
               (s\<lparr>sv_factory := False,
                  sv_session := Some (created\<lparr>ds_runtime := runtime_with_observer wire_observer (ds_runtime created)\<rparr>)\<rparr>)
         | Inl e \<Rightarrow> leave_loop (respond (SM_Failed None e) (s\<lparr>sv_factory := False\<rparr>))))"

definition handle_execute ::
  "execution_request \<Rightarrow> 64 word option \<Rightarrow> server_state \<Rightarrow> server_state"
where
  "handle_execute request timeout_ms s =
     (case sv_session s of
        None \<Rightarrow> expect_failed ''handshake checked'' s
      | Some _ \<Rightarrow>
          let execution_id = er_id request in
          if sv_active s execution_id \<noteq> None
          then send_failure (Some execution_id) ''duplicate_execution_id''
                 ''an execution with this id is already active'' s
          else
            respond (SM_Accepted execution_id)
              (s\<lparr>sv_active := (sv_active s)(execution_id \<mapsto> length (sv_tasks s)),
                 sv_tasks := sv_tasks s @
                   [\<lparr>tk_request = request, tk_timeout_ms = timeout_ms, tk_cancelled = False, tk_phase = Waiting\<rparr>]\<rparr>))"

definition handle_cancel :: "string \<Rightarrow> server_state \<Rightarrow> server_state" where
  "handle_cancel execution_id s =
     respond (SM_CancelAcknowledged execution_id (sv_active s execution_id \<noteq> None))
       (case sv_active s execution_id of
          None \<Rightarrow> s
        | Some n \<Rightarrow> s\<lparr>sv_tasks := cancel_task n (sv_tasks s)\<rparr>)"

definition handle_message ::
  "(string \<Rightarrow> string \<Rightarrow> protocol_failure + daemon_session) \<Rightarrow> client_message \<Rightarrow> server_state \<Rightarrow> server_state"
where
  "handle_message create_session message s =
     (if sv_session s = None \<and> \<not> is_hello message
      then send_failure None ''handshake_required'' ''hello must be the first client message'' s
      else
        (case message of
           CM_Hello v token workspace \<Rightarrow> handle_hello create_session v token workspace s
         | CM_Execute request timeout_ms \<Rightarrow> handle_execute request timeout_ms s
         | CM_Cancel execution_id \<Rightarrow> handle_cancel execution_id s
         | CM_ListTools request_id \<Rightarrow>
             (case sv_session s of
                None \<Rightarrow> expect_failed ''handshake checked'' s
              | Some session \<Rightarrow> respond (SM_Tools request_id (ds_tools session)) s)
         | CM_Shutdown \<Rightarrow> leave_loop (respond SM_ShutdownAck s)))"


section \<open>The tasks and the whole connection\<close>

text \<open>The controls a task submits its request with, at the instant it was spawned.\<close>

definition task_controls :: "instant \<Rightarrow> token \<Rightarrow> 64 word option \<Rightarrow> submission_controls" where
  "task_controls now cancellation timeout_ms =
     (let options = with_cancellation cancellation SubmissionControls_new in
      case timeout_ms of None \<Rightarrow> options | Some ms \<Rightarrow> with_timeout now (from_millis (unat ms)) options)"

definition set_phase :: "nat \<Rightarrow> task_phase \<Rightarrow> server_state \<Rightarrow> server_state" where
  "set_phase n ph s = s\<lparr>sv_tasks := (sv_tasks s)[n := (sv_tasks s ! n)\<lparr>tk_phase := ph\<rparr>]\<rparr>"

text \<open>
  Taking a global permit, or giving up on it when cancelled; the end of the execution, which
  returns the permit and clears the table entry; sending the result.
\<close>

definition start_with_permit :: "nat \<Rightarrow> server_state \<Rightarrow> server_state" where
  "start_with_permit n s = set_phase n (Executing True) (s\<lparr>sv_permits := sv_permits s - 1\<rparr>)"

definition leave_table :: "nat \<Rightarrow> bool \<Rightarrow> execution_result \<Rightarrow> server_state \<Rightarrow> server_state" where
  "leave_table n permit res s =
     set_phase n (Leaving res)
       (s\<lparr>sv_permits := sv_permits s + (if permit then 1 else 0),
          sv_active := (sv_active s)(er_id (tk_request (sv_tasks s ! n)) := None)\<rparr>)"

inductive server_step ::
  "(string \<Rightarrow> string \<Rightarrow> protocol_failure + daemon_session) \<Rightarrow> server_state \<Rightarrow> server_state \<Rightarrow> bool"
  for create_session
where
  receive: "sv_mode s = Serving \<Longrightarrow> server_step create_session s (handle_message create_session m s)"
| end_of_input: "sv_mode s = Serving \<Longrightarrow> server_step create_session s (leave_loop s)"
| input_error: "sv_mode s = Serving \<Longrightarrow> server_step create_session s (s\<lparr>sv_mode := Aborted e\<rparr>)"
| permit:
    "sv_mode s \<in> {Serving, Draining} \<Longrightarrow> n < length (sv_tasks s) \<Longrightarrow> tk_phase (sv_tasks s ! n) = Waiting \<Longrightarrow>
     0 < sv_permits s \<Longrightarrow> server_step create_session s (start_with_permit n s)"
| give_up:
    "sv_mode s \<in> {Serving, Draining} \<Longrightarrow> n < length (sv_tasks s) \<Longrightarrow> tk_phase (sv_tasks s ! n) = Waiting \<Longrightarrow>
     tk_cancelled (sv_tasks s ! n) \<Longrightarrow> server_step create_session s (set_phase n (Executing False) s)"
| observe:
    "sv_mode s \<in> {Serving, Draining} \<Longrightarrow> n < length (sv_tasks s) \<Longrightarrow> tk_phase (sv_tasks s ! n) = Executing p \<Longrightarrow>
     event_execution_id e = er_id (tk_request (sv_tasks s ! n)) \<Longrightarrow>
     server_step create_session s (respond (wire_message e) s)"
| executed:
    "sv_mode s \<in> {Serving, Draining} \<Longrightarrow> n < length (sv_tasks s) \<Longrightarrow> tk_phase (sv_tasks s ! n) = Executing p \<Longrightarrow>
     res_execution_id res = er_id (tk_request (sv_tasks s ! n)) \<Longrightarrow>
     server_step create_session s (leave_table n p res s)"
| completed:
    "sv_mode s \<in> {Serving, Draining} \<Longrightarrow> n < length (sv_tasks s) \<Longrightarrow> tk_phase (sv_tasks s ! n) = Leaving res \<Longrightarrow>
     server_step create_session s (respond (SM_Completed res) (set_phase n Over s))"
| drained:
    "sv_mode s = Draining \<Longrightarrow> \<forall>t \<in> set (sv_tasks s). tk_phase t = Over \<Longrightarrow>
     server_step create_session s (s\<lparr>sv_mode := Stopped\<rparr>)"
| taken_elsewhere:
    "0 < sv_permits s \<Longrightarrow>
     server_step create_session s (s\<lparr>sv_permits := sv_permits s - 1, sv_elsewhere := sv_elsewhere s + 1\<rparr>)"
| returned_elsewhere:
    "0 < sv_elsewhere s \<Longrightarrow>
     server_step create_session s (s\<lparr>sv_permits := sv_permits s + 1, sv_elsewhere := sv_elsewhere s - 1\<rparr>)"



section \<open>Invariants\<close>

definition task_id :: "task \<Rightarrow> string" where
  "task_id t = er_id (tk_request t)"

definition is_open :: "task \<Rightarrow> bool" where
  "is_open t = (case tk_phase t of Waiting \<Rightarrow> True | Executing _ \<Rightarrow> True | _ \<Rightarrow> False)"

definition holds_permit :: "task \<Rightarrow> bool" where
  "holds_permit t \<longleftrightarrow> tk_phase t = Executing True"

definition is_over :: "task \<Rightarrow> bool" where
  "is_over t \<longleftrightarrow> tk_phase t = Over"

text \<open>The execution ids accepted and completed so far, and the number of acknowledged hellos.\<close>

definition accepted_ids :: "server_message list \<Rightarrow> string list" where
  "accepted_ids ms = concat (map (\<lambda>m. case m of SM_Accepted i \<Rightarrow> [i] | _ \<Rightarrow> []) ms)"

definition completed_ids :: "server_message list \<Rightarrow> string list" where
  "completed_ids ms = concat (map (\<lambda>m. case m of SM_Completed r \<Rightarrow> [res_execution_id r] | _ \<Rightarrow> []) ms)"

definition hello_acks :: "server_message list \<Rightarrow> nat" where
  "hello_acks ms = length (filter (\<lambda>m. case m of SM_HelloAck _ _ \<Rightarrow> True | _ \<Rightarrow> False) ms)"

definition handshake_ok :: "server_state \<Rightarrow> bool" where
  "handshake_ok s \<longleftrightarrow>
     (\<forall>e. sv_mode s \<noteq> Crashed e) \<and> (sv_mode s = Serving \<and> sv_session s = None \<longrightarrow> sv_factory s) \<and>
     (sv_session s = None \<longrightarrow> sv_tasks s = [] \<and> (\<forall>m \<in> set (sv_sent s). \<exists>e. m = SM_Failed None e)) \<and>
     hello_acks (sv_sent s) = (if sv_session s = None then 0 else 1)"

definition table_ok :: "server_state \<Rightarrow> bool" where
  "table_ok s \<longleftrightarrow>
     (\<forall>i n. sv_active s i = Some n \<longleftrightarrow>
        n < length (sv_tasks s) \<and> task_id (sv_tasks s ! n) = i \<and> is_open (sv_tasks s ! n))"

definition replies_ok :: "server_state \<Rightarrow> bool" where
  "replies_ok s \<longleftrightarrow>
     mset (accepted_ids (sv_sent s)) = mset (map task_id (sv_tasks s)) \<and>
     mset (completed_ids (sv_sent s)) = mset (map task_id (filter is_over (sv_tasks s))) \<and>
     (\<forall>t \<in> set (sv_tasks s). \<forall>r. tk_phase t = Leaving r \<longrightarrow> res_execution_id r = task_id t)"

definition drain_ok :: "server_state \<Rightarrow> bool" where
  "drain_ok s \<longleftrightarrow>
     (sv_mode s \<in> {Draining, Stopped} \<longrightarrow> (\<forall>t \<in> set (sv_tasks s). is_open t \<longrightarrow> tk_cancelled t)) \<and>
     (sv_mode s = Stopped \<longrightarrow> (\<forall>t \<in> set (sv_tasks s). is_over t))"

definition permits_ok :: "nat \<Rightarrow> server_state \<Rightarrow> bool" where
  "permits_ok capacity s \<longleftrightarrow>
     sv_permits s + length (filter holds_permit (sv_tasks s)) + sv_elsewhere s = capacity"

text \<open>The execution a message reports on, and that it was accepted before.\<close>

fun reports_on :: "server_message \<Rightarrow> string option" where
  "reports_on (SM_Started i _ _) = Some i"
| "reports_on (SM_Progress i _ _ _) = Some i"
| "reports_on (SM_Completed r) = Some (res_execution_id r)"
| "reports_on (SM_Failed i _) = i"
| "reports_on _ = None"

definition announced :: "server_message list \<Rightarrow> bool" where
  "announced ms \<longleftrightarrow>
     (\<forall>k < length ms. \<forall>i. reports_on (ms ! k) = Some i \<longrightarrow> SM_Accepted i \<in> set (take k ms))"

lemma announced_append:
  "announced (ms @ [m]) \<longleftrightarrow> announced ms \<and> (\<forall>i. reports_on m = Some i \<longrightarrow> SM_Accepted i \<in> set ms)"
  by (auto simp: announced_def nth_append less_Suc_eq)

lemma sent_simps [simp]:
  "accepted_ids [] = []" "completed_ids [] = []" "hello_acks [] = 0"
  "accepted_ids (ms @ [m]) = accepted_ids ms @ (case m of SM_Accepted i \<Rightarrow> [i] | _ \<Rightarrow> [])"
  "completed_ids (ms @ [m]) = completed_ids ms @ (case m of SM_Completed r \<Rightarrow> [res_execution_id r] | _ \<Rightarrow> [])"
  "hello_acks (ms @ [m]) = hello_acks ms + (case m of SM_HelloAck _ _ \<Rightarrow> 1 | _ \<Rightarrow> 0)"
  by (auto simp: accepted_ids_def completed_ids_def hello_acks_def split: server_message.split)

lemma accepted_ids_iff: "i \<in> set (accepted_ids ms) \<longleftrightarrow> SM_Accepted i \<in> set ms"
  by (induction ms) (auto simp: accepted_ids_def split: server_message.splits)

lemmas server_defs = respond_def send_failure_def leave_loop_def expect_failed_def handle_hello_def
  handle_execute_def handle_cancel_def handle_message_def set_phase_def start_with_permit_def leave_table_def
  cancel_task_def

text \<open>What handling a message can do, for the proofs about every step.\<close>

lemma handle_message_cases [case_names fails breaks welcomes accepts cancels lists crashes]:
  obtains i e where "handle_message cs m s = respond (SM_Failed i e) s"
      "i = None \<or> (\<exists>r t n. m = CM_Execute r t \<and> i = Some (er_id r) \<and> sv_session s \<noteq> None \<and>
         sv_active s (er_id r) = Some n)"
  | x f where "handle_message cs m s = leave_loop (respond x (s\<lparr>sv_factory := f\<rparr>))"
      "(sv_session s = None \<longrightarrow> (\<exists>e. x = SM_Failed None e)) \<and> (x = SM_ShutdownAck \<or> (\<exists>e. x = SM_Failed None e))"
  | v w ds where "handle_message cs m s = respond (SM_HelloAck v w) (s\<lparr>sv_factory := False, sv_session := Some ds\<rparr>)"
      "sv_session s = None" "v = PROTOCOL_VERSION"
  | r t ds where "handle_message cs m s = respond (SM_Accepted (er_id r))
        (s\<lparr>sv_active := (sv_active s)(er_id r \<mapsto> length (sv_tasks s)),
           sv_tasks := sv_tasks s @
             [\<lparr>tk_request = r, tk_timeout_ms = t, tk_cancelled = False, tk_phase = Waiting\<rparr>]\<rparr>)"
      "sv_session s = Some ds" "sv_active s (er_id r) = None"
  | i where "m = CM_Cancel i" "handle_message cs m s = handle_cancel i s" "sv_session s \<noteq> None"
  | r ds where "handle_message cs m s = respond (SM_Tools r (ds_tools ds)) s" "sv_session s = Some ds"
  | x where "handle_message cs m s = expect_failed x s" "sv_session s = None" "\<not> sv_factory s"
proof (cases m)
  case (CM_Hello v tok w)
  show ?thesis
  proof (cases "sv_session s = None \<and> v \<noteq> PROTOCOL_VERSION")
    case True
    with CM_Hello show ?thesis
      by (intro that(2) [of _ "sv_factory s"])
        (auto simp: handle_message_def is_hello_def handle_hello_def send_failure_def)
  next
    case False
    with CM_Hello show ?thesis
      by (cases "sv_session s = None"; cases "sv_factory s"; cases "cs tok w")
        (auto simp: handle_message_def is_hello_def handle_hello_def send_failure_def
          intro: that(1) that(2) that(3) that(7))
  qed
next
  case (CM_Execute r t)
  then show ?thesis
    by (cases "sv_session s"; cases "sv_active s (er_id r)")
      (auto simp: handle_message_def is_hello_def handle_execute_def send_failure_def Let_def
        intro: that(1) that(4))
next
  case (CM_Cancel i)
  then show ?thesis
    by (cases "sv_session s") (auto simp: handle_message_def is_hello_def send_failure_def intro: that(1) that(5))
next
  case (CM_ListTools r)
  then show ?thesis
    by (cases "sv_session s") (auto simp: handle_message_def is_hello_def send_failure_def intro: that(1) that(6))
next
  case CM_Shutdown
  then show ?thesis
    by (cases "sv_session s")
      (auto simp: handle_message_def is_hello_def send_failure_def
        intro: that(1) that(2) [of _ "sv_factory s"])
qed



section \<open>Every step keeps the invariants\<close>

lemma mset_filter_update:
  assumes "n < length ts"
  shows "mset (filter P (ts[n := t])) =
    (mset (filter P ts) - (if P (ts ! n) then {#ts ! n#} else {#})) + (if P t then {#t#} else {#})"
proof -
  have "ts ! n \<in># mset ts" using assms by simp
  then have "filter_mset P (mset ts - {#ts ! n#}) = filter_mset P (mset ts) - (if P (ts ! n) then {#ts ! n#} else {#})"
    by (auto simp: multiset_eq_iff)
  with assms show ?thesis by (simp add: mset_update)
qed

lemma length_filter_update:
  "n < length ts \<Longrightarrow>
     length (filter P (ts[n := t])) + (if P (ts ! n) then 1 else 0) =
     length (filter P ts) + (if P t then 1 else 0)"
proof (induction ts arbitrary: n)
  case (Cons x ts)
  then show ?case by (cases n) auto
qed simp

lemma task_view_simps [simp]:
  "task_id (t\<lparr>tk_phase := ph\<rparr>) = task_id t" "task_id (t\<lparr>tk_cancelled := c\<rparr>) = task_id t"
  "is_open (t\<lparr>tk_cancelled := c\<rparr>) = is_open t" "is_over (t\<lparr>tk_cancelled := c\<rparr>) = is_over t"
  "holds_permit (t\<lparr>tk_cancelled := c\<rparr>) = holds_permit t"
  "is_over (t\<lparr>tk_phase := ph\<rparr>) \<longleftrightarrow> ph = Over" "holds_permit (t\<lparr>tk_phase := ph\<rparr>) \<longleftrightarrow> ph = Executing True"
  "is_open (t\<lparr>tk_phase := ph\<rparr>) \<longleftrightarrow> ph = Waiting \<or> (\<exists>p. ph = Executing p)"
  by (auto simp: task_id_def is_open_def is_over_def holds_permit_def split: task_phase.splits)

text \<open>Lists of tasks that differ in their cancellation only.\<close>

definition cancel_only :: "task list \<Rightarrow> task list \<Rightarrow> bool" where
  "cancel_only ts ts' \<longleftrightarrow> list_all2 (\<lambda>a b. b = a \<or> b = a\<lparr>tk_cancelled := True\<rparr>) ts ts'"

lemma cancel_only_views:
  assumes "cancel_only ts ts'"
  shows "map task_id ts' = map task_id ts" "map task_id (filter is_over ts') = map task_id (filter is_over ts)"
    "length (filter holds_permit ts') = length (filter holds_permit ts)" "length ts' = length ts"
    "n < length ts \<Longrightarrow> task_id (ts' ! n) = task_id (ts ! n) \<and> is_open (ts' ! n) = is_open (ts ! n) \<and>
       tk_phase (ts' ! n) = tk_phase (ts ! n) \<and> (tk_cancelled (ts ! n) \<longrightarrow> tk_cancelled (ts' ! n))"
  using assms unfolding cancel_only_def
  by (induction arbitrary: n rule: list_all2_induct) (auto simp: nth_Cons split: nat.splits)

lemma cancel_only_leave_loop: "cancel_only (sv_tasks s) (sv_tasks (leave_loop s))"
  by (auto simp: cancel_only_def leave_loop_def list_all2_conv_all_nth nth_enumerate_eq)

lemma cancel_only_cancel_task: "cancel_only ts (cancel_task n ts)"
  by (auto simp: cancel_only_def cancel_task_def list_all2_conv_all_nth nth_list_update)

lemma handle_cancel_simps [simp]:
  "sv_mode (handle_cancel i s) = sv_mode s" "sv_session (handle_cancel i s) = sv_session s"
  "sv_factory (handle_cancel i s) = sv_factory s" "sv_active (handle_cancel i s) = sv_active s"
  "sv_permits (handle_cancel i s) = sv_permits s" "sv_elsewhere (handle_cancel i s) = sv_elsewhere s"
  "sv_sent (handle_cancel i s) = sv_sent s @ [SM_CancelAcknowledged i (sv_active s i \<noteq> None)]"
  "cancel_only (sv_tasks s) (sv_tasks (handle_cancel i s))"
  by (auto simp: handle_cancel_def respond_def cancel_only_cancel_task split: option.splits)
    (simp add: cancel_only_def list_all2_refl)

lemma leave_loop_simps [simp]:
  "sv_mode (leave_loop s) = Draining" "sv_session (leave_loop s) = sv_session s"
  "sv_factory (leave_loop s) = sv_factory s" "sv_active (leave_loop s) = sv_active s"
  "sv_permits (leave_loop s) = sv_permits s" "sv_elsewhere (leave_loop s) = sv_elsewhere s"
  "sv_sent (leave_loop s) = sv_sent s"
  by (simp_all add: leave_loop_def)

lemma respond_simps [simp]:
  "sv_mode (respond m s) = sv_mode s" "sv_session (respond m s) = sv_session s"
  "sv_factory (respond m s) = sv_factory s" "sv_active (respond m s) = sv_active s"
  "sv_permits (respond m s) = sv_permits s" "sv_elsewhere (respond m s) = sv_elsewhere s"
  "sv_tasks (respond m s) = sv_tasks s" "sv_sent (respond m s) = sv_sent s @ [m]"
  by (simp_all add: respond_def)

lemma leave_loop_tasks_Nil [simp]: "sv_tasks (leave_loop s) = [] \<longleftrightarrow> sv_tasks s = []"
  using cancel_only_views(4) [OF cancel_only_leave_loop, of s] by (metis length_0_conv)

lemma wire_message_not_control [simp]:
  "(case wire_message e of SM_Accepted i \<Rightarrow> [i] | _ \<Rightarrow> []) = []"
  "(case wire_message e of SM_Completed r \<Rightarrow> [res_execution_id r] | _ \<Rightarrow> []) = []"
  "(case wire_message e of SM_HelloAck _ _ \<Rightarrow> (1::nat) | _ \<Rightarrow> 0) = 0"
  "reports_on (wire_message e) = Some (event_execution_id e)"
  by (cases e; simp)+

lemma handshake_ok_step:
  assumes "server_step cs s s'" and ok: "handshake_ok s"
  shows "handshake_ok s'"
  using assms(1)
proof (cases rule: server_step.cases)
  case (receive m)
  note ok' = ok [unfolded handshake_ok_def]
  show ?thesis
  proof (cases cs m s rule: handle_message_cases)
    case (breaks x f)
    with receive ok' show ?thesis by (auto simp: handshake_ok_def)
  next
    case (cancels i)
    with receive ok' show ?thesis by (auto simp: handshake_ok_def)
  qed (use receive ok' in \<open>auto simp: handshake_ok_def\<close>)
qed (use ok in \<open>auto simp: handshake_ok_def set_phase_def start_with_permit_def leave_table_def\<close>)

lemma cancel_only_table:
  assumes "cancel_only (sv_tasks s) (sv_tasks s')" and "sv_active s' = sv_active s"
  shows "table_ok s' \<longleftrightarrow> table_ok s"
proof -
  note v = cancel_only_views(4,5) [OF assms(1)]
  have "n < length (sv_tasks s') \<and> task_id (sv_tasks s' ! n) = i \<and> is_open (sv_tasks s' ! n) \<longleftrightarrow>
      n < length (sv_tasks s) \<and> task_id (sv_tasks s ! n) = i \<and> is_open (sv_tasks s ! n)" for i n
    using v by (cases "n < length (sv_tasks s)") auto
  then show ?thesis by (simp add: table_ok_def assms(2))
qed

lemma table_ok_cong:
  "sv_tasks s' = sv_tasks s \<Longrightarrow> sv_active s' = sv_active s \<Longrightarrow> table_ok s' = table_ok s"
  by (simp add: table_ok_def)

text \<open>Moving a task from one phase to another that is as open as the first.\<close>

lemma table_ok_set_phase:
  assumes "table_ok s" and "n < length (sv_tasks s)"
    and "is_open ((sv_tasks s ! n)\<lparr>tk_phase := ph\<rparr>) = is_open (sv_tasks s ! n)"
  shows "table_ok (set_phase n ph s)"
  using assms by (auto simp: table_ok_def set_phase_def nth_list_update simp del: task_view_simps(8))

lemma table_ok_step:
  assumes "server_step cs s s'" and ok: "table_ok s"
  shows "table_ok s'"
  using assms(1)
proof (cases rule: server_step.cases)
  case (receive m)
  show ?thesis
  proof (cases cs m s rule: handle_message_cases)
    case (accepts r t ds)
    let ?t = "\<lparr>tk_request = r, tk_timeout_ms = t, tk_cancelled = False, tk_phase = Waiting\<rparr>"
    have new: "task_id ?t = er_id r" "is_open ?t" by (simp_all add: task_id_def is_open_def)
    have "\<not> (n < length (sv_tasks s) \<and> task_id (sv_tasks s ! n) = er_id r \<and> is_open (sv_tasks s ! n))" for n
      using ok accepts(3) unfolding table_ok_def by (metis option.distinct(1))
    with ok new show ?thesis
      by (auto simp: receive accepts table_ok_def nth_append less_Suc_eq)
  next
    case (breaks x f)
    then show ?thesis
      using cancel_only_leave_loop [of "respond x (s\<lparr>sv_factory := f\<rparr>)"] ok
      by (subst cancel_only_table [of s]) (simp_all add: receive)
  next
    case (cancels i)
    then show ?thesis using ok by (subst cancel_only_table [of s]) (simp_all add: receive)
  next
    case (crashes x)
    then show ?thesis using ok by (subst table_ok_cong [of _ s]) (simp_all add: receive expect_failed_def)
  qed (use ok in \<open>(subst table_ok_cong [of _ s]; simp add: receive)+\<close>)
next
  case end_of_input
  then show ?thesis using ok cancel_only_leave_loop [of s] by (subst cancel_only_table [of s]) simp_all
next
  case (permit n)
  then have "table_ok (set_phase n (Executing True) s)"
    using ok by (intro table_ok_set_phase) (auto simp: is_open_def)
  then show ?thesis by (simp add: permit(1) start_with_permit_def table_ok_def set_phase_def)
next
  case (give_up n)
  then show ?thesis using ok by (auto intro!: table_ok_set_phase simp: is_open_def)
next
  case (executed n p res)
  let ?t = "sv_tasks s ! n"
  have open_n: "is_open ?t" using executed by (simp add: is_open_def)
  then have a: "sv_active s (task_id ?t) = Some n" using ok executed by (auto simp: table_ok_def)
  have other: "m = n" if "m < length (sv_tasks s)" "task_id (sv_tasks s ! m) = task_id ?t" "is_open (sv_tasks s ! m)" for m
    using that ok a by (metis option.inject table_ok_def)
  from ok executed other show ?thesis
    by (auto simp: table_ok_def leave_table_def set_phase_def nth_list_update task_id_def [symmetric])
next
  case (completed n res)
  then have "table_ok (set_phase n Over s)" using ok by (intro table_ok_set_phase) (auto simp: is_open_def)
  then show ?thesis by (simp add: completed(1) table_ok_def)
qed (use ok in \<open>simp_all add: table_ok_def\<close>)

lemma replies_ok_cong:
  assumes c: "cancel_only (sv_tasks s) (sv_tasks s')"
    and "accepted_ids (sv_sent s') = accepted_ids (sv_sent s)"
    and "completed_ids (sv_sent s') = completed_ids (sv_sent s)" and ok: "replies_ok s"
  shows "replies_ok s'"
proof -
  have "res_execution_id r = task_id t" if "t \<in> set (sv_tasks s')" "tk_phase t = Leaving r" for t r
  proof -
    from that obtain n where "n < length (sv_tasks s')" "t = sv_tasks s' ! n" by (auto simp: in_set_conv_nth)
    with that(2) cancel_only_views(4) [OF c] cancel_only_views(5) [OF c, of n] have "n < length (sv_tasks s)"
      "tk_phase (sv_tasks s ! n) = Leaving r" "task_id t = task_id (sv_tasks s ! n)" by auto
    with ok show ?thesis by (simp add: replies_ok_def)
  qed
  with ok cancel_only_views(1,2) [OF c] assms(2,3) show ?thesis
    unfolding replies_ok_def by (simp only:) blast
qed

lemma cancel_only_refl [simp]: "cancel_only ts ts"
  by (simp add: cancel_only_def list_all2_refl)

lemma replies_ok_set_phase:
  assumes "replies_ok s" and n: "n < length (sv_tasks s)"
    and "\<not> is_over (sv_tasks s ! n)" and "ph \<noteq> Over"
    and "\<forall>r. ph = Leaving r \<longrightarrow> res_execution_id r = task_id (sv_tasks s ! n)"
  shows "replies_ok (set_phase n ph s)"
proof -
  let ?t = "(sv_tasks s ! n)\<lparr>tk_phase := ph\<rparr>"
  have "map task_id ((sv_tasks s)[n := ?t]) = map task_id (sv_tasks s)"
    using n by (metis list_update_id map_update nth_map task_view_simps(1))
  moreover have "mset (filter is_over ((sv_tasks s)[n := ?t])) = mset (filter is_over (sv_tasks s))"
    using mset_filter_update [OF n, of is_over ?t] assms(3,4) by simp
  ultimately show ?thesis
    using assms(1,5) n unfolding replies_ok_def set_phase_def
    by (auto simp: mset_map simp del: mset_filter dest!: set_update_subset_insert [THEN subsetD])
qed

lemma replies_ok_step:
  assumes "server_step cs s s'" and ok: "replies_ok s"
  shows "replies_ok s'"
  using assms(1)
proof (cases rule: server_step.cases)
  case (receive m)
  show ?thesis
  proof (cases cs m s rule: handle_message_cases)
    case (accepts r t ds)
    then show ?thesis
      using ok unfolding receive(1) accepts(1) replies_ok_def
      by (simp add: is_over_def task_id_def)
  next
    case (breaks x f)
    then show ?thesis
      using cancel_only_leave_loop [of "respond x (s\<lparr>sv_factory := f\<rparr>)"] ok
      unfolding receive(1) breaks(1)
      by - (rule replies_ok_cong [of s], auto split: server_message.splits)
  next
    case (cancels i)
    then show ?thesis using ok by - (rule replies_ok_cong [of s], simp_all add: receive)
  next
    case (crashes x)
    then show ?thesis using ok by - (rule replies_ok_cong [of s], simp_all add: receive expect_failed_def)
  qed (rule replies_ok_cong [OF _ _ _ ok]; simp add: receive)+
next
  case end_of_input
  then show ?thesis using ok cancel_only_leave_loop [of s] by - (rule replies_ok_cong [of s], simp_all)
next
  case (permit n)
  then have "replies_ok (set_phase n (Executing True) s)"
    using ok by (intro replies_ok_set_phase) (auto simp: is_over_def)
  then show ?thesis by - (rule replies_ok_cong [of "set_phase n (Executing True) s"], simp_all add: permit(1) start_with_permit_def set_phase_def)
next
  case (give_up n)
  then show ?thesis using ok by (auto intro!: replies_ok_set_phase simp: is_over_def)
next
  case (observe n p e)
  then show ?thesis using ok by - (rule replies_ok_cong [of s], simp_all)
next
  case (executed n p res)
  then have "replies_ok (set_phase n (Leaving res) s)"
    using ok by (intro replies_ok_set_phase) (auto simp: is_over_def task_id_def)
  then show ?thesis by - (rule replies_ok_cong [of "set_phase n (Leaving res) s"], simp_all add: executed(1) leave_table_def set_phase_def)
next
  case (completed n res)
  let ?t = "(sv_tasks s ! n)\<lparr>tk_phase := Over\<rparr>"
  have n: "n < length (sv_tasks s)" by (rule completed)
  have "map task_id ((sv_tasks s)[n := ?t]) = map task_id (sv_tasks s)"
    using n by (metis list_update_id map_update nth_map task_view_simps(1))
  moreover have "mset (filter is_over ((sv_tasks s)[n := ?t])) = add_mset ?t (mset (filter is_over (sv_tasks s)))"
    using mset_filter_update [OF n, of is_over ?t] completed(4) by (simp add: is_over_def)
  moreover have "res_execution_id res = task_id (sv_tasks s ! n)"
    using ok n completed(4) by (simp add: replies_ok_def)
  ultimately show ?thesis
    using ok n unfolding replies_ok_def completed(1) set_phase_def
    by (auto simp: mset_map simp del: mset_filter dest!: set_update_subset_insert [THEN subsetD])
qed (rule replies_ok_cong [OF _ _ _ ok]; simp)+

lemma drain_ok_step:
  assumes "server_step cs s s'" and ok: "drain_ok s" and tab: "table_ok s"
  shows "drain_ok s'"
proof -
  have leave: "drain_ok (leave_loop u)" if "table_ok u" for u
  proof -
    have "tk_cancelled (sv_tasks (leave_loop u) ! n)" if "n < length (sv_tasks u)" "is_open (sv_tasks (leave_loop u) ! n)" for n
      using that \<open>table_ok u\<close> by (auto simp: leave_loop_def nth_enumerate_eq table_ok_def task_id_def split: if_splits)
    then show ?thesis
      using cancel_only_views(4) [OF cancel_only_leave_loop, of u] by (auto simp: drain_ok_def in_set_conv_nth)
  qed
  have upd: "drain_ok u" if "sv_mode u = sv_mode s" "sv_mode s \<noteq> Stopped"
      "sv_tasks u = (sv_tasks s)[n := (sv_tasks s ! n)\<lparr>tk_phase := ph\<rparr>]" "n < length (sv_tasks s)"
      "is_open (sv_tasks s ! n) \<or> ph = Over" for u n ph
    using ok that by (auto simp: drain_ok_def dest!: set_update_subset_insert [THEN subsetD])
  have same: "drain_ok u" if "sv_mode u = sv_mode s" "sv_tasks u = sv_tasks s" for u
    using ok that by (simp add: drain_ok_def)
  show ?thesis using assms(1)
  proof (cases rule: server_step.cases)
    case (receive m)
    show ?thesis
    proof (cases cs m s rule: handle_message_cases)
      case (breaks x f)
      then show ?thesis using leave [of "respond x (s\<lparr>sv_factory := f\<rparr>)"] tab
        by (simp add: receive table_ok_def)
    qed (use receive in \<open>simp_all add: drain_ok_def expect_failed_def\<close>)
  next
    case (permit n)
    then show ?thesis by (intro upd [of _ n "Executing True"]) (auto simp: start_with_permit_def set_phase_def is_open_def)
  next
    case (give_up n)
    then show ?thesis by (intro upd [of _ n "Executing False"]) (auto simp: set_phase_def is_open_def)
  next
    case (executed n p res)
    then show ?thesis by (intro upd [of _ n "Leaving res"]) (auto simp: leave_table_def set_phase_def is_open_def)
  next
    case (completed n res)
    then show ?thesis by (intro upd [of _ n Over]) (auto simp: set_phase_def)
  next
    case drained
    then show ?thesis by (auto simp: drain_ok_def is_over_def is_open_def)
  next
    case end_of_input
    then show ?thesis using leave [OF tab] by simp
  next
    case (input_error e)
    then show ?thesis by (simp add: drain_ok_def)
  qed (auto intro!: same)
qed

lemma permits_ok_cong:
  "cancel_only (sv_tasks s) (sv_tasks s') \<Longrightarrow> sv_permits s' = sv_permits s \<Longrightarrow> sv_elsewhere s' = sv_elsewhere s \<Longrightarrow>
     permits_ok capacity s \<Longrightarrow> permits_ok capacity s'"
  using cancel_only_views(3) [of "sv_tasks s" "sv_tasks s'"] by (simp add: permits_ok_def)

lemma permits_ok_step:
  assumes "server_step cs s s'" and ok: "permits_ok capacity s"
  shows "permits_ok capacity s'"
  using assms(1)
proof (cases rule: server_step.cases)
  case (receive m)
  show ?thesis
  proof (cases cs m s rule: handle_message_cases)
    case (breaks x f)
    then show ?thesis
      using cancel_only_leave_loop [of "respond x (s\<lparr>sv_factory := f\<rparr>)"]
      by (intro permits_ok_cong [OF _ _ _ ok]) (simp_all add: receive)
  next
    case (accepts r t ds)
    with ok show ?thesis by (simp add: receive permits_ok_def holds_permit_def)
  next
    case (crashes x)
    with ok show ?thesis by (simp add: receive permits_ok_def expect_failed_def)
  qed (rule permits_ok_cong [OF _ _ _ ok]; simp add: receive)+
next
  case end_of_input
  then show ?thesis
    using cancel_only_leave_loop [of s] by (intro permits_ok_cong [OF _ _ _ ok]) simp_all
next
  case (permit n)
  with ok length_filter_update [OF permit(3), of holds_permit "(sv_tasks s ! n)\<lparr>tk_phase := Executing True\<rparr>"]
  show ?thesis by (simp add: permits_ok_def start_with_permit_def set_phase_def holds_permit_def)
next
  case (give_up n)
  with ok length_filter_update [OF give_up(3), of holds_permit "(sv_tasks s ! n)\<lparr>tk_phase := Executing False\<rparr>"]
  show ?thesis by (simp add: permits_ok_def set_phase_def holds_permit_def)
next
  case (executed n p res)
  with ok length_filter_update [OF executed(3), of holds_permit "(sv_tasks s ! n)\<lparr>tk_phase := Leaving res\<rparr>"]
  show ?thesis by (cases p) (simp_all add: permits_ok_def leave_table_def set_phase_def holds_permit_def)
next
  case (completed n res)
  with ok length_filter_update [OF completed(3), of holds_permit "(sv_tasks s ! n)\<lparr>tk_phase := Over\<rparr>"]
  show ?thesis by (simp add: permits_ok_def set_phase_def holds_permit_def)
qed (use ok in \<open>simp_all add: permits_ok_def\<close>)

lemma accepted_task:
  assumes "replies_ok s" and "n < length (sv_tasks s)"
  shows "SM_Accepted (task_id (sv_tasks s ! n)) \<in> set (sv_sent s)"
proof -
  have "set (accepted_ids (sv_sent s)) = set (map task_id (sv_tasks s))"
    using assms(1) unfolding replies_ok_def by (metis set_mset_mset)
  with assms(2) show ?thesis by (auto simp flip: accepted_ids_iff)
qed

lemma announced_step:
  assumes "server_step cs s s'" and ok: "announced (sv_sent s)" and r: "replies_ok s" and tab: "table_ok s"
  shows "announced (sv_sent s')"
  using assms(1)
proof (cases rule: server_step.cases)
  case (receive m)
  show ?thesis
  proof (cases cs m s rule: handle_message_cases)
    case (fails i e)
    have "SM_Accepted j \<in> set (sv_sent s)" if "i = Some j" for j
    proof -
      from fails(2) that obtain n where "sv_active s j = Some n" by auto
      with tab have "n < length (sv_tasks s)" "task_id (sv_tasks s ! n) = j" by (auto simp: table_ok_def)
      with accepted_task [OF r, of n] show ?thesis by simp
    qed
    with fails(1) ok show ?thesis by (simp add: receive announced_append)
  qed (use ok in \<open>auto simp: receive announced_append expect_failed_def\<close>)
next
  case (observe n p e)
  then show ?thesis using ok accepted_task [OF r, of n] by (simp add: announced_append task_id_def)
next
  case (completed n res)
  then have "res_execution_id res = task_id (sv_tasks s ! n)" using r by (simp add: replies_ok_def)
  with completed show ?thesis using ok accepted_task [OF r, of n] by (simp add: announced_append set_phase_def)
qed (use ok in \<open>simp_all add: start_with_permit_def set_phase_def leave_table_def\<close>)

definition server_inv :: "nat \<Rightarrow> server_state \<Rightarrow> bool" where
  "server_inv capacity s \<longleftrightarrow>
     handshake_ok s \<and> table_ok s \<and> replies_ok s \<and> drain_ok s \<and> permits_ok capacity s \<and> announced (sv_sent s)"

interpretation srv: step_invariant "\<lambda>s. s = serve_initial capacity" "server_step cs" "server_inv capacity"
  for capacity cs
proof unfold_locales
  fix s assume "s = serve_initial capacity"
  then show "server_inv capacity s"
    by (simp add: serve_initial_def server_inv_def handshake_ok_def table_ok_def replies_ok_def drain_ok_def
        permits_ok_def announced_def)
next
  fix s s' assume "server_inv capacity s" "server_step cs s s'"
  then show "server_inv capacity s'"
    by (simp add: server_inv_def handshake_ok_step table_ok_step replies_ok_step drain_ok_step permits_ok_step
        announced_step)
qed

abbreviation server_reach :: "nat \<Rightarrow> (string \<Rightarrow> string \<Rightarrow> protocol_failure + daemon_session) \<Rightarrow> server_state \<Rightarrow> bool" where
  "server_reach capacity cs s \<equiv> reach (\<lambda>s. s = serve_initial capacity) (server_step cs) s"

lemmas server_reach_inv = srv.reach_inv [unfolded server_inv_def]


section \<open>Properties of a connection\<close>

text \<open>
  (C13) The handshake comes first and happens once: whatever the client sends, in whatever order,
  none of the \<^verbatim>\<open>expect\<close> calls of the loop fires (the session factory is never asked for twice, and
  no request is served without a session); before the session is established nothing is
  executed and nothing but failures is sent; at most one hello is acknowledged, and exactly one
  once there is a session.
\<close>

theorem handshake_first:
  assumes "server_reach capacity cs s"
  shows "(\<forall>e. sv_mode s \<noteq> Crashed e) \<and>
    (sv_session s = None \<longrightarrow> sv_tasks s = [] \<and> (\<forall>m \<in> set (sv_sent s). \<exists>e. m = SM_Failed None e)) \<and>
    hello_acks (sv_sent s) = (if sv_session s = None then 0 else 1)"
  using server_reach_inv [OF assms] by (simp add: handshake_ok_def)

text \<open>
  (C4) Every accepted execution is answered exactly once: at any time the completed executions
  are among the accepted ones, id by id and counted with repetition, every message about an
  execution comes after its acceptance, and when the connection has been wound down every
  accepted execution has been completed.
\<close>

theorem accepted_completed_once:
  assumes "server_reach capacity cs s"
  shows "mset (completed_ids (sv_sent s)) \<subseteq># mset (accepted_ids (sv_sent s)) \<and> announced (sv_sent s) \<and>
    (sv_mode s = Stopped \<longrightarrow> mset (completed_ids (sv_sent s)) = mset (accepted_ids (sv_sent s)))"
proof -
  note inv = server_reach_inv [OF assms]
  have "mset (filter is_over (sv_tasks s)) \<subseteq># mset (sv_tasks s)" by simp
  then have "mset (completed_ids (sv_sent s)) \<subseteq># mset (accepted_ids (sv_sent s))"
    using inv unfolding replies_ok_def by (metis image_mset_subseteq_mono mset_map)
  moreover have "filter is_over (sv_tasks s) = sv_tasks s" if "sv_mode s = Stopped"
    using inv that by (simp add: drain_ok_def)
  ultimately show ?thesis using inv unfolding replies_ok_def by metis
qed

text \<open>
  (C14) The table of active executions is exact: an id is in it if and only if some accepted
  execution with this id has not finished yet, there is never more than one such execution, and
  the entry is that execution, so a cancel request reaches it. When the loop has been left, by
  the end of the input or by a message, every execution that has not finished is cancelled.
\<close>

theorem active_table_exact:
  assumes "server_reach capacity cs s"
  shows "(\<forall>i n. sv_active s i = Some n \<longleftrightarrow>
       n < length (sv_tasks s) \<and> task_id (sv_tasks s ! n) = i \<and> is_open (sv_tasks s ! n)) \<and>
    (\<forall>m n. m < length (sv_tasks s) \<and> n < length (sv_tasks s) \<and> is_open (sv_tasks s ! m) \<and>
       is_open (sv_tasks s ! n) \<and> task_id (sv_tasks s ! m) = task_id (sv_tasks s ! n) \<longrightarrow> m = n) \<and>
    (sv_mode s \<in> {Draining, Stopped} \<longrightarrow> (\<forall>t \<in> set (sv_tasks s). is_open t \<longrightarrow> tk_cancelled t))"
proof (intro conjI)
  note inv = server_reach_inv [OF assms]
  then show table: "\<forall>i n. sv_active s i = Some n \<longleftrightarrow>
      n < length (sv_tasks s) \<and> task_id (sv_tasks s ! n) = i \<and> is_open (sv_tasks s ! n)"
    by (simp add: table_ok_def)
  then show "\<forall>m n. m < length (sv_tasks s) \<and> n < length (sv_tasks s) \<and> is_open (sv_tasks s ! m) \<and>
      is_open (sv_tasks s ! n) \<and> task_id (sv_tasks s ! m) = task_id (sv_tasks s ! n) \<longrightarrow> m = n"
    by (metis option.inject)
  show "sv_mode s \<in> {Draining, Stopped} \<longrightarrow> (\<forall>t \<in> set (sv_tasks s). is_open t \<longrightarrow> tk_cancelled t)"
    using inv by (simp add: drain_ok_def)
qed

text \<open>
  Global permits are conserved across connections: those available, those held by the
  executions of this connection and those held elsewhere always add up to the configured number.
\<close>

theorem global_permits_conserved:
  assumes "server_reach capacity cs s"
  shows "sv_permits s + length (filter holds_permit (sv_tasks s)) + sv_elsewhere s = capacity"
  using server_reach_inv [OF assms] by (simp add: permits_ok_def)



section \<open>Winding down\<close>

















section \<open>A concrete connection\<close>

definition demo_factory :: "string \<Rightarrow> string \<Rightarrow> protocol_failure + daemon_session" where
  "demo_factory token workspace =
     (if token = ''t'' then Inr \<lparr>ds_runtime = demo_runtime, ds_tools = [], ds_workspace = path_components workspace\<rparr>
      else Inl (ProtocolFailure_new ''unauthorized'' ''bad token''))"

text \<open>A greeting, an execution, and a shutdown while the execution still waits.\<close>

definition demo_connection :: server_state where
  "demo_connection =
     handle_message demo_factory CM_Shutdown
       (handle_message demo_factory (CM_Execute (demo_request ''a'' ''Echo'') None)
          (handle_message demo_factory (CM_Hello 2 ''t'' ''/ws'') (serve_initial 1)))"

lemmas demo_server_eval = demo_connection_def demo_factory_def handle_message_def handle_hello_def
  handle_execute_def is_hello_def serve_initial_def PROTOCOL_VERSION_def demo_request_def respond_def Let_def

lemma demo_connection_reach: "server_reach 1 demo_factory demo_connection"
proof -
  have step: "server_reach 1 demo_factory (handle_message demo_factory m s)"
    if "server_reach 1 demo_factory s" "sv_mode s = Serving" for m s
    using that by (blast intro: reach_step receive)
  have "server_reach 1 demo_factory (serve_initial 1)" by (rule reach_start) (rule refl)
  then show ?thesis
    unfolding demo_connection_def by (intro step) (simp_all add: demo_server_eval)
qed

lemma demo_connection_state:
  "sv_mode demo_connection = Draining" "sv_session demo_connection \<noteq> None"
  "accepted_ids (sv_sent demo_connection) = [''a'']" "sv_active demo_connection ''a'' = Some 0"
  by (simp_all add: demo_server_eval accepted_ids_def)

theorem handshake_first_witness: "hello_acks (sv_sent demo_connection) = 1"
  using handshake_first [OF demo_connection_reach] demo_connection_state(2) by simp

theorem accepted_completed_once_witness:
  "mset (completed_ids (sv_sent demo_connection)) \<subseteq># {#''a''#}"
  using accepted_completed_once [OF demo_connection_reach] demo_connection_state(3) by simp

theorem active_table_exact_witness:
  "task_id (sv_tasks demo_connection ! 0) = ''a'' \<and> is_open (sv_tasks demo_connection ! 0) \<and>
     tk_cancelled (sv_tasks demo_connection ! 0)"
  using active_table_exact [OF demo_connection_reach] demo_connection_state(1,4) by auto

theorem global_permits_conserved_witness:
  "sv_permits demo_connection + length (filter holds_permit (sv_tasks demo_connection)) +
     sv_elsewhere demo_connection = 1"
  by (rule global_permits_conserved [OF demo_connection_reach])







end
