(* ===== verification/Manifest.thy ===== *)
theory Manifest
  imports Registry
begin

text \<open>
  Plugin manifests and what makes them acceptable (\<^verbatim>\<open>executor-plugin/src/manifest.rs\<close>). The
  semantic-version parser and the JSON-schema compiler are arguments: each gives an error text
  for what it refuses.
\<close>

section \<open>The manifest\<close>

record plugin_tool_manifest =
  ptm_name :: string
  ptm_description :: string
  ptm_input_schema :: json
  ptm_concurrency_safe :: bool

record plugin_manifest =
  pm_schema_version :: "32 word"
  pm_id :: string
  pm_version :: string
  pm_entrypoint :: "string list"
  pm_required_commands :: "string list"
  pm_max_concurrency :: usize
  pm_tools :: "plugin_tool_manifest list"

definition default_max_concurrency :: usize where
  "default_max_concurrency = 1"

definition is_ascii_lowercase :: "char \<Rightarrow> bool" where
  "is_ascii_lowercase c \<longleftrightarrow> (97 :: nat) \<le> of_char c \<and> of_char c \<le> (122 :: nat)"

definition is_ascii_uppercase :: "char \<Rightarrow> bool" where
  "is_ascii_uppercase c \<longleftrightarrow> (65 :: nat) \<le> of_char c \<and> of_char c \<le> (90 :: nat)"

definition is_ascii_digit :: "char \<Rightarrow> bool" where
  "is_ascii_digit c \<longleftrightarrow> (48 :: nat) \<le> of_char c \<and> of_char c \<le> (57 :: nat)"

definition is_ascii_alphanumeric :: "char \<Rightarrow> bool" where
  "is_ascii_alphanumeric c \<longleftrightarrow> is_ascii_lowercase c \<or> is_ascii_uppercase c \<or> is_ascii_digit c"

definition valid_plugin_id :: "string \<Rightarrow> bool" where
  "valid_plugin_id s \<longleftrightarrow>
     length s \<le> 128 \<and> 2 \<le> length (split_on CHR ''.'' s) \<and>
     list_all (\<lambda>part. part \<noteq> [] \<and>
         list_all (\<lambda>b. is_ascii_lowercase b \<or> is_ascii_digit b \<or> b = CHR ''-'') part)
       (split_on CHR ''.'' s)"

definition valid_tool_name :: "string \<Rightarrow> bool" where
  "valid_tool_name s \<longleftrightarrow>
     s \<noteq> [] \<and> length s \<le> 64 \<and>
     list_all (\<lambda>b. is_ascii_alphanumeric b \<or> b = CHR ''_'' \<or> b = CHR ''-'') s"

text \<open>The loop over the tools, with the names seen so far.\<close>

fun validate_tools ::
  "(json \<Rightarrow> string + validator) \<Rightarrow> string set \<Rightarrow> plugin_tool_manifest list \<Rightarrow> string + unit"
where
  "validate_tools validator_for names [] = Inr ()"
| "validate_tools validator_for names (tool # tools) =
     (if \<not> valid_tool_name (ptm_name tool) then Inl (''invalid tool name `'' @ ptm_name tool @ ''`'')
      else if ptm_name tool \<in> names then Inl (''duplicate tool name `'' @ ptm_name tool @ ''`'')
      else
        bindE (map_err (\<lambda>e. ''invalid schema for `'' @ ptm_name tool @ ''`: '' @ e)
                 (validator_for (ptm_input_schema tool)))
          (\<lambda>_. validate_tools validator_for (insert (ptm_name tool) names) tools))"

definition manifest_validate ::
  "(string \<Rightarrow> string option) \<Rightarrow> (json \<Rightarrow> string + validator) \<Rightarrow> plugin_manifest \<Rightarrow> string + unit"
where
  "manifest_validate version_error validator_for m =
     (if pm_schema_version m \<noteq> 1
      then Inl (''unsupported manifest schema '' @ show_nat (unat (pm_schema_version m)))
      else if \<not> valid_plugin_id (pm_id m)
      then Inl ''plugin id must be a dot-separated lowercase identifier''
      else
        (case version_error (pm_version m) of
           Some e \<Rightarrow> Inl (''invalid version: '' @ e)
         | None \<Rightarrow>
             if pm_entrypoint m = [] \<or> hd (pm_entrypoint m) = [] then Inl ''entrypoint must not be empty''
             else if list_ex (\<lambda>v. CHR 0x00 \<in> set v) (pm_entrypoint m) then Inl ''entrypoint contains NUL''
             else if list_ex (\<lambda>c. c = []) (pm_required_commands m)
             then Inl ''required_commands must not contain empty names''
             else if pm_max_concurrency m = 0 then Inl ''max_concurrency must be at least 1''
             else if pm_tools m = [] then Inl ''manifest must expose at least one tool''
             else validate_tools validator_for {} (pm_tools m)))"

text \<open>\<open>from_str\<close> is \<^verbatim>\<open>serde_json::from_str\<close> at the manifest type.\<close>

definition manifest_parse ::
  "(string \<Rightarrow> string option) \<Rightarrow> (json \<Rightarrow> string + validator) \<Rightarrow> (string \<Rightarrow> string + plugin_manifest) \<Rightarrow>
     string \<Rightarrow> string + plugin_manifest"
where
  "manifest_parse version_error validator_for from_str raw =
     bindE (from_str raw) (\<lambda>m.
     bindE (manifest_validate version_error validator_for m) (\<lambda>_. Inr m))"

definition is_plain :: "path_component \<Rightarrow> bool" where
  "is_plain c = (case c of Normal _ \<Rightarrow> True | CurDir \<Rightarrow> True | _ \<Rightarrow> False)"

definition entrypoint_is_local :: "plugin_manifest \<Rightarrow> bool" where
  "entrypoint_is_local m \<longleftrightarrow>
     CHR ''/'' \<in> set (hd (pm_entrypoint m)) \<and>
     list_all is_plain (path_components (hd (pm_entrypoint m)))"


section \<open>What validation ensures\<close>

lemma validate_tools_ok:
  "validate_tools vf names tools = Inr u \<Longrightarrow>
     distinct (map ptm_name tools) \<and> names \<inter> ptm_name ` set tools = {} \<and>
     list_all (\<lambda>t. valid_tool_name (ptm_name t) \<and> (\<exists>v. vf (ptm_input_schema t) = Inr v)) tools"
  by (induction tools arbitrary: names) (auto simp: result_simps split: if_splits)

lemma split_on_concat: "join_with [c] (split_on c s) = s"
proof (induction s)
  case (Cons x s)
  then show ?case
    by (cases "split_on c s") (auto simp: join_with_Cons, metis append_Cons join_with.simps(2,3) list.exhaust)
qed simp

lemma valid_plugin_id_chars:
  assumes "valid_plugin_id s"
  shows "CHR ''/'' \<notin> set s" and "s \<noteq> []" and "hd s \<noteq> CHR ''.''"
proof -
  let ?ps = "split_on CHR ''.'' s"
  have chars: "set (join_with ''.'' ps) \<subseteq> insert CHR ''.'' (\<Union> (set ` set ps))" for ps
    by (induction "''.''" ps rule: join_with.induct) auto
  have s: "join_with ''.'' ?ps = s" by (rule split_on_concat)
  have "CHR ''/'' \<notin> set p" if "p \<in> set ?ps" for p
  proof
    assume "CHR ''/'' \<in> set p"
    with assms that have "is_ascii_lowercase CHR ''/'' \<or> is_ascii_digit CHR ''/'' \<or> CHR ''/'' = CHR ''-''"
      unfolding valid_plugin_id_def list_all_iff by blast
    then show False by (simp add: is_ascii_lowercase_def is_ascii_digit_def)
  qed
  with chars [of ?ps] s show "CHR ''/'' \<notin> set s" by auto
  obtain p ps where ps: "?ps = p # ps" by (cases ?ps) auto
  then obtain x xs where p: "p = x # xs" and x: "is_ascii_lowercase x \<or> is_ascii_digit x \<or> x = CHR ''-''"
    using assms by (cases p) (auto simp: valid_plugin_id_def)
  obtain r where r: "s = x # r"
    using s ps p by (cases ps) auto
  show "s \<noteq> []" "hd s \<noteq> CHR ''.''"
    using x by (auto simp: r is_ascii_lowercase_def is_ascii_digit_def)
qed

lemma valid_plugin_id_component:
  assumes "valid_plugin_id s"
  shows "path_components s = [Normal s]"
proof -
  note c = valid_plugin_id_chars [OF assms]
  have "hd s \<noteq> CHR ''/''" using c by (cases s) auto
  moreover have "s \<noteq> ''.''" "s \<noteq> ''..''" using c by auto
  ultimately show ?thesis
    using c by (simp add: path_components_def split_on_no_sep inner_components_def segment_component_def)
qed

lemma manifest_validate_ok:
  assumes "manifest_validate ve vf m = Inr u"
  shows "pm_schema_version m = 1" and "valid_plugin_id (pm_id m)" and "ve (pm_version m) = None"
    and "pm_entrypoint m \<noteq> []" and "hd (pm_entrypoint m) \<noteq> []"
    and "list_all (\<lambda>v. CHR 0x00 \<notin> set v) (pm_entrypoint m)"
    and "[] \<notin> set (pm_required_commands m)" and "pm_max_concurrency m \<noteq> 0" and "pm_tools m \<noteq> []"
    and "validate_tools vf {} (pm_tools m) = Inr u"
  using assms
  by (auto simp: manifest_validate_def list_ex_iff list_all_iff split: if_splits option.splits)

text \<open>A local entry point names a file below whatever directory it is resolved against.\<close>

lemma entrypoint_is_local_below:
  assumes "entrypoint_is_local m" and "root \<noteq> []"
  shows "path_starts_with (path_join root (path_components (hd (pm_entrypoint m)))) root"
    and "ParentDir \<notin> set (path_components (hd (pm_entrypoint m)))"
proof -
  let ?p = "path_components (hd (pm_entrypoint m))"
  have plain: "\<And>c. c \<in> set ?p \<Longrightarrow> is_plain c"
    using assms(1) by (auto simp: entrypoint_is_local_def list_all_iff)
  then have "\<not> is_absolute ?p"
    using plain [of RootDir]
    by (auto simp: is_absolute_def is_plain_def split: list.splits path_component.splits)
  with assms(2) show "path_starts_with (path_join root ?p) root"
    by (simp add: path_join_def path_starts_with_def)
  show "ParentDir \<notin> set ?p" using plain [of ParentDir] by (auto simp: is_plain_def)
qed

text \<open>The place of an accepted plugin is a visible directory of its own.\<close>

lemma accepted_id_place:
  assumes "manifest_parse ve vf from_str raw = Inr m" and "root \<noteq> []"
  shows "path_join root (path_components (pm_id m)) = root @ [Normal (pm_id m)]" and "hd (pm_id m) \<noteq> CHR ''.''"
proof -
  from assms(1) obtain u where "manifest_validate ve vf m = Inr u"
    by (auto simp: manifest_parse_def result_simps)
  note ok = manifest_validate_ok [OF this]
  show "path_join root (path_components (pm_id m)) = root @ [Normal (pm_id m)]"
    using valid_plugin_id_component [OF ok(2)] assms(2) by (simp add: path_join_def is_absolute_def)
  show "hd (pm_id m) \<noteq> CHR ''.''" by (rule valid_plugin_id_chars(3) [OF ok(2)])
qed

text \<open>
  (C20) A manifest that parses is usable by the rest of the system: its id is one plain path
  component that is not hidden (so the directory of the plugin is a direct child of the store and
  is seen by discovery), it exposes at least one tool, with distinct valid names and schemas that
  compile, at least one invocation may run at a time, and a local entry point is inside the plugin's own
  directory.
\<close>

theorem manifest_accepted:
  assumes "manifest_parse ve vf from_str raw = Inr m" and "root \<noteq> []"
  shows "path_join root (path_components (pm_id m)) = root @ [Normal (pm_id m)] \<and>
    hd (pm_id m) \<noteq> CHR ''.'' \<and> pm_tools m \<noteq> [] \<and> distinct (map ptm_name (pm_tools m)) \<and>
    list_all (\<lambda>t. valid_tool_name (ptm_name t) \<and> (\<exists>v. vf (ptm_input_schema t) = Inr v)) (pm_tools m) \<and>
    0 < pm_max_concurrency m \<and> hd (pm_entrypoint m) \<noteq> [] \<and>
    (entrypoint_is_local m \<longrightarrow>
       path_starts_with (path_join root (path_components (hd (pm_entrypoint m)))) root \<and>
       ParentDir \<notin> set (path_components (hd (pm_entrypoint m))))"
proof -
  from assms(1) obtain u where "manifest_validate ve vf m = Inr u"
    by (auto simp: manifest_parse_def result_simps)
  note ok = manifest_validate_ok [OF this]
  have "0 < pm_max_concurrency m" using ok(8) by (simp add: word_gt_0)
  then show ?thesis
    using ok(5,9) validate_tools_ok [OF ok(10)] accepted_id_place [OF assms]
      entrypoint_is_local_below [OF _ assms(2)] by blast
qed

definition demo_manifest :: plugin_manifest where
  "demo_manifest =
     \<lparr>pm_schema_version = 1, pm_id = ''com.example.echo'', pm_version = ''1.0.0'',
      pm_entrypoint = [''bin/run''], pm_required_commands = [], pm_max_concurrency = 2,
      pm_tools = [\<lparr>ptm_name = ''example_echo'', ptm_description = ''echo'',
        ptm_input_schema = JObject [], ptm_concurrency_safe = False\<rparr>]\<rparr>"

lemma demo_manifest_parse:
  "manifest_parse (\<lambda>_. None) (\<lambda>_. Inr (\<lambda>_. None)) (\<lambda>_. Inr demo_manifest) raw = Inr demo_manifest"
  by (simp add: manifest_parse_def manifest_validate_def demo_manifest_def valid_plugin_id_def
      valid_tool_name_def is_ascii_alphanumeric_def is_ascii_lowercase_def is_ascii_uppercase_def
      is_ascii_digit_def)

lemma demo_manifest_local: "entrypoint_is_local demo_manifest"
  by (simp add: entrypoint_is_local_def demo_manifest_def path_components_def inner_components_def
      segment_component_def is_plain_def)

theorem manifest_accepted_witness:
  "path_join [RootDir, Normal ''store''] (path_components (pm_id demo_manifest)) =
     [RootDir, Normal ''store'', Normal ''com.example.echo''] \<and>
   path_starts_with
     (path_join [RootDir, Normal ''store''] (path_components (hd (pm_entrypoint demo_manifest))))
     [RootDir, Normal ''store'']"
  using manifest_accepted [OF demo_manifest_parse, of "[RootDir, Normal ''store'']"]
    demo_manifest_local
  by (simp add: demo_manifest_def)

end
