(* ===== verification/Supervisor.thy ===== *)
theory Supervisor
  imports Manifest Text
begin

text \<open>
  The supervisor of one plugin (\<^verbatim>\<open>executor-plugin/src/supervisor.rs\<close> and \<^verbatim>\<open>protocol.rs\<close>): the
  requests and responses exchanged with the plugin process, starting and stopping the process,
  and the manager task that owns the process and the table of pending invocations. Each handler
  of the manager is a function of the state and of what the environment answered (\<open>launch\<close> for
  starting a process, the error of a write, \<open>stop_env\<close> for stopping one); \<open>manager_step\<close>
  interleaves them with the callers, the cancellation watchers, the kill timers and the reader.

  The result channel of an invocation is its \<open>ticket\<close>; the log of answers holds what each caller's
  \<^verbatim>\<open>invoke\<close> returns. An invocation holds its permit until it is dropped, which is when it is
  answered. The order in which \<^verbatim>\<open>fail_all\<close> drains the table is the order of the list, one of the
  orders a \<^verbatim>\<open>HashMap\<close> may have.
\<close>

section \<open>Protocol\<close>

definition PLUGIN_PROTOCOL_VERSION :: "32 word" where
  "PLUGIN_PROTOCOL_VERSION = 1"

datatype plugin_request =
    PQ_Hello "32 word" string
  | PQ_Invoke string string json string "64 word option"
  | PQ_Cancel string
  | PQ_Shutdown

datatype plugin_response =
    PR_HelloAck "32 word"
  | PR_Progress string string "json option"
  | PR_Completed string json
  | PR_Failed string string string
  | PR_ShutdownAck


section \<open>Configuration and state\<close>

record plugin_runtime_config =
  prc_start_timeout :: duration
  prc_cancel_grace :: duration
  prc_base_env :: "(string \<times> string) list"
  prc_memory_bytes :: "64 word option"
  prc_process_count :: "64 word option"

definition PluginRuntimeConfig_default :: plugin_runtime_config where
  "PluginRuntimeConfig_default =
     \<lparr>prc_start_timeout = from_secs 5, prc_cancel_grace = from_secs 2,
      prc_base_env = [(''PATH'', ''/usr/local/bin:/usr/bin:/bin''), (''LANG'', ''C.UTF-8'')],
      prc_memory_bytes = None, prc_process_count = None\<rparr>"

record plugin_invocation =
  pi_tool :: string
  pi_arguments :: json
  pi_cwd :: path
  pi_timeout_ms :: "64 word option"
  pi_progress :: progress_reporter
  pi_ticket :: nat

datatype manager_command =
    MC_Invoke string plugin_invocation
  | MC_Cancel string
  | MC_KillIfPending string

datatype process_event =
    PE_Message "64 word" plugin_response
  | PE_Closed "64 word" string

fun event_generation :: "process_event \<Rightarrow> 64 word" where
  "event_generation (PE_Message generation _) = generation"
| "event_generation (PE_Closed generation _) = generation"

text \<open>
  A running process: the frames written to its standard input so far, and whether its reader
  still forwards what it writes.
\<close>

record running_plugin =
  rp_generation :: "64 word"
  rp_stdin :: "plugin_request list"
  rp_reading :: bool

text \<open>
  The manager. \<open>ms_watchers\<close> are the spawned tasks that forward a cancellation, \<open>ms_timers\<close> the
  sleeping kill timers, \<open>ms_ended\<close> the processes stopped, with whether their group was sent
  \<^verbatim>\<open>SIGKILL\<close>; \<open>ms_open\<close> says that a sender of the command channel remains.
\<close>

record manager_state =
  ms_commands :: "manager_command list"
  ms_events :: "process_event list"
  ms_running :: "running_plugin option"
  ms_pending :: "(string \<times> plugin_invocation) list"
  ms_generation :: "64 word"
  ms_answers :: "(nat \<times> (execution_error + json)) list"
  ms_observed :: "execution_event list"
  ms_ended :: "(running_plugin \<times> bool) list"
  ms_watchers :: "(nat \<times> string) list"
  ms_timers :: "string list"
  ms_permits :: nat
  ms_tickets :: nat
  ms_open :: bool
  ms_stopped :: bool

definition PluginSupervisor_new :: "plugin_manifest \<Rightarrow> manager_state" where
  "PluginSupervisor_new manifest =
     \<lparr>ms_commands = [], ms_events = [], ms_running = None, ms_pending = [], ms_generation = 0,
      ms_answers = [], ms_observed = [], ms_ended = [], ms_watchers = [], ms_timers = [],
      ms_permits = unat (pm_max_concurrency manifest), ms_tickets = 0, ms_open = True, ms_stopped = False\<rparr>"

definition plugin_error :: "string \<Rightarrow> string \<Rightarrow> execution_error" where
  "plugin_error tool message = ToolExecution tool message"


section \<open>Starting and stopping the process\<close>

text \<open>The command line, directory and environment of the process.\<close>

record plugin_command =
  pc_program :: path
  pc_args :: "string list"
  pc_current_dir :: path
  pc_env :: "(string \<times> string) list"
  pc_rlimit_as :: "64 word option"
  pc_rlimit_nproc :: "64 word option"

definition plugin_command_of :: "plugin_manifest \<Rightarrow> path \<Rightarrow> plugin_runtime_config \<Rightarrow> plugin_command" where
  "plugin_command_of manifest root config =
     \<lparr>pc_program =
        (let entry = path_components (hd (pm_entrypoint manifest)) in
         if entrypoint_is_local manifest then path_join root entry else entry),
      pc_args = tl (pm_entrypoint manifest), pc_current_dir = root,
      pc_env =
        set_env ''ATE_PLUGIN_PROTOCOL_VERSION'' (show_nat (unat PLUGIN_PROTOCOL_VERSION))
          (set_env ''ATE_PLUGIN_ID'' (pm_id manifest)
             (set_envs (prc_base_env config) [])),
      pc_rlimit_as = prc_memory_bytes config, pc_rlimit_nproc = prc_process_count config\<rparr>"

text \<open>
  What the environment does while a process is started: the error of spawning it, whether each
  pipe is there, the error of writing the greeting, and the outcome of waiting for its answer.
\<close>

datatype hello_outcome = HelloTimeout | HelloError string | HelloFrame "plugin_response option"

record launch =
  la_spawn :: "plugin_command \<Rightarrow> string option"
  la_stdin :: bool
  la_stdout :: bool
  la_write :: "plugin_request \<Rightarrow> string option"
  la_hello :: hello_outcome
  la_debug :: "plugin_response option \<Rightarrow> string"
  la_stderr :: bool

definition start_plugin ::
  "launch \<Rightarrow> plugin_manifest \<Rightarrow> path \<Rightarrow> plugin_runtime_config \<Rightarrow> 64 word \<Rightarrow> string + running_plugin"
where
  "start_plugin env manifest root config generation =
     (case la_spawn env (plugin_command_of manifest root config) of
        Some e \<Rightarrow> Inl (''spawn failed: '' @ e)
      | None \<Rightarrow>
          if \<not> la_stdin env then Inl ''plugin stdin unavailable''
          else if \<not> la_stdout env then Inl ''plugin stdout unavailable''
          else
            let hello = PQ_Hello PLUGIN_PROTOCOL_VERSION (pm_id manifest) in
            (case la_write env hello of
               Some e \<Rightarrow> Inl e
             | None \<Rightarrow>
                 (case la_hello env of
                    HelloTimeout \<Rightarrow> Inl ''plugin handshake timed out''
                  | HelloError e \<Rightarrow> Inl e
                  | HelloFrame answer \<Rightarrow>
                      if answer \<noteq> Some (PR_HelloAck PLUGIN_PROTOCOL_VERSION)
                      then Inl (''unexpected handshake response: '' @ la_debug env answer)
                      else if \<not> la_stderr env then Inl ''plugin stderr unavailable''
                      else Inr \<lparr>rp_generation = generation, rp_stdin = [hello], rp_reading = True\<rparr>)))"

text \<open>
  The reader task: what it forwards for a frame read, the end of the output or a frame error (given by its text), of
  which the last two end it. The other task of the process copies its standard error to the log.
\<close>

definition reader_event :: "64 word \<Rightarrow> string + plugin_response option \<Rightarrow> process_event" where
  "reader_event generation r =
     (case r of
        Inr (Some message) \<Rightarrow> PE_Message generation message
      | Inr None \<Rightarrow> PE_Closed generation ''plugin exited''
      | Inl e \<Rightarrow> PE_Closed generation (''plugin protocol error: '' @ e))"

text \<open>Stopping: whether the farewell was written, the process exited in time, and it has a pid.\<close>

record stop_env =
  se_written :: bool
  se_exited :: bool
  se_pid :: bool

definition stop_process :: "stop_env \<Rightarrow> manager_state \<Rightarrow> manager_state" where
  "stop_process env s =
     (case ms_running s of
        None \<Rightarrow> s
      | Some p \<Rightarrow>
          s\<lparr>ms_running := None,
            ms_ended := ms_ended s @
              [(p\<lparr>rp_stdin := rp_stdin p @ (if se_written env then [PQ_Shutdown] else []), rp_reading := False\<rparr>,
                \<not> se_exited env \<and> se_pid env)]\<rparr>)"


section \<open>The manager's handlers\<close>

text \<open>Answering an invocation drops it: its permit goes back.\<close>

definition answer :: "plugin_invocation \<Rightarrow> execution_error + json \<Rightarrow> manager_state \<Rightarrow> manager_state" where
  "answer iv r s = s\<lparr>ms_answers := ms_answers s @ [(pi_ticket iv, r)], ms_permits := ms_permits s + 1\<rparr>"

definition fail_invocation :: "string \<Rightarrow> plugin_invocation \<Rightarrow> manager_state \<Rightarrow> manager_state" where
  "fail_invocation message iv s = answer iv (Inl (plugin_error (pi_tool iv) message)) s"

definition fail_all :: "string \<Rightarrow> manager_state \<Rightarrow> manager_state" where
  "fail_all message s =
     (fold (\<lambda>(_, iv). fail_invocation message iv) (ms_pending s) s)\<lparr>ms_pending := []\<rparr>"

definition protocol_violation :: "stop_env \<Rightarrow> string \<Rightarrow> manager_state \<Rightarrow> manager_state" where
  "protocol_violation env message s =
     fail_all (''plugin protocol violation: '' @ message) (stop_process env s)"

text \<open>
  \<^verbatim>\<open>pending.insert\<close>: an invocation already stored under the id is dropped, and its caller finds the
  channel closed.
\<close>

definition pending_insert :: "string \<Rightarrow> plugin_invocation \<Rightarrow> manager_state \<Rightarrow> manager_state" where
  "pending_insert i iv s =
     (case map_of (ms_pending s) i of
        None \<Rightarrow> s\<lparr>ms_pending := (i, iv) # ms_pending s\<rparr>
      | Some old \<Rightarrow>
          fail_invocation ''plugin supervisor disconnected'' old
            (s\<lparr>ms_pending := (i, iv) # filter (\<lambda>(j, _). j \<noteq> i) (ms_pending s)\<rparr>))"

definition write_stdin :: "plugin_request \<Rightarrow> manager_state \<Rightarrow> manager_state" where
  "write_stdin m s =
     s\<lparr>ms_running := map_option (\<lambda>p. p\<lparr>rp_stdin := rp_stdin p @ [m]\<rparr>) (ms_running s)\<rparr>"

definition invoke_request :: "string \<Rightarrow> plugin_invocation \<Rightarrow> plugin_request" where
  "invoke_request i iv =
     PQ_Invoke i (pi_tool iv) (pi_arguments iv) (utf8_lossy (path_display (pi_cwd iv))) (pi_timeout_ms iv)"

text \<open>What the environment answers while one command is handled.\<close>

record command_env =
  ce_launch :: launch
  ce_write :: "plugin_request \<Rightarrow> string option"
  ce_stop :: stop_env

definition deliver_invoke :: "command_env \<Rightarrow> string \<Rightarrow> plugin_invocation \<Rightarrow> manager_state \<Rightarrow> manager_state" where
  "deliver_invoke env i iv s =
     (case ce_write env (invoke_request i iv) of
        Some e \<Rightarrow>
          fail_all ''plugin process disconnected''
            (stop_process (ce_stop env) (fail_invocation (''writing request failed: '' @ e) iv s))
      | None \<Rightarrow> pending_insert i iv (write_stdin (invoke_request i iv) s))"

definition on_invoke ::
  "plugin_manifest \<Rightarrow> path \<Rightarrow> plugin_runtime_config \<Rightarrow> command_env \<Rightarrow> string \<Rightarrow> plugin_invocation \<Rightarrow>
     manager_state \<Rightarrow> manager_state"
where
  "on_invoke manifest root config env i iv s =
     (if ms_running s = None then
        let generation = ms_generation s + 1; s = s\<lparr>ms_generation := generation\<rparr> in
        (case start_plugin (ce_launch env) manifest root config generation of
           Inl e \<Rightarrow> fail_invocation e iv s
         | Inr process \<Rightarrow> deliver_invoke env i iv (s\<lparr>ms_running := Some process\<rparr>))
      else deliver_invoke env i iv s)"

definition on_cancel :: "command_env \<Rightarrow> string \<Rightarrow> manager_state \<Rightarrow> manager_state" where
  "on_cancel env i s =
     (if map_of (ms_pending s) i = None then s
      else (case ce_write env (PQ_Cancel i) of None \<Rightarrow> write_stdin (PQ_Cancel i) s | Some _ \<Rightarrow> s)
             \<lparr>ms_timers := ms_timers s @ [i]\<rparr>)"

definition on_kill :: "command_env \<Rightarrow> string \<Rightarrow> manager_state \<Rightarrow> manager_state" where
  "on_kill env i s =
     (if map_of (ms_pending s) i = None then s
      else fail_all ''plugin ignored cancellation and was terminated'' (stop_process (ce_stop env) s))"

fun on_command ::
  "plugin_manifest \<Rightarrow> path \<Rightarrow> plugin_runtime_config \<Rightarrow> command_env \<Rightarrow> manager_command \<Rightarrow>
     manager_state \<Rightarrow> manager_state"
where
  "on_command manifest root config env (MC_Invoke i iv) s = on_invoke manifest root config env i iv s"
| "on_command manifest root config env (MC_Cancel i) s = on_cancel env i s"
| "on_command manifest root config env (MC_KillIfPending i) s = on_kill env i s"

text \<open>The command channel is closed and empty: the manager stops.\<close>

definition on_closed :: "stop_env \<Rightarrow> manager_state \<Rightarrow> manager_state" where
  "on_closed env s =
     (fail_all ''plugin supervisor stopped'' (stop_process env s))\<lparr>ms_stopped := True\<rparr>"

definition pending_remove :: "string \<Rightarrow> manager_state \<Rightarrow> manager_state" where
  "pending_remove i s = s\<lparr>ms_pending := filter (\<lambda>(j, _). j \<noteq> i) (ms_pending s)\<rparr>"

fun handle_response :: "stop_env \<Rightarrow> plugin_response \<Rightarrow> manager_state \<Rightarrow> manager_state" where
  "handle_response env (PR_Progress i message data) s =
     (case map_of (ms_pending s) i of
        Some iv \<Rightarrow> s\<lparr>ms_observed := ms_observed s @ ProgressReporter_emit (pi_progress iv) message data\<rparr>
      | None \<Rightarrow> protocol_violation env (''progress for unknown invocation `'' @ i @ ''`'') s)"
| "handle_response env (PR_Completed i content) s =
     (case map_of (ms_pending s) i of
        Some iv \<Rightarrow> answer iv (Inr content) (pending_remove i s)
      | None \<Rightarrow> protocol_violation env (''completion for unknown invocation `'' @ i @ ''`'') s)"
| "handle_response env (PR_Failed i code message) s =
     (case map_of (ms_pending s) i of
        Some iv \<Rightarrow> fail_invocation (code @ '': '' @ message) iv (pending_remove i s)
      | None \<Rightarrow> protocol_violation env (''failure for unknown invocation `'' @ i @ ''`'') s)"
| "handle_response env (PR_HelloAck _) s = protocol_violation env ''unexpected lifecycle response'' s"
| "handle_response env PR_ShutdownAck s = protocol_violation env ''unexpected lifecycle response'' s"

definition is_current :: "64 word \<Rightarrow> manager_state \<Rightarrow> bool" where
  "is_current generation s = (case ms_running s of None \<Rightarrow> False | Some p \<Rightarrow> rp_generation p = generation)"

fun on_event :: "stop_env \<Rightarrow> process_event \<Rightarrow> manager_state \<Rightarrow> manager_state" where
  "on_event env (PE_Message generation message) s =
     (if is_current generation s then handle_response env message s else s)"
| "on_event env (PE_Closed generation reason) s =
     (if is_current generation s then fail_all reason (stop_process env s) else s)"


section \<open>The callers and the whole supervisor\<close>

text \<open>\<^verbatim>\<open>invoke\<close>, once it has its permit: the invocation queued at the instant \<open>now\<close>.\<close>

definition remaining_ms :: "instant \<Rightarrow> instant option \<Rightarrow> 64 word option" where
  "remaining_ms now deadline = map_option (\<lambda>d. saturating_u64 ((d - now) div 1000000)) deadline"

definition supervisor_invoke ::
  "instant \<Rightarrow> string \<Rightarrow> string \<Rightarrow> json \<Rightarrow> tool_context \<Rightarrow> manager_state \<Rightarrow> manager_state"
where
  "supervisor_invoke now i tool arguments ctx s =
     (let iv = \<lparr>pi_tool = tool, pi_arguments = arguments, pi_cwd = tc_cwd ctx,
                 pi_timeout_ms = remaining_ms now (tc_deadline ctx), pi_progress = tc_progress ctx,
                 pi_ticket = ms_tickets s\<rparr> in
      s\<lparr>ms_permits := ms_permits s - 1, ms_tickets := ms_tickets s + 1,
        ms_commands := ms_commands s @ [MC_Invoke i iv],
        ms_watchers := ms_watchers s @ [(ms_tickets s, i)]\<rparr>)"

text \<open>
  The adapter that makes a plugin's tool a tool; \<open>invoke\<close> is the supervisor's \<^verbatim>\<open>invoke\<close> as an
  activity, and \<^verbatim>\<open>ToolOutput::json\<close> of its content is the content.
\<close>

definition ExternalToolAdapter ::
  "(string \<Rightarrow> string \<Rightarrow> json \<Rightarrow> tool_context \<Rightarrow> (execution_error + json) activity) \<Rightarrow> plugin_tool_manifest \<Rightarrow> tool"
where
  "ExternalToolAdapter invoke t =
     \<lparr>t_definition = \<lparr>tdef_name = ptm_name t, tdef_description = ptm_description t,
        tdef_input_schema = ptm_input_schema t\<rparr>,
      t_is_concurrency_safe = (\<lambda>_. Returned (ptm_concurrency_safe t)),
      t_invocation_detail = (\<lambda>_. Returned (ptm_name t)),
      t_validate = default_validate,
      t_invoke = (\<lambda>arguments ctx. invoke (tc_execution_id ctx) (ptm_name t) arguments ctx)\<rparr>"

inductive manager_step ::
  "plugin_manifest \<Rightarrow> path \<Rightarrow> plugin_runtime_config \<Rightarrow> manager_state \<Rightarrow> manager_state \<Rightarrow> bool"
  for manifest root config
where
  call:
    "ms_open s \<Longrightarrow> 0 < ms_permits s \<Longrightarrow>
     manager_step manifest root config s (supervisor_invoke now i tool arguments ctx s)"
| watcher_cancels:
    "(k, i) \<in> set (ms_watchers s) \<Longrightarrow>
     manager_step manifest root config s
       (s\<lparr>ms_watchers := remove1 (k, i) (ms_watchers s), ms_commands := ms_commands s @ [MC_Cancel i]\<rparr>)"
| watcher_ends:
    "(k, i) \<in> set (ms_watchers s) \<Longrightarrow> k \<in> fst ` set (ms_answers s) \<Longrightarrow>
     manager_step manifest root config s (s\<lparr>ms_watchers := remove1 (k, i) (ms_watchers s)\<rparr>)"
| timer:
    "i \<in> set (ms_timers s) \<Longrightarrow>
     manager_step manifest root config s
       (s\<lparr>ms_timers := remove1 i (ms_timers s),
          ms_commands := ms_commands s @ (if ms_open s then [MC_KillIfPending i] else [])\<rparr>)"
| hang_up:
    "ms_open s \<Longrightarrow> ms_watchers s = [] \<Longrightarrow> manager_step manifest root config s (s\<lparr>ms_open := False\<rparr>)"
| command:
    "\<not> ms_stopped s \<Longrightarrow> ms_commands s = c # cs \<Longrightarrow>
     manager_step manifest root config s (on_command manifest root config env c (s\<lparr>ms_commands := cs\<rparr>))"
| channel_closed:
    "\<not> ms_stopped s \<Longrightarrow> ms_commands s = [] \<Longrightarrow> \<not> ms_open s \<Longrightarrow>
     manager_step manifest root config s (on_closed stop s)"
| process_event:
    "\<not> ms_stopped s \<Longrightarrow> ms_events s = e # es \<Longrightarrow>
     manager_step manifest root config s (on_event stop e (s\<lparr>ms_events := es\<rparr>))"
| reader_message:
    "ms_running s = Some p \<Longrightarrow> rp_reading p \<Longrightarrow>
     manager_step manifest root config s
       (s\<lparr>ms_events := ms_events s @ [reader_event (rp_generation p) (Inr (Some m))]\<rparr>)"
| reader_ends:
    "ms_running s = Some p \<Longrightarrow> rp_reading p \<Longrightarrow> \<forall>m. r \<noteq> Inr (Some m) \<Longrightarrow>
     manager_step manifest root config s
       (s\<lparr>ms_running := Some (p\<lparr>rp_reading := False\<rparr>),
          ms_events := ms_events s @ [reader_event (rp_generation p) r]\<rparr>)"
| reader_late:
    "(p, k) \<in> set (ms_ended s) \<Longrightarrow> event_generation e = rp_generation p \<Longrightarrow>
     manager_step manifest root config s (s\<lparr>ms_events := ms_events s @ [e]\<rparr>)"

end
