(* ===== verification/SupervisorCalls.thy ===== *)
theory SupervisorCalls
  imports Supervisor
begin

text \<open>
  The supervisor's accounts: the effect of each handler on the callers, the invariant of the
  manager, that every call is answered once, and the refinement of the specification of calls.
\<close>

section \<open>Effects of the handlers\<close>

definition command_tickets :: "manager_command \<Rightarrow> nat list" where
  "command_tickets c = (case c of MC_Invoke _ iv \<Rightarrow> [pi_ticket iv] | _ \<Rightarrow> [])"

definition queued_tickets :: "manager_state \<Rightarrow> nat list" where
  "queued_tickets s = concat (map command_tickets (ms_commands s))"

definition pending_tickets :: "manager_state \<Rightarrow> nat list" where
  "pending_tickets s = map (\<lambda>p. pi_ticket (snd p)) (ms_pending s)"

definition answered_tickets :: "manager_state \<Rightarrow> nat list" where
  "answered_tickets s = map fst (ms_answers s)"

lemmas ticket_views = queued_tickets_def pending_tickets_def answered_tickets_def

lemma command_tickets_simps [simp]:
  "command_tickets (MC_Invoke i iv) = [pi_ticket iv]" "command_tickets (MC_Cancel i) = []"
  "command_tickets (MC_KillIfPending i) = []"
  by (simp_all add: command_tickets_def)

lemma fold_fail_invocation:
  "fold (\<lambda>(_, iv). fail_invocation message iv) ps s =
     s\<lparr>ms_answers := ms_answers s @ map (\<lambda>p. (pi_ticket (snd p), Inl (plugin_error (pi_tool (snd p)) message))) ps,
       ms_permits := ms_permits s + length ps\<rparr>"
  by (induction ps arbitrary: s) (auto simp: fail_invocation_def answer_def)

lemma fail_all_eq:
  "fail_all message s =
     s\<lparr>ms_answers := ms_answers s @
         map (\<lambda>p. (pi_ticket (snd p), Inl (plugin_error (pi_tool (snd p)) message))) (ms_pending s),
       ms_permits := ms_permits s + length (ms_pending s), ms_pending := []\<rparr>"
  by (simp add: fail_all_def fold_fail_invocation)

lemma stop_process_simps [simp]:
  "ms_running (stop_process env s) = None" "ms_pending (stop_process env s) = ms_pending s"
  "ms_answers (stop_process env s) = ms_answers s" "ms_permits (stop_process env s) = ms_permits s"
  "ms_commands (stop_process env s) = ms_commands s" "ms_tickets (stop_process env s) = ms_tickets s"
  "ms_generation (stop_process env s) = ms_generation s" "ms_open (stop_process env s) = ms_open s"
  "ms_stopped (stop_process env s) = ms_stopped s" "ms_watchers (stop_process env s) = ms_watchers s"
  "ms_timers (stop_process env s) = ms_timers s" "ms_events (stop_process env s) = ms_events s"
  "ms_observed (stop_process env s) = ms_observed s"
  by (simp_all add: stop_process_def split: option.splits)

lemma mset_remove_key:
  "distinct (map fst ps) \<Longrightarrow> map_of ps i = Some v \<Longrightarrow>
     mset ps = add_mset (i, v) (mset (filter (\<lambda>(j, _). j \<noteq> i) ps))"
proof (induction ps)
  case (Cons a ps)
  have "filter (\<lambda>(j, _). j \<noteq> fst a) ps = ps" if "fst a \<notin> fst ` set ps"
    using that by (auto simp: filter_id_conv) (metis fst_conv imageI)
  with Cons show ?case by (cases "fst a = i") (auto split: prod.splits)
qed simp

lemma pending_tickets_remove:
  assumes "distinct (map fst ps)" and "map_of ps i = Some v"
  shows "mset (map (\<lambda>p. pi_ticket (snd p)) ps) =
    add_mset (pi_ticket v) (mset (map (\<lambda>p. pi_ticket (snd p)) (filter (\<lambda>(j, _). j \<noteq> i) ps)))"
  using arg_cong [OF mset_remove_key [OF assms], of "image_mset (\<lambda>p. pi_ticket (snd p))"] by simp

lemma distinct_filter_fst: "distinct (map fst ps) \<Longrightarrow> distinct (map fst (filter P ps))"
  by (induction ps) auto


section \<open>The invariant\<close>

text \<open>
  Every ticket issued is answered, pending or still queued, once; an answer returns one permit;
  the table of pending invocations has one entry per id and is empty without a process; the
  process carries the current generation; a stopped manager has nothing left to do.
\<close>

definition tickets_ok :: "manager_state \<Rightarrow> bool" where
  "tickets_ok s \<longleftrightarrow>
     mset (answered_tickets s) + mset (pending_tickets s) + mset (queued_tickets s) = mset [0..<ms_tickets s]"

definition table_of_process_ok :: "manager_state \<Rightarrow> bool" where
  "table_of_process_ok s \<longleftrightarrow>
     distinct (map fst (ms_pending s)) \<and> (ms_running s = None \<longrightarrow> ms_pending s = []) \<and>
     (\<forall>p. ms_running s = Some p \<longrightarrow> rp_generation p = ms_generation s)"

definition quiet_after_stop :: "manager_state \<Rightarrow> bool" where
  "quiet_after_stop s \<longleftrightarrow>
     (\<not> ms_open s \<longrightarrow> ms_watchers s = []) \<and>
     (ms_stopped s \<longrightarrow> \<not> ms_open s \<and> ms_commands s = [] \<and> ms_pending s = [] \<and> ms_running s = None)"

definition manager_inv :: "nat \<Rightarrow> manager_state \<Rightarrow> bool" where
  "manager_inv capacity s \<longleftrightarrow>
     tickets_ok s \<and> ms_permits s + ms_tickets s = capacity + length (ms_answers s) \<and>
     table_of_process_ok s \<and> quiet_after_stop s"

text \<open>
  What a handler may do to the callers: the tickets \<open>T\<close> it takes over and those it had are answered or pending
  afterwards, and every answer returns its permit. It never touches the queue, the watchers or the
  channel.
\<close>

definition handles :: "nat multiset \<Rightarrow> manager_state \<Rightarrow> manager_state \<Rightarrow> bool" where
  "handles T s s' \<longleftrightarrow>
     mset (answered_tickets s') + mset (pending_tickets s') =
       T + mset (answered_tickets s) + mset (pending_tickets s) \<and>
     ms_permits s' + length (ms_answers s) = ms_permits s + length (ms_answers s') \<and>
     prefix (ms_answers s) (ms_answers s') \<and> table_of_process_ok s' \<and>
     ms_commands s' = ms_commands s \<and> ms_tickets s' = ms_tickets s \<and> ms_watchers s' = ms_watchers s \<and>
     ms_open s' = ms_open s \<and> ms_stopped s' = ms_stopped s"

lemmas handles_simps = handles_def table_of_process_ok_def ticket_views fail_all_eq fail_invocation_def
  answer_def comp_def

lemma handles_same:
  "table_of_process_ok s \<Longrightarrow> handles {#} s s"
  "table_of_process_ok s \<Longrightarrow> handles {#} s (s\<lparr>ms_observed := evs\<rparr>)"
  by (auto simp: handles_simps)

lemma handles_shut_down:
  "handles {#} s (fail_all message (stop_process env s))"
  by (auto simp: handles_simps)

lemma handles_fail_first:
  "handles {#pi_ticket iv#} s (fail_all m (stop_process env (fail_invocation e iv s)))"
  by (auto simp: handles_simps)

lemma handles_insert:
  assumes "table_of_process_ok s" and "ms_running s \<noteq> None"
  shows "handles {#pi_ticket iv#} s (pending_insert i iv (write_stdin m s))"
proof (cases "map_of (ms_pending s) i")
  case None
  moreover from this have "i \<notin> fst ` set (ms_pending s)" by (simp add: map_of_eq_None_iff)
  ultimately show ?thesis
    using assms by (auto simp: handles_simps pending_insert_def write_stdin_def)
next
  case (Some old)
  with assms pending_tickets_remove [of "ms_pending s" i old] show ?thesis
    by (auto simp: handles_simps pending_insert_def write_stdin_def distinct_filter_fst)
qed

lemma handles_deliver:
  assumes "table_of_process_ok s" and "ms_running s \<noteq> None"
  shows "handles {#pi_ticket iv#} s (deliver_invoke env i iv s)"
  using handles_insert [OF assms] handles_fail_first
  by (auto simp: deliver_invoke_def split: option.splits)

lemma start_plugin_generation: "start_plugin env m r c g = Inr p \<Longrightarrow> rp_generation p = g"
  by (auto simp: start_plugin_def Let_def split: option.splits if_splits hello_outcome.splits)

lemma handles_update:
  assumes "handles T (s\<lparr>ms_generation := g, ms_running := r\<rparr>) s'"
  shows "handles T s s'"
  using assms by (auto simp: handles_def ticket_views)

lemma handles_invoke:
  assumes "table_of_process_ok s"
  shows "handles {#pi_ticket iv#} s (on_invoke manifest root config env i iv s)"
proof (cases "ms_running s")
  case None
  let ?g = "ms_generation s + 1"
  show ?thesis
  proof (cases "start_plugin (ce_launch env) manifest root config ?g")
    case (Inl e)
    with None assms show ?thesis by (simp add: on_invoke_def handles_simps)
  next
    case (Inr p)
    let ?s = "s\<lparr>ms_generation := ?g, ms_running := Some p\<rparr>"
    have "table_of_process_ok ?s"
      using assms None start_plugin_generation [OF Inr] by (simp add: table_of_process_ok_def)
    then have "handles {#pi_ticket iv#} ?s (deliver_invoke env i iv ?s)"
      by (rule handles_deliver) simp
    then show ?thesis using None Inr handles_update by (simp add: on_invoke_def)
  qed
next
  case (Some p)
  with assms show ?thesis by (simp add: on_invoke_def handles_deliver)
qed

lemma handles_cancel:
  "table_of_process_ok s \<Longrightarrow> handles {#} s (on_cancel env i s)"
  by (auto simp: on_cancel_def handles_simps write_stdin_def split: option.splits)

lemma handles_kill: "table_of_process_ok s \<Longrightarrow> handles {#} s (on_kill env i s)"
  by (simp add: on_kill_def handles_shut_down handles_same)

lemma handles_command:
  "table_of_process_ok s \<Longrightarrow>
     handles (mset (command_tickets c)) s (on_command manifest root config env c s)"
  by (cases c) (simp_all add: handles_invoke handles_cancel handles_kill)

lemma handles_answer:
  assumes "table_of_process_ok s" and "map_of (ms_pending s) i = Some iv"
  shows "handles {#} s (answer iv r (pending_remove i s))"
  using assms pending_tickets_remove [of "ms_pending s" i iv]
  by (auto simp: handles_simps pending_remove_def distinct_filter_fst)

lemma handles_violation: "handles {#} s (protocol_violation env m s)"
  by (simp add: protocol_violation_def handles_shut_down)

lemma handles_response:
  "table_of_process_ok s \<Longrightarrow> handles {#} s (handle_response env m s)"
  by (cases m)
    (auto simp: handles_violation handles_answer handles_same fail_invocation_def split: option.splits)

lemma handles_event: "table_of_process_ok s \<Longrightarrow> handles {#} s (on_event env e s)"
  by (cases e) (auto simp: handles_response handles_shut_down handles_same)


lemma manager_inv_handles:
  assumes "handles T (s\<lparr>ms_commands := cs\<rparr>) s'" and "manager_inv capacity s"
    and "mset (queued_tickets s) = T + mset (concat (map command_tickets cs))" and "\<not> ms_stopped s"
  shows "manager_inv capacity s'"
proof -
  have "tickets_ok s'"
    using assms(1-3) by (simp add: manager_inv_def tickets_ok_def handles_def ticket_views ac_simps)
  then show ?thesis
    using assms by (auto simp: manager_inv_def quiet_after_stop_def handles_def)
qed

lemma manager_inv_frame:
  assumes "manager_inv capacity s"
  shows "manager_inv capacity (s\<lparr>ms_events := es\<rparr>)"
    and "ms_running s = Some p \<Longrightarrow> manager_inv capacity (s\<lparr>ms_running := Some (p\<lparr>rp_reading := b\<rparr>)\<rparr>)"
  using assms
  by (auto simp: manager_inv_def tickets_ok_def quiet_after_stop_def table_of_process_ok_def ticket_views)

lemma manager_inv_step:
  assumes "manager_inv capacity s" and "manager_step manifest root config s t"
  shows "manager_inv capacity t"
  using assms(2,1)
proof (cases rule: manager_step.cases)
  case (command c cs env)
  have ok: "table_of_process_ok (s\<lparr>ms_commands := cs\<rparr>)"
    using assms(1) by (simp add: manager_inv_def table_of_process_ok_def)
  show ?thesis
    using command manager_inv_handles [OF handles_command [OF ok] assms(1)] by (simp add: queued_tickets_def)
next
  case (process_event e es stop)
  let ?s = "s\<lparr>ms_events := es\<rparr>"
  have ok: "manager_inv capacity ?s" "table_of_process_ok ?s"
    using manager_inv_frame(1) [OF assms(1)] by (auto simp: manager_inv_def)
  have "handles {#} (?s\<lparr>ms_commands := ms_commands ?s\<rparr>) (on_event stop e ?s)"
    using handles_event [OF ok(2)] by simp
  from manager_inv_handles [OF this ok(1)] process_event show ?thesis by (simp add: queued_tickets_def)
next
  case (channel_closed stop)
  let ?t = "fail_all ''plugin supervisor stopped'' (stop_process stop s)"
  have "handles {#} (s\<lparr>ms_commands := ms_commands s\<rparr>) ?t"
    using handles_shut_down [of s] by simp
  from manager_inv_handles [OF this assms(1)] channel_closed have "manager_inv capacity ?t"
    by (simp add: queued_tickets_def)
  then show ?thesis
    using channel_closed
    by (auto simp: on_closed_def manager_inv_def tickets_ok_def quiet_after_stop_def table_of_process_ok_def
        ticket_views fail_all_eq)
next
  case (call now i tool arguments ctx)
  then show ?thesis using assms(1)
    by (auto simp: supervisor_invoke_def Let_def manager_inv_def tickets_ok_def quiet_after_stop_def
        table_of_process_ok_def ticket_views)
next
  case (reader_ends p r)
  then show ?thesis
    using manager_inv_frame(1) [OF manager_inv_frame(2) [OF assms(1)]] by simp
qed (auto simp: manager_inv_def tickets_ok_def quiet_after_stop_def table_of_process_ok_def ticket_views)

abbreviation capacity_of :: "plugin_manifest \<Rightarrow> nat" where
  "capacity_of manifest \<equiv> unat (pm_max_concurrency manifest)"

interpretation sup: step_invariant "\<lambda>s. s = PluginSupervisor_new manifest" "manager_step manifest root config"
  "manager_inv (capacity_of manifest)" for manifest root config
proof unfold_locales
  fix s assume "s = PluginSupervisor_new manifest"
  then show "manager_inv (capacity_of manifest) s"
    by (simp add: PluginSupervisor_new_def manager_inv_def tickets_ok_def quiet_after_stop_def
        table_of_process_ok_def ticket_views)
next
  fix s t assume "manager_inv (capacity_of manifest) s" "manager_step manifest root config s t"
  then show "manager_inv (capacity_of manifest) t" by (rule manager_inv_step)
qed


section \<open>Answers and permits\<close>

lemma answered_distinct:
  assumes "tickets_ok s"
  shows "distinct (answered_tickets s @ pending_tickets s @ queued_tickets s)"
    and "set (answered_tickets s @ pending_tickets s @ queued_tickets s) = {..<ms_tickets s}"
proof -
  have eq: "mset (answered_tickets s @ pending_tickets s @ queued_tickets s) = mset [0..<ms_tickets s]"
    using assms by (simp add: tickets_ok_def ac_simps)
  then show "distinct (answered_tickets s @ pending_tickets s @ queued_tickets s)"
    by (metis distinct_upt mset_eq_imp_distinct_iff)
  show "set (answered_tickets s @ pending_tickets s @ queued_tickets s) = {..<ms_tickets s}"
    using mset_eq_setD [OF eq] by (simp add: atLeast0LessThan)
qed

lemma permits_view:
  assumes "manager_inv capacity s"
  shows "ms_permits s + length (ms_pending s) + length (queued_tickets s) = capacity"
proof -
  have t: "tickets_ok s" using assms by (simp add: manager_inv_def)
  have "length (ms_answers s) + length (ms_pending s) + length (queued_tickets s) = ms_tickets s"
    using distinct_card [OF answered_distinct(1) [OF t]] answered_distinct(2) [OF t]
    by (simp add: answered_tickets_def pending_tickets_def)
  then show ?thesis using assms by (simp add: manager_inv_def)
qed

text \<open>
  (C16) Whatever the plugin process does (exits, stays silent, answers twice, answers calls it
  never got, breaks the protocol) and however calls, cancellations, timers and restarts
  interleave: every call handed to the supervisor is, at any moment, in exactly one of three places: queued,
  pending or answered, so it is answered at most once; queued and pending calls together with
  the free permits make up \<^verbatim>\<open>max_concurrency\<close>; no call is pending without a process; and once
  the manager has stopped, every call has been answered and every permit is back.
\<close>

theorem every_call_answered_once:
  assumes "reach (\<lambda>s. s = PluginSupervisor_new manifest) (manager_step manifest root config) s"
  shows "distinct (answered_tickets s @ pending_tickets s @ queued_tickets s) \<and>
    set (answered_tickets s @ pending_tickets s @ queued_tickets s) = {..<ms_tickets s} \<and>
    ms_permits s + length (ms_pending s) + length (queued_tickets s) = unat (pm_max_concurrency manifest) \<and>
    (ms_running s = None \<longrightarrow> ms_pending s = []) \<and>
    (ms_stopped s \<longrightarrow> set (answered_tickets s) = {..<ms_tickets s} \<and>
       ms_permits s = unat (pm_max_concurrency manifest))"
proof -
  note inv = sup.reach_inv [OF assms]
  have t: "tickets_ok s" and p: "table_of_process_ok s" and q: "quiet_after_stop s"
    using inv by (simp_all add: manager_inv_def)
  have "pending_tickets s = [] \<and> queued_tickets s = []" if "ms_stopped s"
    using q that by (simp add: quiet_after_stop_def pending_tickets_def queued_tickets_def)
  then show ?thesis
    using answered_distinct [OF t] permits_view [OF inv] p
    by (auto simp: table_of_process_ok_def pending_tickets_def)
qed

definition demo_context :: tool_context where
  "demo_context =
     \<lparr>tc_execution_id = ''e1'', tc_cwd = [RootDir], tc_env = [], tc_deadline = Some 5000000, tc_cancellation = None,
      tc_progress = \<lparr>pr_observer = None, pr_execution_id = ''e1'', pr_tool = ''example_echo''\<rparr>\<rparr>"

definition demo_launch :: launch where
  "demo_launch =
     \<lparr>la_spawn = (\<lambda>_. None), la_stdin = True, la_stdout = True, la_write = (\<lambda>_. None),
      la_hello = HelloFrame (Some (PR_HelloAck 1)), la_debug = (\<lambda>_. []), la_stderr = True\<rparr>"

definition demo_env :: command_env where
  "demo_env =
     \<lparr>ce_launch = demo_launch, ce_write = (\<lambda>_. None),
      ce_stop = \<lparr>se_written = True, se_exited = True, se_pid = True\<rparr>\<rparr>"

abbreviation demo_call :: "manager_state \<Rightarrow> manager_state" where
  "demo_call s \<equiv> supervisor_invoke 0 ''e1'' ''example_echo'' JNull demo_context s"

definition next_command :: "manager_state \<Rightarrow> manager_state" where
  "next_command s =
     on_command demo_manifest [RootDir] PluginRuntimeConfig_default demo_env (hd (ms_commands s))
       (s\<lparr>ms_commands := tl (ms_commands s)\<rparr>)"

lemmas demo_defs = demo_context_def demo_launch_def demo_env_def next_command_def
  PluginSupervisor_new_def supervisor_invoke_def on_invoke_def deliver_invoke_def pending_insert_def write_stdin_def
  start_plugin_def PLUGIN_PROTOCOL_VERSION_def on_cancel_def on_kill_def fail_all_eq stop_process_def
  answer_def pending_remove_def is_current_def plugin_error_def

abbreviation demo_step :: "manager_state \<Rightarrow> manager_state \<Rightarrow> bool" where
  "demo_step \<equiv> manager_step demo_manifest [RootDir] PluginRuntimeConfig_default"

lemma demo_next_command: "ms_commands s \<noteq> [] \<Longrightarrow> \<not> ms_stopped s \<Longrightarrow> demo_step s (next_command s)"
  using manager_step.command [of s "hd (ms_commands s)" "tl (ms_commands s)"] by (simp add: next_command_def)

definition demo_pending :: manager_state where
  "demo_pending = next_command (demo_call (PluginSupervisor_new demo_manifest))"

lemma demo_pending_reach: "reach (\<lambda>s. s = PluginSupervisor_new demo_manifest) demo_step demo_pending"
proof -
  let ?i = "PluginSupervisor_new demo_manifest"
  have "demo_step ?i (demo_call ?i)"
    by (rule manager_step.call) (simp_all add: PluginSupervisor_new_def demo_manifest_def)
  then have "reach (\<lambda>s. s = ?i) demo_step (demo_call ?i)"
    by (rule reach_step [OF reach_start, rotated]) simp
  moreover have "demo_step (demo_call ?i) demo_pending"
    unfolding demo_pending_def by (rule demo_next_command) (simp_all add: supervisor_invoke_def PluginSupervisor_new_def)
  ultimately show ?thesis by (rule reach_step)
qed

lemma demo_pending_view:
  "ms_pending demo_pending =
     [(''e1'', \<lparr>pi_tool = ''example_echo'', pi_arguments = JNull, pi_cwd = [RootDir], pi_timeout_ms = Some 5,
        pi_progress = tc_progress demo_context, pi_ticket = 0\<rparr>)]"
  by (simp add: demo_pending_def demo_defs remaining_ms_def saturating_u64_def)

theorem every_call_answered_once_witness:
  "pending_tickets demo_pending = [0] \<and> distinct (answered_tickets demo_pending @ pending_tickets demo_pending)"
  using every_call_answered_once [OF demo_pending_reach]
  by (simp add: pending_tickets_def demo_pending_view)


section \<open>Refinement of the specification of calls\<close>

text \<open>
  What a caller may rely on, without processes, generations, timers or queues: calls are numbered
  and open until answered; an answer, once given, stays.
\<close>

record call_spec =
  cs_issued :: nat
  cs_answers :: "nat \<rightharpoonup> execution_error + json"

inductive call_spec_step :: "call_spec \<Rightarrow> call_spec \<Rightarrow> bool" where
  issue: "call_spec_step a (a\<lparr>cs_issued := cs_issued a + 1\<rparr>)"
| reply:
    "dom f \<noteq> {} \<Longrightarrow> dom f \<subseteq> {..<cs_issued a} - dom (cs_answers a) \<Longrightarrow>
     call_spec_step a (a\<lparr>cs_answers := cs_answers a ++ f\<rparr>)"

definition calls_of :: "manager_state \<Rightarrow> call_spec" where
  "calls_of s = \<lparr>cs_issued = ms_tickets s, cs_answers = map_of (ms_answers s)\<rparr>"

text \<open>Answers appended to the log, for tickets that are not answered twice, are a reply.\<close>

lemma calls_of_prefix:
  assumes "prefix (ms_answers s) (ms_answers t)" and "ms_tickets t = ms_tickets s" and "tickets_ok t"
  shows "calls_of t = calls_of s \<or> call_spec_step (calls_of s) (calls_of t)"
proof -
  obtain new where new: "ms_answers t = ms_answers s @ new"
    using assms(1) by (auto simp: prefix_def)
  have d: "distinct (map fst (ms_answers s) @ map fst new)"
    and sub: "fst ` set new \<subseteq> {..<ms_tickets s}"
    using answered_distinct [OF assms(3)] assms(2) by (auto simp: answered_tickets_def new)
  then have disj: "dom (map_of (ms_answers s)) \<inter> dom (map_of new) = {}"
    by (simp add: dom_map_of_conv_image_fst)
  have eq: "calls_of t = (calls_of s)\<lparr>cs_answers := cs_answers (calls_of s) ++ map_of new\<rparr>"
    using assms(2) map_add_comm [OF disj] by (simp add: calls_of_def new)
  show ?thesis
  proof (cases "new = []")
    case True
    with eq show ?thesis by (simp add: calls_of_def)
  next
    case False
    have "call_spec_step (calls_of s) ((calls_of s)\<lparr>cs_answers := cs_answers (calls_of s) ++ map_of new\<rparr>)"
      using False sub disj by (intro reply) (auto simp: calls_of_def dom_map_of_conv_image_fst)
    with eq show ?thesis by simp
  qed
qed

lemma manager_step_answers:
  assumes "manager_inv capacity s" and "manager_step manifest root config s t"
  shows "prefix (ms_answers s) (ms_answers t) \<and> ms_tickets t = ms_tickets s \<or>
    ms_answers t = ms_answers s \<and> ms_tickets t = ms_tickets s + 1"
  using assms(2,1)
proof (cases rule: manager_step.cases)
  case (command c cs env)
  have "table_of_process_ok (s\<lparr>ms_commands := cs\<rparr>)"
    using assms(1) by (simp add: manager_inv_def table_of_process_ok_def)
  from handles_command [OF this, of c manifest root config env] command show ?thesis
    by (simp add: handles_def)
next
  case (process_event e es stop)
  have "table_of_process_ok (s\<lparr>ms_events := es\<rparr>)"
    using assms(1) by (simp add: manager_inv_def table_of_process_ok_def)
  from handles_event [OF this, of stop e] process_event show ?thesis
    by (simp add: handles_def)
qed (auto simp: on_closed_def fail_all_eq supervisor_invoke_def Let_def)

lemma manager_step_refines:
  assumes "manager_inv capacity s" and "manager_step manifest root config s t"
  shows "calls_of t = calls_of s \<or> call_spec_step (calls_of s) (calls_of t)"
proof -
  have t: "tickets_ok t"
    using manager_inv_step [OF assms] by (simp add: manager_inv_def)
  from manager_step_answers [OF assms] show ?thesis
  proof
    assume "prefix (ms_answers s) (ms_answers t) \<and> ms_tickets t = ms_tickets s"
    then show ?thesis using calls_of_prefix [OF _ _ t] by simp
  next
    assume "ms_answers t = ms_answers s \<and> ms_tickets t = ms_tickets s + 1"
    then show ?thesis using issue [of "calls_of s"] by (simp add: calls_of_def)
  qed
qed

interpretation calls: simulation "\<lambda>s. s = PluginSupervisor_new manifest" "manager_step manifest root config"
  "manager_inv (capacity_of manifest)" "\<lambda>a. a = \<lparr>cs_issued = 0, cs_answers = Map.empty\<rparr>" call_spec_step calls_of
  for manifest root config
proof unfold_locales
  fix s assume "reach (\<lambda>s. s = PluginSupervisor_new manifest) (manager_step manifest root config) s"
  then show "manager_inv (capacity_of manifest) s" by (rule sup.reach_inv)
next
  fix s assume "s = PluginSupervisor_new manifest"
  then show "calls_of s = \<lparr>cs_issued = 0, cs_answers = Map.empty\<rparr>"
    by (simp add: calls_of_def PluginSupervisor_new_def)
next
  fix s t assume "manager_inv (capacity_of manifest) s" "manager_step manifest root config s t"
  then show "calls_of t = calls_of s \<or> call_spec_step (calls_of s) (calls_of t)"
    by (rule manager_step_refines)
qed

text \<open>
  (C17) The supervisor refines the specification of calls: whatever step it takes from a reachable
  state is, seen by the callers, nothing, one more call, or answers to calls that were open, each
  answered for the first time; an answer is never changed or withdrawn.
\<close>

theorem supervisor_refines_calls:
  assumes "reach (\<lambda>s. s = PluginSupervisor_new manifest) (manager_step manifest root config) s"
    and "manager_step manifest root config s t"
  shows "(calls_of t = calls_of s \<or> call_spec_step (calls_of s) (calls_of t)) \<and>
    reach (\<lambda>a. a = \<lparr>cs_issued = 0, cs_answers = Map.empty\<rparr>) call_spec_step (calls_of t)"
  using calls.step_refines [OF assms] calls.reach_abst [OF reach_step [OF assms]] by simp

lemma demo_answer_step: "demo_step demo_pending (demo_pending\<lparr>ms_events := [PE_Message 1 (PR_Completed ''e1'' JNull)]\<rparr>)"
proof -
  have e: "ms_events demo_pending = []" by (simp add: demo_pending_def demo_defs)
  obtain p where p: "ms_running demo_pending = Some p" "rp_reading p" "rp_generation p = 1"
    by (simp add: demo_pending_def demo_defs)
  show ?thesis
    using manager_step.reader_message [OF p(1,2), of demo_manifest "[RootDir]" PluginRuntimeConfig_default "PR_Completed ''e1'' JNull"]
    by (simp add: reader_event_def p(3) e)
qed

theorem supervisor_refines_calls_witness:
  "reach (\<lambda>a. a = \<lparr>cs_issued = 0, cs_answers = Map.empty\<rparr>) call_spec_step
     (calls_of (demo_pending\<lparr>ms_events := [PE_Message 1 (PR_Completed ''e1'' JNull)]\<rparr>))"
  using supervisor_refines_calls [OF demo_pending_reach demo_answer_step] by simp

end
