(* ===== verification/SupervisorProtocol.thy ===== *)
theory SupervisorProtocol
  imports SupervisorCalls
begin

text \<open>
  The supervisor's dealings with the plugin process: what each response does, how a cancellation
  is followed up to the end of the process, and what a process is told.
\<close>

section \<open>Responses and cancellation\<close>

lemma map_of_filter_key: "map_of (filter (\<lambda>(j, _). j \<noteq> i) ps) = (map_of ps)(i := None)"
proof (induction ps)
  case (Cons a ps)
  then show ?case by (cases a) (auto simp: fun_upd_twist)
qed simp

lemma map_of_pending_remove: "map_of (ms_pending (pending_remove i s)) = (map_of (ms_pending s))(i := None)"
  by (simp add: pending_remove_def map_of_filter_key)

text \<open>A protocol violation: the process is gone, and every pending invocation is answered with an error.\<close>

definition violates :: "stop_env \<Rightarrow> 64 word \<Rightarrow> plugin_response \<Rightarrow> manager_state \<Rightarrow> bool" where
  "violates env g m s \<longleftrightarrow>
     (\<exists>message. ms_answers (on_event env (PE_Message g m) s) =
        ms_answers s @ map (\<lambda>p. (pi_ticket (snd p),
            Inl (ToolExecution (pi_tool (snd p)) (''plugin protocol violation: '' @ message)))) (ms_pending s)) \<and>
     ms_pending (on_event env (PE_Message g m) s) = [] \<and> ms_running (on_event env (PE_Message g m) s) = None"

text \<open>
  What a response of the plugin does. A response from a process that is not the current one is
  ignored. A completion or failure of a pending invocation answers that invocation with the
  content, or with the code and message, removes it from the table and leaves every other pending
  invocation and the process alone; progress is reported to the observer of that invocation only. Anything
  else (an unknown id, a second handshake or shutdown acknowledgement) stops the process and
  fails every pending invocation.
\<close>

theorem response_outcomes:
  "if \<not> is_current g s then on_event env (PE_Message g m) s = s
   else
     (case m of
        PR_Completed i content \<Rightarrow>
          (case map_of (ms_pending s) i of
             Some iv \<Rightarrow>
               ms_answers (on_event env (PE_Message g m) s) = ms_answers s @ [(pi_ticket iv, Inr content)] \<and>
               map_of (ms_pending (on_event env (PE_Message g m) s)) = (map_of (ms_pending s))(i := None) \<and>
               ms_running (on_event env (PE_Message g m) s) = ms_running s
           | None \<Rightarrow> violates env g m s)
      | PR_Failed i code message \<Rightarrow>
          (case map_of (ms_pending s) i of
             Some iv \<Rightarrow>
               ms_answers (on_event env (PE_Message g m) s) =
                 ms_answers s @ [(pi_ticket iv, Inl (ToolExecution (pi_tool iv) (code @ '': '' @ message)))] \<and>
               map_of (ms_pending (on_event env (PE_Message g m) s)) = (map_of (ms_pending s))(i := None) \<and>
               ms_running (on_event env (PE_Message g m) s) = ms_running s
           | None \<Rightarrow> violates env g m s)
      | PR_Progress i message data \<Rightarrow>
          (case map_of (ms_pending s) i of
             Some iv \<Rightarrow>
               on_event env (PE_Message g m) s =
                 s\<lparr>ms_observed := ms_observed s @
                     (if pr_observer (pi_progress iv) = None then []
                      else [EV_Progress (pr_execution_id (pi_progress iv)) (pr_tool (pi_progress iv)) message data])\<rparr>
           | None \<Rightarrow> violates env g m s)
      | _ \<Rightarrow> violates env g m s)"
proof (cases "is_current g s")
  case True
  note simps = True violates_def map_of_pending_remove ProgressReporter_emit_def notify_cases
    fail_invocation_def answer_def plugin_error_def protocol_violation_def fail_all_eq
  show ?thesis
    by (cases m) (simp_all add: simps split: option.splits, simp_all add: pending_remove_def)
qed simp

















text \<open>
  A kill command names an id, not an invocation. When an id is used again while the timer of its
  first use is still running, the timer ends the second invocation, which nobody cancelled.
\<close>

definition demo_cancelled :: manager_state where
  "demo_cancelled =
     next_command (demo_pending\<lparr>ms_commands := [MC_Cancel ''e1'']\<rparr>)"

definition demo_completed :: manager_state where
  "demo_completed = handle_response (ce_stop demo_env) (PR_Completed ''e1'' JNull) demo_cancelled"

definition demo_reused :: manager_state where
  "demo_reused = next_command (demo_call demo_completed)"

lemma stale_kill_ends_new_invocation:
  "ms_answers demo_reused = [(0, Inr JNull)] \<and> pending_tickets demo_reused = [1] \<and>
   ms_timers demo_reused = [''e1''] \<and> (1, ''e1'') \<in> set (ms_watchers demo_reused) \<and>
   ms_answers (on_kill demo_env ''e1'' demo_reused) =
     [(0, Inr JNull), (1, Inl (ToolExecution ''example_echo'' ''plugin ignored cancellation and was terminated''))]"
  by (simp add: demo_reused_def demo_completed_def demo_cancelled_def demo_pending_def demo_defs ticket_views)


section \<open>What a plugin process is told\<close>

text \<open>
  The protocol from the plugin's side: a greeting, then invocations and cancellations of
  invocations it has been given, and at most one farewell, at the end.
\<close>

fun spoken :: "string set \<Rightarrow> plugin_request list \<Rightarrow> bool" where
  "spoken ids [] \<longleftrightarrow> True"
| "spoken ids (PQ_Invoke i _ _ _ _ # ms) \<longleftrightarrow> spoken (insert i ids) ms"
| "spoken ids (PQ_Cancel i # ms) \<longleftrightarrow> i \<in> ids \<and> spoken ids ms"
| "spoken ids (PQ_Shutdown # ms) \<longleftrightarrow> ms = []"
| "spoken ids (PQ_Hello _ _ # ms) \<longleftrightarrow> False"

definition well_spoken :: "plugin_manifest \<Rightarrow> plugin_request list \<Rightarrow> bool" where
  "well_spoken manifest ms \<longleftrightarrow>
     (case ms of [] \<Rightarrow> False | m # ms' \<Rightarrow> m = PQ_Hello PLUGIN_PROTOCOL_VERSION (pm_id manifest) \<and> spoken {} ms')"

definition invoked_ids :: "plugin_request list \<Rightarrow> string set" where
  "invoked_ids ms = {i. \<exists>t a c d. PQ_Invoke i t a c d \<in> set ms}"

lemma spoken_append:
  "PQ_Shutdown \<notin> set ms \<Longrightarrow> spoken ids (ms @ ms') \<longleftrightarrow> spoken ids ms \<and> spoken (ids \<union> invoked_ids ms) ms'"
proof (induction ids ms rule: spoken.induct)
  case (2 ids i t a c d ms)
  have "invoked_ids (PQ_Invoke i t a c d # ms) = insert i (invoked_ids ms)" by (auto simp: invoked_ids_def)
  with 2 show ?case by simp
qed (auto simp: invoked_ids_def)

lemma well_spoken_append:
  assumes "well_spoken manifest ms" and "PQ_Shutdown \<notin> set ms"
  shows "well_spoken manifest (ms @ ms') \<longleftrightarrow> spoken (invoked_ids ms) ms'"
proof (cases ms)
  case (Cons m rest)
  moreover from this assms(1) have "invoked_ids ms = invoked_ids rest"
    by (auto simp: well_spoken_def invoked_ids_def)
  ultimately show ?thesis using assms by (simp add: well_spoken_def spoken_append)
qed (use assms in \<open>simp add: well_spoken_def\<close>)

definition frames_ok :: "plugin_manifest \<Rightarrow> manager_state \<Rightarrow> bool" where
  "frames_ok manifest s \<longleftrightarrow>
     (\<forall>p. ms_running s = Some p \<longrightarrow> well_spoken manifest (rp_stdin p) \<and> PQ_Shutdown \<notin> set (rp_stdin p) \<and>
        fst ` set (ms_pending s) \<subseteq> invoked_ids (rp_stdin p)) \<and>
     (\<forall>(p, k) \<in> set (ms_ended s). well_spoken manifest (rp_stdin p))"

lemma frames_ok_stop:
  "frames_ok manifest s \<Longrightarrow> frames_ok manifest (fail_all m (stop_process env s))"
  by (auto simp: frames_ok_def fail_all_eq stop_process_def well_spoken_append split: option.splits)

lemma frames_ok_fewer:
  assumes "frames_ok manifest s" and "ms_running t = ms_running s" and "ms_ended t = ms_ended s"
    and "set (ms_pending t) \<subseteq> set (ms_pending s)"
  shows "frames_ok manifest t"
  using assms unfolding frames_ok_def by (auto dest!: image_mono [where f = fst])

lemma frames_ok_write:
  assumes "frames_ok manifest s" and "ms_running s = Some p" and "spoken (invoked_ids (rp_stdin p)) [m]"
    and "m \<noteq> PQ_Shutdown"
  shows "frames_ok manifest (write_stdin m s)"
proof -
  have "invoked_ids (rp_stdin p) \<subseteq> invoked_ids (rp_stdin p @ [m])" by (auto simp: invoked_ids_def)
  with assms show ?thesis by (auto simp: frames_ok_def write_stdin_def well_spoken_append)
qed

lemma frames_ok_deliver:
  assumes "frames_ok manifest s" and "ms_running s = Some p"
  shows "frames_ok manifest (deliver_invoke env i iv s)"
proof (cases "ce_write env (invoke_request i iv)")
  case None
  let ?t = "write_stdin (invoke_request i iv) s"
  have w: "frames_ok manifest ?t"
    by (rule frames_ok_write [OF assms]) (simp_all add: invoke_request_def)
  obtain p' where p': "ms_running ?t = Some p'" and i: "i \<in> invoked_ids (rp_stdin p')"
    using assms(2) by (auto simp: write_stdin_def invoke_request_def invoked_ids_def)
  have "ms_running (pending_insert i iv ?t) = Some p'" "ms_ended (pending_insert i iv ?t) = ms_ended ?t"
    "set (ms_pending (pending_insert i iv ?t)) \<subseteq> insert (i, iv) (set (ms_pending ?t))"
    using p' by (auto simp: pending_insert_def fail_invocation_def answer_def split: option.splits)
  with w i p' have "frames_ok manifest (pending_insert i iv ?t)"
    unfolding frames_ok_def by fastforce
  with None show ?thesis by (simp add: deliver_invoke_def)
next
  case (Some e)
  have "frames_ok manifest (fail_invocation m iv s)" for m
    using assms(1) by (rule frames_ok_fewer) (simp_all add: fail_invocation_def answer_def)
  with Some show ?thesis by (simp add: deliver_invoke_def frames_ok_stop)
qed

lemma start_plugin_stdin:
  "start_plugin env manifest root config g = Inr p \<Longrightarrow> rp_stdin p = [PQ_Hello PLUGIN_PROTOCOL_VERSION (pm_id manifest)]"
  by (auto simp: start_plugin_def Let_def split: option.splits if_splits hello_outcome.splits)

lemma frames_ok_invoke:
  assumes "frames_ok manifest s" and "table_of_process_ok s"
  shows "frames_ok manifest (on_invoke manifest root config env i iv s)"
proof (cases "ms_running s")
  case None
  show ?thesis
  proof (cases "start_plugin (ce_launch env) manifest root config (ms_generation s + 1)")
    case (Inl e)
    with None assms(1) show ?thesis
      by (auto simp: on_invoke_def fail_invocation_def answer_def frames_ok_def)
  next
    case (Inr p)
    have "frames_ok manifest (s\<lparr>ms_generation := ms_generation s + 1, ms_running := Some p\<rparr>)"
      using assms None start_plugin_stdin [OF Inr]
      by (simp add: frames_ok_def table_of_process_ok_def well_spoken_def)
    from frames_ok_deliver [OF this] None Inr show ?thesis by (simp add: on_invoke_def)
  qed
qed (use assms in \<open>simp add: on_invoke_def frames_ok_deliver\<close>)


lemma frames_ok_cancel:
  assumes "frames_ok manifest s" and "table_of_process_ok s"
  shows "frames_ok manifest (on_cancel env i s)"
proof (cases "map_of (ms_pending s) i")
  case (Some iv)
  then have i: "i \<in> fst ` set (ms_pending s)" by (metis map_of_eq_None_iff option.distinct(1))
  with assms(2) obtain p where p: "ms_running s = Some p" by (cases "ms_running s") (auto simp: table_of_process_ok_def)
  with assms(1) i have "spoken (invoked_ids (rp_stdin p)) [PQ_Cancel i]" by (auto simp: frames_ok_def)
  from frames_ok_write [OF assms(1) p this] assms(1)
  have "frames_ok manifest (case ce_write env (PQ_Cancel i) of None \<Rightarrow> write_stdin (PQ_Cancel i) s | Some _ \<Rightarrow> s)"
    by (simp split: option.split)
  then have "frames_ok manifest ((case ce_write env (PQ_Cancel i) of None \<Rightarrow> write_stdin (PQ_Cancel i) s | Some _ \<Rightarrow> s)
      \<lparr>ms_timers := ms_timers s @ [i]\<rparr>)" by (rule frames_ok_fewer) simp_all
  with Some show ?thesis by (simp add: on_cancel_def)
qed (use assms in \<open>simp add: on_cancel_def\<close>)

lemma frames_ok_command:
  "frames_ok manifest s \<Longrightarrow> table_of_process_ok s \<Longrightarrow> frames_ok manifest (on_command manifest root config env c s)"
  by (cases c) (simp_all add: frames_ok_invoke frames_ok_cancel on_kill_def frames_ok_stop)

lemma frames_ok_response:
  assumes "frames_ok manifest s"
  shows "frames_ok manifest (handle_response env m s)"
proof -
  have fewer: "frames_ok manifest (answer iv r (pending_remove i s))"
    "frames_ok manifest (s\<lparr>ms_observed := evs\<rparr>)" for iv r i evs
    by (rule frames_ok_fewer [OF assms]; auto simp: answer_def pending_remove_def)+
  show ?thesis
    by (cases m) (auto simp: fewer fail_invocation_def protocol_violation_def frames_ok_stop [OF assms] split: option.splits)
qed

lemma frames_ok_event: "frames_ok manifest s \<Longrightarrow> frames_ok manifest (on_event env e s)"
  by (cases e) (simp_all add: frames_ok_response frames_ok_stop)

definition spoken_inv :: "plugin_manifest \<Rightarrow> manager_state \<Rightarrow> bool" where
  "spoken_inv manifest s \<longleftrightarrow> manager_inv (capacity_of manifest) s \<and> frames_ok manifest s"

lemma frames_ok_step:
  assumes "spoken_inv manifest s" and step: "manager_step manifest root config s t"
  shows "frames_ok manifest t"
proof -
  have f: "frames_ok manifest s" and ok: "table_of_process_ok s"
    using assms(1) by (simp_all add: spoken_inv_def manager_inv_def)
  from step show ?thesis
  proof (cases rule: manager_step.cases)
    case (command c cs env)
    have "frames_ok manifest (s\<lparr>ms_commands := cs\<rparr>)" by (rule frames_ok_fewer [OF f]) simp_all
    then show ?thesis
      using ok command(1) by (simp add: frames_ok_command table_of_process_ok_def)
  next
    case (process_event e es stop)
    have "frames_ok manifest (s\<lparr>ms_events := es\<rparr>)" by (rule frames_ok_fewer [OF f]) simp_all
    then show ?thesis using process_event(1) by (simp add: frames_ok_event)
  next
    case (channel_closed stop)
    show ?thesis unfolding channel_closed(1) on_closed_def
      by (rule frames_ok_fewer [OF frames_ok_stop [OF f, of "''plugin supervisor stopped''" stop]]) simp_all
  next
    case (reader_ends p r)
    with f show ?thesis by (simp add: frames_ok_def)
  qed (rule frames_ok_fewer [OF f]; simp add: supervisor_invoke_def)+
qed

interpretation speech: step_invariant "\<lambda>s. s = PluginSupervisor_new manifest" "manager_step manifest root config"
  "spoken_inv manifest" for manifest root config
proof unfold_locales
  fix s assume "s = PluginSupervisor_new manifest"
  then show "spoken_inv manifest s"
    using sup.inv_start [of s manifest] by (simp add: spoken_inv_def frames_ok_def PluginSupervisor_new_def)
next
  fix s t assume inv: "spoken_inv manifest s" and step: "manager_step manifest root config s t"
  then have "manager_inv (capacity_of manifest) s" by (simp add: spoken_inv_def)
  with step have "manager_inv (capacity_of manifest) t" by (rule manager_inv_step [rotated])
  with frames_ok_step [OF inv step] show "spoken_inv manifest t" by (simp add: spoken_inv_def)
qed

text \<open>
  (C19) Every process the supervisor has started is spoken to in the plugin protocol: the greeting
  with this protocol version and the package id first and once, then only invocations and
  cancellations of invocations that process was given before, and the shutdown request at most once
  and last.
\<close>

theorem plugin_protocol_spoken:
  assumes "reach (\<lambda>s. s = PluginSupervisor_new manifest) (manager_step manifest root config) s"
  shows "list_all (\<lambda>p. well_spoken manifest (rp_stdin p))
    (map fst (ms_ended s) @ (case ms_running s of None \<Rightarrow> [] | Some p \<Rightarrow> [p]))"
  using speech.reach_inv [OF assms] unfolding spoken_inv_def frames_ok_def list_all_iff
  by (auto split: option.splits)

theorem plugin_protocol_spoken_witness:
  "well_spoken demo_manifest (rp_stdin (the (ms_running demo_pending))) \<and>
   length (rp_stdin (the (ms_running demo_pending))) = 2"
proof -
  have "\<exists>p. ms_running demo_pending = Some p \<and> length (rp_stdin p) = 2"
    by (simp add: demo_pending_def demo_defs)
  with plugin_protocol_spoken [OF demo_pending_reach] show ?thesis by (auto simp: list_all_iff)
qed

end
