(* ===== verification/FileTree.thy ===== *)
theory FileTree
  imports FileShared
begin

text \<open>
  The part of \<^verbatim>\<open>std::fs\<close> that the plugin store uses, on a tree of files and directories held as
  an association list from paths to nodes. Each call that can fail consumes one entry of a list
  of faults, so every failure at every call is covered: a call fails without an effect, except
  that \<^verbatim>\<open>remove_dir_all\<close> may have removed any part of the tree before it failed. Links are opaque: what
  they lead to is outside the tree, and only its kind is known. No other process changes the
  tree meanwhile.
\<close>

section \<open>The tree\<close>

datatype stat_kind = IsFile | IsDir | IsOther

text \<open>Files and directories with their permission bits; a link with what it leads to, if anything.\<close>

datatype node = NFile string nat | NDir nat | NLink "(stat_kind \<times> nat) option" | NSpecial nat

datatype fault = Works | Fails fs_error "path \<Rightarrow> bool"

type_synonym nodes = "(path \<times> node) list"

record tree =
  tr_nodes :: nodes
  tr_faults :: "fault list"

definition node_at :: "tree \<Rightarrow> path \<Rightarrow> node option" where
  "node_at t p = map_of (tr_nodes t) p"

text \<open>\<^verbatim>\<open>Path::exists\<close>, \<^verbatim>\<open>is_dir\<close> and \<^verbatim>\<open>is_file\<close> follow a link.\<close>

fun follow :: "node \<Rightarrow> stat_kind option" where
  "follow (NFile _ _) = Some IsFile"
| "follow (NDir _) = Some IsDir"
| "follow (NLink k) = map_option fst k"
| "follow (NSpecial _) = Some IsOther"

definition stat_at :: "tree \<Rightarrow> path \<Rightarrow> stat_kind option" where
  "stat_at t p = Option.bind (node_at t p) follow"

definition exists_at :: "tree \<Rightarrow> path \<Rightarrow> bool" where
  "exists_at t p \<longleftrightarrow> stat_at t p \<noteq> None"

definition dir_at :: "tree \<Rightarrow> path \<Rightarrow> bool" where
  "dir_at t p \<longleftrightarrow> stat_at t p = Some IsDir"

definition file_at :: "tree \<Rightarrow> path \<Rightarrow> bool" where
  "file_at t p \<longleftrightarrow> stat_at t p = Some IsFile"

definition dir_names :: "nodes \<Rightarrow> path \<Rightarrow> string list" where
  "dir_names ns p =
     concat (map (\<lambda>(q, _). case q of [] \<Rightarrow> [] | _ \<Rightarrow>
        (case last q of Normal n \<Rightarrow> if butlast q = p then [n] else [] | _ \<Rightarrow> [])) ns)"


section \<open>Changes\<close>

definition put :: "path \<Rightarrow> node \<Rightarrow> nodes \<Rightarrow> nodes" where
  "put p n ns = (p, n) # filter (\<lambda>(q, _). q \<noteq> p) ns"

definition drop_node :: "path \<Rightarrow> nodes \<Rightarrow> nodes" where
  "drop_node p ns = filter (\<lambda>(q, _). q \<noteq> p) ns"

definition drop_below :: "path \<Rightarrow> nodes \<Rightarrow> nodes" where
  "drop_below p ns = filter (\<lambda>(q, _). \<not> prefix p q) ns"

definition relocate :: "path \<Rightarrow> path \<Rightarrow> path \<Rightarrow> path" where
  "relocate a b q = (if prefix a q then b @ drop (length a) q else q)"

definition move :: "path \<Rightarrow> path \<Rightarrow> nodes \<Rightarrow> nodes" where
  "move a b ns = map (\<lambda>(q, n). (relocate a b q, n)) (drop_below b ns)"

lemma map_of_filter_pred: "map_of (filter (\<lambda>(q, _). P q) ns) p = (if P p then map_of ns p else None)"
  by (induction ns) auto

lemma map_of_changes:
  "map_of (put p n ns) q = (if q = p then Some n else map_of ns q)"
  "map_of (drop_node p ns) q = (if q = p then None else map_of ns q)"
  "map_of (drop_below p ns) q = (if prefix p q then None else map_of ns q)"
  by (auto simp: put_def drop_node_def drop_below_def map_of_filter_pred)

text \<open>Moving a subtree to a place outside it: what is found where afterwards.\<close>

lemma map_of_move:
  assumes "\<not> prefix a b" and "\<not> prefix b a"
  shows "map_of (move a b ns) q =
    (if prefix b q then map_of ns (a @ drop (length b) q) else if prefix a q then None else map_of ns q)"
proof (induction ns)
  case (Cons x ns)
  obtain p n where x: "x = (p, n)" by fastforce
  have apart: "\<not> (prefix a r \<and> prefix b r)" for r using assms prefix_same_cases by blast
  show ?case
  proof (cases "prefix b p")
    case True
    then have "a @ drop (length b) q \<noteq> p" if "prefix b q" using apart [of p] by auto
    moreover have "q \<noteq> p" if "\<not> prefix b q" using True that by auto
    moreover have "move a b (x # ns) = move a b ns" using True by (simp add: move_def drop_below_def x)
    ultimately show ?thesis using Cons.IH by (simp add: x)
  next
    case False
    have m: "move a b ((p, n) # ns) = (relocate a b p, n) # move a b ns"
      using False by (simp add: move_def drop_below_def x)
    show ?thesis
    proof (cases "prefix a p")
      case True
      then obtain r where r: "p = a @ r" by (auto simp: prefix_def)
      have m': "move a b ((p, n) # ns) = (b @ r, n) # move a b ns" using m True r by (simp add: relocate_def)
      have "q = b @ r \<longleftrightarrow> prefix b q \<and> a @ drop (length b) q = p" by (auto simp: r prefix_def)
      moreover have "q \<noteq> p \<or> prefix a q" using True by auto
      ultimately show ?thesis unfolding x m' using Cons.IH by auto
    next
      case False2: False
      have "a @ drop (length b) q \<noteq> p" using False2 by auto
      then show ?thesis using Cons.IH False False2 unfolding x m by (auto simp: relocate_def)
    qed
  qed
qed (simp add: move_def drop_below_def)


section \<open>Calls\<close>

definition io_error_of :: "string \<Rightarrow> fs_error" where
  "io_error_of e = \<lparr>fe_not_found = False, fe_text = e\<rparr>"

definition not_found_error :: fs_error where
  "not_found_error = \<lparr>fe_not_found = True, fe_text = ''No such file or directory (os error 2)''\<rparr>"

definition take_fault :: "tree \<Rightarrow> fault \<times> tree" where
  "take_fault t =
     (case tr_faults t of [] \<Rightarrow> (Works, t) | f # fs \<Rightarrow> (f, t\<lparr>tr_faults := fs\<rparr>))"

text \<open>A failure of the system is never reported as a missing file.\<close>

definition fs_call :: "(nodes \<Rightarrow> fs_error + 'a \<times> nodes) \<Rightarrow> (tree, fs_error, 'a) io" where
  "fs_call f t =
     (case take_fault t of
        (Fails e _, t') \<Rightarrow> (Inl (e\<lparr>fe_not_found := False\<rparr>), t')
      | (Works, t') \<Rightarrow>
          (case f (tr_nodes t') of
             Inl e \<Rightarrow> (Inl e, t')
           | Inr (a, ns) \<Rightarrow> (Inr a, t'\<lparr>tr_nodes := ns\<rparr>)))"

definition is_dir_node :: "nodes \<Rightarrow> path \<Rightarrow> bool" where
  "is_dir_node ns p = (case map_of ns p of Some (NDir _) \<Rightarrow> True | _ \<Rightarrow> False)"

definition fs_create_dir :: "path \<Rightarrow> nodes \<Rightarrow> fs_error + unit \<times> nodes" where
  "fs_create_dir p ns =
     (if map_of ns p \<noteq> None then Inl (io_error_of ''File exists (os error 17)'')
      else if \<not> is_dir_node ns (butlast p) then Inl not_found_error
      else Inr ((), put p (NDir 0x1ED) ns))"

definition fs_create_dir_all :: "path \<Rightarrow> nodes \<Rightarrow> fs_error + unit \<times> nodes" where
  "fs_create_dir_all p ns =
     (let qs = filter (\<lambda>q. q \<noteq> []) (prefixes p) in
      if list_all (\<lambda>q. case map_of ns q of None \<Rightarrow> True | Some n \<Rightarrow> follow n = Some IsDir) qs
      then Inr ((), fold (\<lambda>q ns. if map_of ns q = None then put q (NDir 0x1ED) ns else ns) qs ns)
      else Inl (io_error_of ''Not a directory (os error 20)''))"

definition fs_create_file :: "path \<Rightarrow> nodes \<Rightarrow> fs_error + unit \<times> nodes" where
  "fs_create_file p ns =
     (if \<not> is_dir_node ns (butlast p) then Inl not_found_error
      else
        (case map_of ns p of
           None \<Rightarrow> Inr ((), put p (NFile [] 0x1A4) ns)
         | Some (NFile _ m) \<Rightarrow> Inr ((), put p (NFile [] m) ns)
         | Some (NDir _) \<Rightarrow> Inl (io_error_of ''Is a directory (os error 21)'')
         | Some _ \<Rightarrow> Inr ((), ns)))"

definition append_data :: "path \<Rightarrow> string \<Rightarrow> nodes \<Rightarrow> nodes" where
  "append_data p data ns =
     (case map_of ns p of Some (NFile c m) \<Rightarrow> put p (NFile (c @ data) m) ns | _ \<Rightarrow> ns)"

definition fs_write :: "path \<Rightarrow> string \<Rightarrow> nodes \<Rightarrow> fs_error + unit \<times> nodes" where
  "fs_write p data ns =
     bindE (fs_create_file p ns) (\<lambda>(_, ns). Inr ((), append_data p data ns))"

definition fs_read :: "path \<Rightarrow> nodes \<Rightarrow> fs_error + string \<times> nodes" where
  "fs_read p ns =
     (case map_of ns p of
        None \<Rightarrow> Inl not_found_error
      | Some (NFile c _) \<Rightarrow> Inr (c, ns)
      | Some (NDir _) \<Rightarrow> Inl (io_error_of ''Is a directory (os error 21)'')
      | Some _ \<Rightarrow> Inl (io_error_of ''outside the tree''))"

definition fs_read_to_string :: "path \<Rightarrow> nodes \<Rightarrow> fs_error + string \<times> nodes" where
  "fs_read_to_string p ns =
     bindE (fs_read p ns) (\<lambda>(c, ns).
       if valid_utf8 c then Inr (c, ns) else Inl (io_error_of ''stream did not contain valid UTF-8''))"

definition fs_rename :: "path \<Rightarrow> path \<Rightarrow> nodes \<Rightarrow> fs_error + unit \<times> nodes" where
  "fs_rename a b ns =
     (case map_of ns a of
        None \<Rightarrow> Inl not_found_error
      | Some n \<Rightarrow>
          if a = b then Inr ((), ns)
          else if \<not> is_dir_node ns (butlast b) then Inl not_found_error
          else if prefix a b then Inl (io_error_of ''Invalid argument (os error 22)'')
          else
            (case map_of ns b of
               None \<Rightarrow> Inr ((), move a b ns)
             | Some (NDir _) \<Rightarrow>
                 (case n of
                    NDir _ \<Rightarrow> if dir_names ns b = [] then Inr ((), move a b ns)
                              else Inl (io_error_of ''Directory not empty (os error 39)'')
                  | _ \<Rightarrow> Inl (io_error_of ''Is a directory (os error 21)''))
             | Some _ \<Rightarrow>
                 (case n of
                    NDir _ \<Rightarrow> Inl (io_error_of ''Not a directory (os error 20)'')
                  | _ \<Rightarrow> Inr ((), move a b ns))))"

definition fs_remove_file :: "path \<Rightarrow> nodes \<Rightarrow> fs_error + unit \<times> nodes" where
  "fs_remove_file p ns =
     (case map_of ns p of
        None \<Rightarrow> Inl not_found_error
      | Some (NDir _) \<Rightarrow> Inl (io_error_of ''Is a directory (os error 21)'')
      | Some _ \<Rightarrow> Inr ((), drop_node p ns))"

definition fs_remove_dir_all :: "path \<Rightarrow> (tree, fs_error, unit) io" where
  "fs_remove_dir_all p t =
     (case take_fault t of
        (Fails e part, t') \<Rightarrow>
          (Inl e, t'\<lparr>tr_nodes := filter (\<lambda>(q, _). \<not> (prefix p q \<and> part q)) (tr_nodes t')\<rparr>)
      | (Works, t') \<Rightarrow>
          (case map_of (tr_nodes t') p of
             None \<Rightarrow> (Inl not_found_error, t')
           | Some (NDir _) \<Rightarrow> (Inr (), t'\<lparr>tr_nodes := drop_below p (tr_nodes t')\<rparr>)
           | Some (NLink _) \<Rightarrow> (Inr (), t'\<lparr>tr_nodes := drop_node p (tr_nodes t')\<rparr>)
           | Some _ \<Rightarrow> (Inl (io_error_of ''Not a directory (os error 20)''), t')))"

definition fs_mode :: "path \<Rightarrow> nodes \<Rightarrow> fs_error + nat \<times> nodes" where
  "fs_mode p ns =
     (case map_of ns p of
        None \<Rightarrow> Inl not_found_error
      | Some (NFile _ m) \<Rightarrow> Inr (m, ns)
      | Some (NDir m) \<Rightarrow> Inr (m, ns)
      | Some (NSpecial m) \<Rightarrow> Inr (m, ns)
      | Some (NLink None) \<Rightarrow> Inl not_found_error
      | Some (NLink (Some (_, m))) \<Rightarrow> Inr (m, ns))"

definition fs_set_mode :: "path \<Rightarrow> nat \<Rightarrow> nodes \<Rightarrow> fs_error + unit \<times> nodes" where
  "fs_set_mode p m ns =
     (case map_of ns p of
        None \<Rightarrow> Inl not_found_error
      | Some (NFile c _) \<Rightarrow> Inr ((), put p (NFile c m) ns)
      | Some (NDir _) \<Rightarrow> Inr ((), put p (NDir m) ns)
      | Some (NSpecial _) \<Rightarrow> Inr ((), put p (NSpecial m) ns)
      | Some (NLink None) \<Rightarrow> Inl not_found_error
      | Some (NLink (Some _)) \<Rightarrow> Inr ((), ns))"

definition fs_read_dir :: "path \<Rightarrow> nodes \<Rightarrow> fs_error + string list \<times> nodes" where
  "fs_read_dir p ns =
     (case map_of ns p of
        None \<Rightarrow> Inl not_found_error
      | Some (NDir _) \<Rightarrow> Inr (dir_names ns p, ns)
      | Some _ \<Rightarrow> Inl (io_error_of ''Not a directory (os error 20)''))"

text \<open>\<^verbatim>\<open>fs::symlink_metadata\<close>: the node itself.\<close>

definition fs_lstat :: "path \<Rightarrow> nodes \<Rightarrow> fs_error + node \<times> nodes" where
  "fs_lstat p ns = bindE (ok_or not_found_error (map_of ns p)) (\<lambda>n. Inr (n, ns))"


section \<open>Frames\<close>

text \<open>
  A computation that only touches a set of places: everywhere else it finds and leaves the same
  node.
\<close>

definition touches :: "(path \<Rightarrow> bool) \<Rightarrow> (tree, 'e, 'a) io \<Rightarrow> bool" where
  "touches P m \<longleftrightarrow> (\<forall>t p. \<not> P p \<longrightarrow> node_at (snd (m t)) p = node_at t p)"

lemma touchesD: "touches P m \<Longrightarrow> m t = (r, t') \<Longrightarrow> \<not> P p \<Longrightarrow> node_at t' p = node_at t p"
  by (metis snd_conv touches_def)

lemma touches_bind: "touches P m \<Longrightarrow> (\<And>a. touches P (f a)) \<Longrightarrow> touches P (bindI m f)"
  by (simp add: touches_def bindI_def split: prod.splits sum.splits) (metis snd_conv)

lemma touches_pure:
  "touches P (retI a)" "touches P (failI e)" "touches P (liftE r)" "touches P (readI g)"
  by (simp_all add: touches_def retI_def failI_def liftE_def readI_def)

lemma touches_mono: "touches P m \<Longrightarrow> (\<And>p. P p \<Longrightarrow> Q p) \<Longrightarrow> touches Q m"
  unfolding touches_def by blast

lemma touches_if: "(b \<Longrightarrow> touches P m) \<Longrightarrow> (\<not> b \<Longrightarrow> touches P m') \<Longrightarrow> touches P (if b then m else m')"
  by simp

lemma touches_fs_call:
  assumes "\<And>ns a ns' p. f ns = Inr (a, ns') \<Longrightarrow> \<not> P p \<Longrightarrow> map_of ns' p = map_of ns p"
  shows "touches P (fs_call f)"
  using assms
  by (auto simp: touches_def fs_call_def take_fault_def node_at_def split: list.splits fault.splits sum.splits)

lemma touches_reads:
  "touches P (fs_call (fs_read p))" "touches P (fs_call (fs_read_to_string p))"
  "touches P (fs_call (fs_mode p))" "touches P (fs_call (fs_read_dir p))" "touches P (fs_call (fs_lstat p))"
  by (rule touches_fs_call;
      auto simp: fs_read_def fs_read_to_string_def fs_mode_def fs_read_dir_def fs_lstat_def result_simps
        split: option.splits node.splits if_splits)+

lemma map_of_append_data: "q \<noteq> p \<Longrightarrow> map_of (append_data p data ns) q = map_of ns q"
  by (auto simp: append_data_def map_of_changes split: option.splits node.splits)

lemma map_of_create_file: "fs_create_file p ns = Inr (a, ns') \<Longrightarrow> q \<noteq> p \<Longrightarrow> map_of ns' q = map_of ns q"
  by (auto simp: fs_create_file_def map_of_changes split: option.splits node.splits if_splits)

lemma touches_writes:
  "touches ((=) p) (fs_call (fs_create_dir p))" "touches ((=) p) (fs_call (fs_create_file p))"
  "touches ((=) p) (fs_call (fs_remove_file p))" "touches ((=) p) (fs_call (fs_set_mode p m))"
  by (rule touches_fs_call;
      auto simp: fs_create_dir_def map_of_create_file fs_remove_file_def fs_set_mode_def map_of_changes
        split: option.splits node.splits if_splits)+

lemma touches_write: "touches ((=) p) (fs_call (fs_write p data))"
  by (rule touches_fs_call)
    (auto simp: fs_write_def result_simps map_of_append_data map_of_create_file)

lemma fold_create_dirs:
  "map_of (fold (\<lambda>q ns. if map_of ns q = None then put q n ns else ns) qs ns) p =
     (if p \<in> set qs \<and> map_of ns p = None then Some n else map_of ns p)"
  by (induction qs arbitrary: ns) (auto simp: map_of_changes)

lemma touches_create_dir_all: "touches (\<lambda>q. prefix q p) (fs_call (fs_create_dir_all p))"
  by (rule touches_fs_call)
    (auto simp: fs_create_dir_all_def Let_def fold_create_dirs in_set_prefixes split: if_splits)

lemma touches_remove_dir_all: "touches (prefix p) (fs_remove_dir_all p)"
  by (auto simp: touches_def fs_remove_dir_all_def take_fault_def node_at_def map_of_changes
      map_of_filter_pred split: list.splits fault.splits option.splits node.splits)

lemma map_of_move_frame: "\<not> prefix a q \<Longrightarrow> \<not> prefix b q \<Longrightarrow> map_of (move a b ns) q = map_of ns q"
  by (induction ns) (auto simp: move_def drop_below_def relocate_def)

lemma touches_rename: "touches (\<lambda>q. prefix a q \<or> prefix b q) (fs_call (fs_rename a b))"
  by (rule touches_fs_call)
    (auto simp: fs_rename_def map_of_move_frame split: option.splits node.splits if_splits)

end
