(* ===== verification/Package.thy ===== *)
theory Package
  imports Manifest FileTree
begin

text \<open>
  The plugin store (\<^verbatim>\<open>executor-plugin/src/package.rs\<close>): unpacking and validating a package,
  installing, enabling, disabling, removing and discovering plugins, on the tree of theory
  \<open>FileTree\<close>. What the decompressor and the archive reader yield is the value \<open>archive\<close>; the
  semantic-version parser, the schema compiler and \<^verbatim>\<open>serde_json\<close> are the fields of \<open>manifest_deps\<close>. The process
  id and the clock readings that name scratch directories are arguments.
\<close>

section \<open>Data\<close>

record manifest_deps =
  mdep_version :: "string \<Rightarrow> string option"
  mdep_validator :: "json \<Rightarrow> string + validator"
  mdep_from_str :: "string \<Rightarrow> string + plugin_manifest"

definition parse_manifest :: "manifest_deps \<Rightarrow> string \<Rightarrow> string + plugin_manifest" where
  "parse_manifest deps = manifest_parse (mdep_version deps) (mdep_validator deps) (mdep_from_str deps)"

record installed_plugin =
  ip_manifest :: plugin_manifest
  ip_path :: path
  ip_enabled :: bool
  ip_missing_commands :: "string list"

datatype store_error =
    SE_Io fs_error
  | SE_Invalid string
  | SE_Exists string
  | SE_NotFound string

fun store_error_text :: "store_error \<Rightarrow> string" where
  "store_error_text (SE_Io e) = ''plugin store I/O failed: '' @ fe_text e"
| "store_error_text (SE_Invalid m) = ''invalid plugin package: '' @ m"
| "store_error_text (SE_Exists i) = ''plugin `'' @ i @ ''` is already installed (use --replace)''"
| "store_error_text (SE_NotFound i) = ''plugin `'' @ i @ ''` is not installed''"

text \<open>An entry of an archive: its data, and the error that ends reading it, if any.\<close>

datatype entry_kind = EntryFile | EntryDir | EntryOther

record tar_entry =
  te_kind :: entry_kind
  te_path :: "fs_error + string"
  te_data :: string
  te_error :: "fs_error option"

type_synonym archive = "fs_error + (fs_error + tar_entry) list"

type_synonym 'a store = "(tree, store_error, 'a) io"

text \<open>A call of the file system whose error is passed on with \<^verbatim>\<open>?\<close>.\<close>

definition fs :: "(tree, fs_error, 'a) io \<Rightarrow> 'a store" where
  "fs m t = (case m t of (r, t') \<Rightarrow> (map_err SE_Io r, t'))"

text \<open>A call whose outcome the code looks at, or ignores.\<close>

definition try_fs :: "(tree, fs_error, 'a) io \<Rightarrow> (fs_error + 'a) store" where
  "try_fs m t = (case m t of (r, t') \<Rightarrow> (Inr r, t'))"


section \<open>Packages\<close>

definition safe_relative :: "string \<Rightarrow> bool" where
  "safe_relative p \<longleftrightarrow> p \<noteq> [] \<and> list_all is_plain (path_components p)"

text \<open>The checks every entry goes through, for validation and for unpacking alike.\<close>

definition entry_path :: "tar_entry \<Rightarrow> store_error + string" where
  "entry_path entry =
     (if te_kind entry = EntryOther then Inl (SE_Invalid ''links and special archive entries are forbidden'')
      else
        bindE (map_err SE_Io (te_path entry)) (\<lambda>p.
          if \<not> safe_relative p then Inl (SE_Invalid (''unsafe archive path `'' @ p @ ''`'')) else Inr p))"

text \<open>\<^verbatim>\<open>entry.take(n).read_to_string\<close>: an error beyond the first \<open>n\<close> bytes is not seen.\<close>

definition read_entry :: "nat \<Rightarrow> tar_entry \<Rightarrow> store_error + string" where
  "read_entry n entry =
     (let raw = take n (te_data entry) in
      case (if length (te_data entry) < n then te_error entry else None) of
        Some e \<Rightarrow> Inl (SE_Io e)
      | None \<Rightarrow> if valid_utf8 raw then Inr raw else Inl (SE_Io (io_error_of ''stream did not contain valid UTF-8'')))"

definition is_tool_json :: "tar_entry \<Rightarrow> string \<Rightarrow> bool" where
  "is_tool_json entry p \<longleftrightarrow>
     te_kind entry = EntryFile \<and>
     (case strip_prefix (path_components p) [CurDir] of Some q \<Rightarrow> q | None \<Rightarrow> path_components p) =
       path_components ''tool.json''"

fun validate_entries ::
  "manifest_deps \<Rightarrow> (fs_error + tar_entry) list \<Rightarrow> plugin_manifest option \<Rightarrow> store_error + plugin_manifest option"
where
  "validate_entries deps [] manifest = Inr manifest"
| "validate_entries deps (Inl e # items) manifest = Inl (SE_Io e)"
| "validate_entries deps (Inr entry # items) manifest =
     bindE (entry_path entry) (\<lambda>p.
       if is_tool_json entry p then
         bindE (read_entry 1048577 entry) (\<lambda>raw.
           if 1048576 < length raw then Inl (SE_Invalid ''tool.json exceeds 1 MiB'')
           else bindE (map_err SE_Invalid (parse_manifest deps raw)) (\<lambda>m. validate_entries deps items (Some m)))
       else validate_entries deps items manifest)"

definition validate_package :: "manifest_deps \<Rightarrow> archive \<Rightarrow> store_error + plugin_manifest" where
  "validate_package deps archive =
     bindE (map_err SE_Io archive) (\<lambda>items.
     bindE (validate_entries deps items None) (\<lambda>manifest.
       ok_or (SE_Invalid ''tool.json is missing'') manifest))"

text \<open>\<^verbatim>\<open>io::copy\<close> into the file just created: a read error leaves what was copied before it.\<close>

definition copy_entry :: "tar_entry \<Rightarrow> path \<Rightarrow> (tree, fs_error, unit) io" where
  "copy_entry entry output t =
     (case take_fault t of
        (Fails e _, t') \<Rightarrow> (Inl e, t')
      | (Works, t') \<Rightarrow>
          (case te_error entry of None \<Rightarrow> Inr () | Some e \<Rightarrow> Inl e,
           t'\<lparr>tr_nodes := append_data output (te_data entry) (tr_nodes t')\<rparr>))"

definition unpack_file :: "tar_entry \<Rightarrow> path \<Rightarrow> unit store" where
  "unpack_file entry output =
     bindI (case path_parent output of
              Some parent \<Rightarrow> fs (fs_call (fs_create_dir_all parent)) | None \<Rightarrow> retI ()) (\<lambda>_.
     bindI (fs (fs_call (fs_create_file output))) (\<lambda>_. fs (copy_entry entry output)))"

fun unpack_entries :: "path \<Rightarrow> (fs_error + tar_entry) list \<Rightarrow> unit store" where
  "unpack_entries destination [] = retI ()"
| "unpack_entries destination (Inl e # items) = failI (SE_Io e)"
| "unpack_entries destination (Inr entry # items) =
     bindI (liftE (entry_path entry)) (\<lambda>p.
       let output = path_join destination (path_components p) in
       bindI (if te_kind entry = EntryDir then fs (fs_call (fs_create_dir_all output)) else unpack_file entry output) (\<lambda>_.
         unpack_entries destination items))"

definition unpack :: "archive \<Rightarrow> path \<Rightarrow> unit store" where
  "unpack archive destination =
     bindI (liftE (map_err SE_Io archive)) (unpack_entries destination)"


section \<open>Installed plugins\<close>

definition tool_json :: path where
  "tool_json = path_components ''tool.json''"

definition read_manifest :: "manifest_deps \<Rightarrow> path \<Rightarrow> plugin_manifest store" where
  "read_manifest deps directory =
     bindI (fs (fs_call (fs_read_to_string (path_join directory tool_json)))) (\<lambda>raw.
       liftE (map_err SE_Invalid (parse_manifest deps raw)))"

definition entrypoint_path :: "plugin_manifest \<Rightarrow> path" where
  "entrypoint_path m = path_components (hd (pm_entrypoint m))"

text \<open>\<open>path_var\<close> is the variable \<^verbatim>\<open>PATH\<close>.\<close>

definition command_exists :: "string option \<Rightarrow> tree \<Rightarrow> string \<Rightarrow> bool" where
  "command_exists path_var t command =
     (if CHR ''/'' \<in> set command then file_at t (path_components command)
      else
        (case path_var of
           None \<Rightarrow> False
         | Some paths \<Rightarrow>
             list_ex (\<lambda>d. file_at t (path_join (path_components d) (path_components command)))
               (split_on CHR '':'' paths)))"

definition required_commands_of :: "plugin_manifest \<Rightarrow> string list" where
  "required_commands_of m =
     remdups_adj (sort (pm_required_commands m @ (if entrypoint_is_local m then [] else [hd (pm_entrypoint m)])))"

definition load_installed :: "manifest_deps \<Rightarrow> string option \<Rightarrow> path \<Rightarrow> installed_plugin store" where
  "load_installed deps path_var p =
     bindI (read_manifest deps p) (\<lambda>m.
       if file_name p \<noteq> Some (pm_id m) then failI (SE_Invalid ''directory name does not match plugin id'')
       else readI (\<lambda>t.
         if entrypoint_is_local m \<and> \<not> file_at t (path_join p (entrypoint_path m))
         then Inl (SE_Invalid ''local entrypoint does not exist'')
         else Inr \<lparr>ip_manifest = m, ip_path = p, ip_enabled = \<not> exists_at t (path_join p (path_components ''.disabled'')),
                   ip_missing_commands = filter (\<lambda>c. \<not> command_exists path_var t c) (required_commands_of m)\<rparr>))"

text \<open>The bits \<^verbatim>\<open>0o700\<close> are set, the others kept.\<close>

definition make_local_entrypoint_executable :: "path \<Rightarrow> plugin_manifest \<Rightarrow> unit store" where
  "make_local_entrypoint_executable root m =
     (if entrypoint_is_local m then
        let p = path_join root (entrypoint_path m) in
        bindI (fs (fs_call (fs_mode p))) (\<lambda>mode. fs (fs_call (fs_set_mode p (or mode 0x1C0))))
      else retI ())"

definition fake_manifest :: "string \<Rightarrow> string" where
  \<open>fake_manifest i =
     ''{"schema_version":1,"id":"'' @ i @
     ''","version":"0.0.0","entrypoint":["x"],"tools":[{"name":"x","description":"x","input_schema":{}}]}''\<close>

definition validate_id :: "manifest_deps \<Rightarrow> string \<Rightarrow> store_error + unit" where
  "validate_id deps i =
     map_err SE_Invalid (bindE (parse_manifest deps (fake_manifest i)) (\<lambda>_. Inr ()))"


section \<open>Operations of the store\<close>

definition scratch_name :: "string \<Rightarrow> nat \<Rightarrow> nat \<Rightarrow> string" where
  "scratch_name kind pid nonce = CHR ''.'' # kind @ ''-'' @ show_nat pid @ ''-'' @ show_nat nonce"

definition scratch :: "path \<Rightarrow> string \<Rightarrow> nat \<Rightarrow> nat \<Rightarrow> path" where
  "scratch root kind pid nonce = path_join root (path_components (scratch_name kind pid nonce))"

text \<open>The part of \<^verbatim>\<open>install\<close> up to the check for an installed plugin of the same id.\<close>

definition install_prepare :: "manifest_deps \<Rightarrow> archive \<Rightarrow> path \<Rightarrow> path \<Rightarrow> bool \<Rightarrow> plugin_manifest store" where
  "install_prepare deps archive root staging replace =
     bindI (unpack archive staging) (\<lambda>_.
     bindI (read_manifest deps staging) (\<lambda>m.
     bindI (make_local_entrypoint_executable staging m) (\<lambda>_.
       readI (\<lambda>t.
         if exists_at t (path_join root (path_components (pm_id m))) \<and> \<not> replace
         then Inl (SE_Exists (pm_id m)) else Inr m))))"

definition install_commit :: "path \<Rightarrow> path \<Rightarrow> path \<Rightarrow> unit store" where
  "install_commit staging destination backup t =
     (if exists_at t destination then
        bindI (fs (fs_call (fs_rename destination backup))) (\<lambda>_.
        bindI (try_fs (fs_call (fs_rename staging destination))) (\<lambda>r.
          case r of
            Inl e \<Rightarrow> bindI (try_fs (fs_call (fs_rename backup destination))) (\<lambda>_. failI (SE_Io e))
          | Inr _ \<Rightarrow> fs (fs_remove_dir_all backup)))
      else fs (fs_call (fs_rename staging destination))) t"

definition install_staged ::
  "manifest_deps \<Rightarrow> string option \<Rightarrow> archive \<Rightarrow> path \<Rightarrow> path \<Rightarrow> path \<Rightarrow> bool \<Rightarrow> installed_plugin store"
where
  "install_staged deps path_var archive root staging backup replace =
     bindI (install_prepare deps archive root staging replace) (\<lambda>m.
       let destination = path_join root (path_components (pm_id m)) in
       bindI (install_commit staging destination backup) (\<lambda>_. load_installed deps path_var destination))"

definition install ::
  "manifest_deps \<Rightarrow> string option \<Rightarrow> nat \<Rightarrow> nat \<Rightarrow> nat \<Rightarrow> path \<Rightarrow> archive \<Rightarrow> bool \<Rightarrow> installed_plugin store"
where
  "install deps path_var pid n1 n2 root archive replace =
     (let staging = scratch root ''install'' pid n1; backup = scratch root ''backup'' pid n2 in
      bindI (fs (fs_call (fs_create_dir_all root))) (\<lambda>_.
      bindI (fs (fs_call (fs_create_dir staging))) (\<lambda>_ t.
        (case install_staged deps path_var archive root staging backup replace t of
           (result, t') \<Rightarrow>
             (result, if exists_at t' staging then snd (fs_remove_dir_all staging t') else t')))))"

definition set_marker :: "path \<Rightarrow> bool \<Rightarrow> unit store" where
  "set_marker marker enabled =
     (if enabled then
        bindI (try_fs (fs_call (fs_remove_file marker))) (\<lambda>r.
          case r of Inr _ \<Rightarrow> retI () | Inl e \<Rightarrow> if fe_not_found e then retI () else failI (SE_Io e))
      else fs (fs_call (fs_write marker (''disabled by ate'' @ [CHR 0x0A]))))"

definition set_enabled :: "manifest_deps \<Rightarrow> path \<Rightarrow> string \<Rightarrow> bool \<Rightarrow> unit store" where
  "set_enabled deps root i enabled =
     bindI (liftE (validate_id deps i)) (\<lambda>_ t.
       (let p = path_join root (path_components i) in
        if \<not> dir_at t p then failI (SE_NotFound i)
        else set_marker (path_join p (path_components ''.disabled'')) enabled) t)"

definition remove_plugin :: "manifest_deps \<Rightarrow> nat \<Rightarrow> nat \<Rightarrow> path \<Rightarrow> string \<Rightarrow> unit store" where
  "remove_plugin deps pid nonce root i =
     bindI (liftE (validate_id deps i)) (\<lambda>_ t.
       (let p = path_join root (path_components i); removed = scratch root ''removed'' pid nonce in
        if \<not> dir_at t p then failI (SE_NotFound i)
        else
          bindI (fs (fs_call (fs_rename p removed))) (\<lambda>_. fs (fs_remove_dir_all removed))) t)"

fun discover_entries ::
  "manifest_deps \<Rightarrow> string option \<Rightarrow> path \<Rightarrow> string list \<Rightarrow> (installed_plugin list \<times> string list) store"
where
  "discover_entries deps path_var root [] = retI ([], [])"
| "discover_entries deps path_var root (name # names) =
     (\<lambda>t. (let p = path_join root (path_components name) in
       if \<not> dir_at t p \<or> prefix ''.'' name then discover_entries deps path_var root names
       else (\<lambda>t. case load_installed deps path_var p t of
               (r, t') \<Rightarrow>
                 bindI (discover_entries deps path_var root names) (\<lambda>(plugins, diagnostics).
                   case r of
                     Inr plugin \<Rightarrow> retI (plugin # plugins, diagnostics)
                   | Inl e \<Rightarrow> retI (plugins, (path_display p @ '': '' @ store_error_text e) # diagnostics)) t')) t)"

definition discover ::
  "manifest_deps \<Rightarrow> string option \<Rightarrow> path \<Rightarrow> (installed_plugin list \<times> string list) store"
where
  "discover deps path_var root t =
     (if \<not> exists_at t root then retI ([], [])
      else
        bindI (fs (fs_call (fs_read_dir root))) (\<lambda>entries.
          discover_entries deps path_var root (sort entries))) t"


section \<open>Unpacking stays below its destination\<close>

lemma touches_fs: "touches P m \<Longrightarrow> touches P (fs m)" "touches P m \<Longrightarrow> touches P (try_fs m)"
  by (auto simp: touches_def fs_def try_fs_def split: prod.splits) (metis snd_conv)+

text \<open>
  A computation confined to a directory: elsewhere it changes nothing, except that it may
  create missing ancestors of the directory.
\<close>

definition confined :: "path \<Rightarrow> (tree, 'e, 'a) io \<Rightarrow> bool" where
  "confined d m \<longleftrightarrow>
     (\<forall>t q. prefix d q \<or> (q \<noteq> [] \<and> prefix q d \<and> node_at t q = None) \<or> node_at (snd (m t)) q = node_at t q)"

lemma confinedD:
  "confined d m \<Longrightarrow> m t = (r, t') \<Longrightarrow> \<not> prefix d q \<Longrightarrow> q = [] \<or> \<not> prefix q d \<or> node_at t q \<noteq> None \<Longrightarrow>
     node_at t' q = node_at t q"
  by (metis confined_def snd_conv)

lemma confined_bind:
  assumes "confined d m" and "\<And>a. confined d (f a)"
  shows "confined d (bindI m f)"
  unfolding confined_def
proof (intro allI)
  fix t q
  obtain r t1 where m: "m t = (r, t1)" by fastforce
  have 1: "prefix d q \<or> q \<noteq> [] \<and> prefix q d \<and> node_at t q = None \<or> node_at t1 q = node_at t q"
    using assms(1) m unfolding confined_def by (metis snd_conv)
  show "prefix d q \<or> q \<noteq> [] \<and> prefix q d \<and> node_at t q = None \<or> node_at (snd (bindI m f t)) q = node_at t q"
  proof (cases r)
    case (Inr a)
    with m have "bindI m f t = f a t1" by (simp add: bindI_def)
    moreover have "prefix d q \<or> q \<noteq> [] \<and> prefix q d \<and> node_at t1 q = None \<or> node_at (snd (f a t1)) q = node_at t1 q"
      using assms(2) unfolding confined_def by blast
    ultimately show ?thesis using 1 by metis
  qed (use 1 m in \<open>simp add: bindI_def\<close>)
qed

lemma confined_touches: "touches (prefix d) m \<Longrightarrow> confined d m"
  by (auto simp: confined_def touches_def)

lemma confined_pure: "confined d (retI a)" "confined d (failI e)" "confined d (liftE r)"
  by (simp_all add: confined_def retI_def failI_def liftE_def)

lemma confined_fs: "confined d m \<Longrightarrow> confined d (fs m)"
  unfolding confined_def fs_def by (metis (no_types, lifting) case_prod_beta snd_conv)

lemma confined_create_dir_all:
  assumes "prefix d p \<or> prefix p d"
  shows "confined d (fs_call (fs_create_dir_all p))"
proof -
  have "prefix d q \<or> prefix q d" if "prefix q p" for q
    using assms that by (meson prefix_order.trans prefix_same_cases)
  then show ?thesis
    by (auto simp: confined_def fs_call_def take_fault_def node_at_def fs_create_dir_all_def Let_def fold_create_dirs
        in_set_prefixes split: list.splits fault.splits sum.splits if_splits)
qed

lemma confined_copy: "prefix d p \<Longrightarrow> confined d (copy_entry entry p)"
  by (rule confined_touches)
    (auto simp: touches_def copy_entry_def take_fault_def node_at_def map_of_append_data split: list.splits fault.splits)

lemma safe_relative_join:
  assumes "safe_relative p" and "d \<noteq> []"
  shows "path_join d (path_components p) = d @ filter (\<lambda>c. c \<noteq> CurDir) (path_components p)"
proof -
  have "is_plain c" if "c \<in> set (path_components p)" for c
    using assms(1) that by (simp add: safe_relative_def list_all_iff)
  from this [of RootDir] have "\<not> is_absolute (path_components p)"
    by (auto simp: is_absolute_def is_plain_def split: list.splits path_component.splits)
  with assms(2) show ?thesis by (simp add: path_join_def)
qed

lemma entry_path_safe: "entry_path entry = Inr p \<Longrightarrow> safe_relative p \<and> te_kind entry \<noteq> EntryOther"
  by (auto simp: entry_path_def result_simps split: if_splits)

lemma confined_unpack_file:
  assumes "prefix d p" and "d \<noteq> []"
  shows "confined d (unpack_file entry p)"
proof -
  have "confined d (case path_parent p of Some parent \<Rightarrow> fs (fs_call (fs_create_dir_all parent)) | None \<Rightarrow> retI ())"
  proof (cases "path_parent p")
    case (Some q)
    then have "prefix q p" by (auto simp: path_parent_def prefixeq_butlast split: if_splits)
    with assms(1) have "prefix d q \<or> prefix q d" by (meson prefix_same_cases)
    with Some show ?thesis by (simp add: confined_fs confined_create_dir_all)
  qed (simp add: confined_pure)
  moreover have "confined d (fs_call (fs_create_file p))"
    using assms(1) by (intro confined_touches touches_mono [OF touches_writes(2)]) simp
  ultimately show ?thesis
    unfolding unpack_file_def by (intro confined_bind confined_fs confined_copy assms(1))
qed

lemma confined_unpack_entries: "d \<noteq> [] \<Longrightarrow> confined d (unpack_entries d items)"
proof (induction d items rule: unpack_entries.induct)
  case (3 d entry items)
  have "confined d (bindI (if te_kind entry = EntryDir then fs (fs_call (fs_create_dir_all (path_join d (path_components p))))
        else unpack_file entry (path_join d (path_components p))) (\<lambda>_. unpack_entries d items))"
    if "safe_relative p" for p
    using 3 safe_relative_join [OF that]
    by (intro confined_bind) (auto intro!: confined_fs confined_create_dir_all confined_unpack_file)
  then show ?case
    using entry_path_safe [of entry]
    by (cases "entry_path entry") (auto simp: confined_def bindI_def liftE_def Let_def)
qed (simp_all add: confined_pure)

lemma unpack_entries_accepts:
  "unpack_entries d items t = (Inr u, t') \<Longrightarrow> list_all (\<lambda>i. \<exists>e p. i = Inr e \<and> entry_path e = Inr p) items"
  by (induction d items arbitrary: t rule: unpack_entries.induct) (auto simp: result_simps Let_def)


lemma confined_unpack: "d \<noteq> [] \<Longrightarrow> confined d (unpack archive d)"
  unfolding unpack_def by (intro confined_bind confined_pure confined_unpack_entries)

text \<open>
  (C22) Unpacking a package cannot escape: whatever the archive holds (absolute paths, \<^verbatim>\<open>..\<close>
  components, links, entries that replace others) and whichever calls fail, every place that is not below the
  destination keeps its node. Success means that every entry was a plain file or directory with
  a safe relative path.
\<close>

theorem unpack_confined:
  assumes "unpack archive d t = (r, t')" and "d \<noteq> []"
    and "list_all (\<lambda>q. node_at t q \<noteq> None) (filter (\<lambda>q. q \<noteq> []) (prefixes d))"
  shows "(\<forall>q. \<not> prefix d q \<longrightarrow> node_at t' q = node_at t q) \<and>
    (r = Inr () \<longrightarrow> (\<exists>items. archive = Inr items \<and>
       list_all (\<lambda>i. \<exists>e p. i = Inr e \<and> te_kind e \<noteq> EntryOther \<and> te_path e = Inr p \<and> safe_relative p) items))"
proof (intro conjI allI impI)
  fix q assume "\<not> prefix d q"
  moreover have "q = [] \<or> \<not> prefix q d \<or> node_at t q \<noteq> None"
    using assms(3) by (auto simp: list_all_iff in_set_prefixes)
  ultimately show "node_at t' q = node_at t q"
    by (rule confinedD [OF confined_unpack [OF assms(2)] assms(1)])
next
  assume "r = Inr ()"
  with assms(1) obtain items where items: "archive = Inr items" "unpack_entries d items t = (Inr (), t')"
    by (auto simp: unpack_def result_simps)
  from unpack_entries_accepts [OF this(2)]
  have "list_all (\<lambda>i. \<exists>e p. i = Inr e \<and> te_kind e \<noteq> EntryOther \<and> te_path e = Inr p \<and> safe_relative p) items"
    by (auto simp: list_all_iff entry_path_def result_simps split: if_splits)
  with items show "\<exists>items. archive = Inr items \<and>
      list_all (\<lambda>i. \<exists>e p. i = Inr e \<and> te_kind e \<noteq> EntryOther \<and> te_path e = Inr p \<and> safe_relative p) items"
    by blast
qed

definition demo_tree :: tree where
  "demo_tree =
     \<lparr>tr_nodes = [([RootDir], NDir 0x1ED), ([RootDir, Normal ''s''], NDir 0x1ED)], tr_faults = []\<rparr>"

definition demo_entry :: "string \<Rightarrow> tar_entry" where
  "demo_entry p = \<lparr>te_kind = EntryFile, te_path = Inr p, te_data = ''x'', te_error = None\<rparr>"

theorem unpack_confined_witness:
  "\<exists>r t'. unpack (Inr [Inr (demo_entry ''a''), Inr (demo_entry ''../b'')]) [RootDir, Normal ''s''] demo_tree = (r, t') \<and>
     r \<noteq> Inr () \<and> node_at t' [RootDir, Normal ''s'', Normal ''a''] \<noteq> None \<and>
     node_at t' [RootDir, Normal ''b''] = None"
proof -
  let ?d = "[RootDir, Normal ''s'']" and ?ar = "Inr [Inr (demo_entry ''a''), Inr (demo_entry ''../b'')] :: archive"
  obtain r t' where u: "unpack ?ar ?d demo_tree = (r, t')" by fastforce
  note frame = unpack_confined [OF u]
  have "node_at t' [RootDir, Normal ''b''] = node_at demo_tree [RootDir, Normal ''b'']"
    using frame by (simp add: demo_tree_def node_at_def)
  moreover have "node_at t' [RootDir, Normal ''s'', Normal ''a''] \<noteq> None \<and> r \<noteq> Inr ()"
    using u
    by (auto simp: unpack_def demo_entry_def demo_tree_def bindI_def liftE_def entry_path_def safe_relative_def
        path_components_def inner_components_def segment_component_def is_plain_def Let_def unpack_file_def path_join_def
        is_absolute_def path_parent_def fs_def fs_call_def take_fault_def fs_create_dir_all_def fs_create_file_def
        is_dir_node_def copy_entry_def append_data_def put_def failI_def node_at_def)
  ultimately show ?thesis using u by (auto simp: demo_tree_def node_at_def)
qed


section \<open>Installing\<close>

definition apart :: "path \<Rightarrow> path \<Rightarrow> bool" where
  "apart a b \<longleftrightarrow> \<not> prefix a b \<and> \<not> prefix b a"

lemma apart_extend: "apart a b \<Longrightarrow> \<not> prefix a (b @ q) \<and> \<not> prefix b (a @ q)"
  unfolding apart_def by (metis prefixI prefix_same_cases)

lemma apart_children: "x \<noteq> y \<Longrightarrow> apart (d @ [x]) (d @ [y])"
  by (auto simp: apart_def)

lemma rename_cases:
  assumes "fs_call (fs_rename a b) t = (r, t')" and "apart a b"
  obtains e where "r = Inl e" "\<And>q. node_at t' q = node_at t q"
  | "r = Inr ()" "\<And>q. node_at t' (b @ q) = node_at t (a @ q)" "\<And>q. node_at t' (a @ q) = None"
      "\<And>q. \<not> prefix a q \<Longrightarrow> \<not> prefix b q \<Longrightarrow> node_at t' q = node_at t q"
proof -
  have "(\<exists>e. r = Inl e) \<and> tr_nodes t' = tr_nodes t \<or> r = Inr () \<and> tr_nodes t' = move a b (tr_nodes t)"
    using assms(1) assms(2)
    by (auto simp: fs_call_def take_fault_def fs_rename_def apart_def
        split: list.splits fault.splits option.splits node.splits if_splits)
  then show thesis
    using that assms(2) apart_extend [OF assms(2)] by (auto simp: node_at_def map_of_move apart_def)
qed

text \<open>
  The renames of a swap that end badly: the plugin is moved aside, the staged tree cannot be moved to its place, and
  the plugin cannot be moved back.
\<close>

definition swap_stuck :: "path \<Rightarrow> path \<Rightarrow> path \<Rightarrow> tree \<Rightarrow> fs_error \<Rightarrow> bool" where
  "swap_stuck staging dest backup t e \<longleftrightarrow>
     (\<exists>ta tb tc e'. fs_call (fs_rename dest backup) t = (Inr (), ta) \<and>
        fs_call (fs_rename staging dest) ta = (Inl e, tb) \<and> fs_call (fs_rename backup dest) tb = (Inl e', tc))"

text \<open>
  The swap: whichever of its calls fail, the place of the plugin afterwards holds the old tree,
  or the staged tree, or nothing, and then the old tree is complete at the backup place.
\<close>

lemma install_commit_cases:
  assumes c: "install_commit staging dest backup t = (r, t')"
    and ap: "apart dest backup" "apart staging dest" "apart staging backup"
  shows "(\<forall>q. node_at t' (dest @ q) = node_at t (dest @ q)) \<and> r \<noteq> Inr () \<or>
    (\<forall>q. node_at t' (dest @ q) = node_at t (staging @ q)) \<or>
    (\<exists>e. r = Inl (SE_Io e) \<and> swap_stuck staging dest backup t e) \<and>
      (\<forall>q. node_at t' (dest @ q) = None \<and> node_at t' (backup @ q) = node_at t (dest @ q))"
proof (cases "exists_at t dest")
  case False
  with c obtain r1 where "fs_call (fs_rename staging dest) t = (r1, t')" and r: "r = map_err SE_Io r1"
    by (auto simp: install_commit_def fs_def split: prod.splits)
  from this(1) ap(2) show ?thesis by (cases rule: rename_cases) (auto simp: r)
next
  case True
  obtain r1 t1 where 1: "fs_call (fs_rename dest backup) t = (r1, t1)" by fastforce
  from 1 ap(1) show ?thesis
  proof (cases rule: rename_cases)
    case (1 e)
    with c True \<open>fs_call (fs_rename dest backup) t = (r1, t1)\<close> show ?thesis
      by (auto simp: install_commit_def bindI_def fs_def)
  next
    case first: 2
    note ext = apart_extend [OF ap(2)] apart_extend [OF ap(3)] apart_extend [OF ap(1)]
    have staged: "node_at t1 (staging @ q) = node_at t (staging @ q)" for q using first(4) ext by auto
    obtain r2 t2 where 2: "fs_call (fs_rename staging dest) t1 = (r2, t2)" by fastforce
    from 2 ap(2) show ?thesis
    proof (cases rule: rename_cases)
      case failed: (1 e)
      obtain r3 t3 where 3: "fs_call (fs_rename backup dest) t2 = (r3, t3)" by fastforce
      have out: "r = Inl (SE_Io e)" "t' = t3"
        using c True 1 2 3 first(1) failed(1) by (auto simp: install_commit_def bindI_def fs_def try_fs_def failI_def)
      have "apart backup dest" using ap(1) by (auto simp: apart_def)
      with 3 show ?thesis
      proof (cases rule: rename_cases)
        case (1 e')
        then have "swap_stuck staging dest backup t e"
          unfolding swap_stuck_def using \<open>fs_call (fs_rename dest backup) t = (r1, t1)\<close> 2 3 first(1) failed(1) by blast
        with 1 first failed out show ?thesis by auto
      qed (use first failed out in auto)
    next
      case swapped: 2
      have "snd (fs_remove_dir_all backup t2) = t'"
        using c True 1 2 first(1) swapped(1)
        by (auto simp: install_commit_def bindI_def fs_def try_fs_def split: prod.splits)
      then have "node_at t' (dest @ q) = node_at t2 (dest @ q)" for q
        using touchesD [OF touches_remove_dir_all [of backup], of t2 _ t' "dest @ q"] ext
        by (metis prod.collapse)
      with swapped(2) staged show ?thesis by simp
    qed
  qed
qed


lemma touches_nothing:
  "touches (\<lambda>_. False) (read_manifest deps p)" "touches (\<lambda>_. False) (load_installed deps path_var p)"
proof -
  show 1: "touches (\<lambda>_. False) (read_manifest deps p)"
    unfolding read_manifest_def by (intro touches_bind touches_fs touches_reads touches_pure)
  show "touches (\<lambda>_. False) (load_installed deps path_var p)"
    unfolding load_installed_def by (intro touches_bind 1 touches_if touches_pure)
qed

lemma confined_prepare:
  assumes "d \<noteq> []"
  shows "confined d (install_prepare deps archive root d replace)"
proof -
  have "touches (prefix d) (make_local_entrypoint_executable d m)" for m
    using entrypoint_is_local_below(1) [of m d, OF _ assms]
    by (auto simp: make_local_entrypoint_executable_def Let_def path_starts_with_def entrypoint_path_def
        intro!: touches_bind touches_fs touches_reads touches_pure touches_mono [OF touches_writes(4)])
  moreover have "touches (prefix d) (read_manifest deps d)"
    by (rule touches_mono [OF touches_nothing(1)]) simp
  ultimately show ?thesis
    unfolding install_prepare_def using assms
    by (intro confined_bind confined_unpack confined_touches) (auto intro: touches_pure)
qed

lemma scratch_child:
  assumes "root \<noteq> []" and "CHR ''/'' \<notin> set kind"
  shows "scratch root kind pid n = root @ [Normal (scratch_name kind pid n)]"
proof -
  have digits: "CHR ''/'' \<notin> set (show_nat k)" for k
  proof (induction k rule: show_nat.induct)
    case (1 k)
    have "digit_char d \<noteq> CHR ''/''" if "d < 10" for d
      using of_char_digit [OF that] by auto
    from 1 this [of k] this [of "k mod 10"] show ?case by (subst show_nat.simps) auto
  qed
  let ?n = "scratch_name kind pid n"
  have "CHR ''/'' \<notin> set ?n" "?n \<noteq> []" "hd ?n \<noteq> CHR ''/''" "?n \<noteq> ''.''" "?n \<noteq> ''..''"
    using assms(2) digits by (auto simp: scratch_name_def)
  then have "path_components ?n = [Normal ?n]"
    by (simp add: path_components_def split_on_no_sep inner_components_def segment_component_def)
  with assms(1) show ?thesis by (simp add: scratch_def path_join_def is_absolute_def)
qed


lemma scratch_apart:
  assumes "root \<noteq> []" and "i \<noteq> [] \<longrightarrow> hd i \<noteq> CHR ''.''"
  shows "apart (root @ [Normal i]) (scratch root ''backup'' pid m)"
    and "apart (scratch root ''install'' pid k) (root @ [Normal i])"
    and "apart (scratch root ''install'' pid k) (scratch root ''backup'' pid m)"
  using assms by (auto simp: scratch_child intro!: apart_children) (auto simp: scratch_name_def)

lemma frame_outside:
  assumes "confined d m" and "m t = (r, t')" and "apart d p"
  shows "node_at t' (p @ q) = node_at t (p @ q)"
proof (rule confinedD [OF assms(1,2)])
  show "\<not> prefix d (p @ q)" using apart_extend [OF assms(3)] by simp
  show "p @ q = [] \<or> \<not> prefix (p @ q) d \<or> node_at t (p @ q) \<noteq> None"
    using assms(3) append_prefixD by (auto simp: apart_def)
qed

lemma touches_commit:
  "touches (\<lambda>q. prefix staging q \<or> prefix dest q \<or> prefix backup q) (install_commit staging dest backup)"
proof -
  let ?P = "\<lambda>q. prefix staging q \<or> prefix dest q \<or> prefix backup q"
  have ren: "touches ?P (fs_call (fs_rename a b))" if "a \<in> {staging, dest, backup}" "b \<in> {staging, dest, backup}" for a b
    using that by (intro touches_mono [OF touches_rename]) auto
  have "touches ?P (fs (fs_remove_dir_all backup))"
    by (intro touches_fs touches_mono [OF touches_remove_dir_all]) simp
  then have "touches ?P (bindI (fs (fs_call (fs_rename dest backup))) (\<lambda>_.
        bindI (try_fs (fs_call (fs_rename staging dest))) (\<lambda>r.
          case r of
            Inl e \<Rightarrow> bindI (try_fs (fs_call (fs_rename backup dest))) (\<lambda>_. failI (SE_Io e))
          | Inr _ \<Rightarrow> fs (fs_remove_dir_all backup))))"
    by (intro touches_bind touches_fs ren) (auto intro!: touches_bind touches_fs ren touches_pure split: sum.split)
  moreover have "touches ?P (fs (fs_call (fs_rename staging dest)))" by (intro touches_fs ren) simp_all
  ultimately show ?thesis unfolding touches_def install_commit_def by simp
qed

lemma load_installed_id:
  "load_installed deps path_var p t = (Inr plugin, t') \<Longrightarrow>
     file_name p = Some (pm_id (ip_manifest plugin)) \<and> ip_path plugin = p"
  by (auto simp: load_installed_def result_simps split: if_splits)

lemma install_staged_cases:
  assumes s: "install_staged deps path_var archive root (scratch root ''install'' pid k) (scratch root ''backup'' pid b) replace t = (r, t')"
    and root: "root \<noteq> []" and i: "i \<noteq> [] \<longrightarrow> hd i \<noteq> CHR ''.''"
  defines "st \<equiv> scratch root ''install'' pid k" and "bk \<equiv> scratch root ''backup'' pid b" and "d \<equiv> root @ [Normal i]"
  shows "(\<forall>q. node_at t' (d @ q) = node_at t (d @ q)) \<and>
      \<not> (\<exists>plugin. r = Inr plugin \<and> pm_id (ip_manifest plugin) = i) \<or>
    (\<exists>m ts. install_prepare deps archive root st replace t = (Inr m, ts) \<and> pm_id m = i \<and>
       ((\<forall>q. node_at t' (d @ q) = node_at ts (st @ q)) \<or>
        (\<exists>e. r = Inl (SE_Io e) \<and> swap_stuck st d bk ts e) \<and> (\<forall>q. node_at t' (bk @ q) = node_at t (d @ q))))"
proof -
  note ap = scratch_apart(1) [OF root i, of pid b, folded bk_def d_def]
    scratch_apart(2) [OF root i, of pid k, folded st_def d_def] scratch_apart(3) [OF root i, of pid k b, folded st_def bk_def]
  have st: "st \<noteq> []" by (simp add: st_def scratch_child [OF root])
  obtain rp ts where p: "install_prepare deps archive root st replace t = (rp, ts)" by fastforce
  have keep: "node_at ts (d @ q) = node_at t (d @ q)" for q
    by (rule frame_outside [OF confined_prepare [OF st] p ap(2)])
  show ?thesis
  proof (cases rp)
    case (Inl e)
    with s p keep show ?thesis by (auto simp: install_staged_def bindI_def st_def)
  next
    case (Inr m)
    let ?dm = "path_join root (path_components (pm_id m))"
    obtain raw where "parse_manifest deps raw = Inr m"
      using p Inr by (auto simp: install_prepare_def read_manifest_def result_simps split: if_splits)
    note dm = accepted_id_place [OF this [unfolded parse_manifest_def] root]
    obtain rc tc where c: "install_commit st ?dm bk ts = (rc, tc)" by fastforce
    have t': "node_at t' q = node_at tc q" for q
      using s p Inr c touchesD [OF touches_nothing(2)]
      by (cases rc) (auto simp: install_staged_def bindI_def Let_def st_def bk_def)
    have r: "r = Inl e" if "rc = Inl e" for e
      using s p Inr c that by (auto simp: install_staged_def bindI_def Let_def st_def bk_def)
    have id: "pm_id (ip_manifest plugin) = pm_id m" if "r = Inr plugin" for plugin
      using s p Inr c that load_installed_id [of deps path_var ?dm tc plugin t']
      by (cases rc) (auto simp: install_staged_def bindI_def Let_def st_def bk_def dm(1) file_name_def)
    show ?thesis
    proof (cases "pm_id m = i")
      case False
      then have "apart ?dm d" by (simp add: dm d_def apart_children)
      then have "node_at tc (d @ q) = node_at ts (d @ q)" for q
        using touchesD [OF touches_commit c, of "d @ q"] apart_extend ap by blast
      with t' keep id False show ?thesis by auto
    next
      case True
      with dm have "?dm = d" by (simp add: d_def)
      from install_commit_cases [OF c [unfolded this] ap(1,2,3)] show ?thesis
      proof (elim disjE conjE exE)
        assume "\<forall>q. node_at tc (d @ q) = node_at ts (d @ q)" "rc \<noteq> Inr ()"
        then show ?thesis using t' keep r by (cases rc) auto
      next
        assume "\<forall>q. node_at tc (d @ q) = node_at ts (st @ q)"
        then show ?thesis using p Inr True t' by auto
      next
        fix e assume "rc = Inl (SE_Io e)" "swap_stuck st d bk ts e"
          "\<forall>q. node_at tc (d @ q) = None \<and> node_at tc (bk @ q) = node_at ts (d @ q)"
        then show ?thesis using p Inr True t' keep r by auto
      qed
    qed
  qed
qed

text \<open>The state in which unpacking starts: the staging directory is new, nothing else outside the root's ancestors changed.\<close>

lemma install_begins:
  assumes "fs (fs_call (fs_create_dir_all root)) t = (Inr u, t1)" and "fs (fs_call (fs_create_dir st)) t1 = (Inr v, t2)"
  shows "node_at t2 st = Some (NDir 0x1ED) \<and> (\<forall>q. \<not> prefix q root \<and> q \<noteq> st \<longrightarrow> node_at t2 q = node_at t q)"
proof (intro conjI allI impI)
  show "node_at t2 st = Some (NDir 0x1ED)"
    using assms(2) by (auto simp: fs_def fs_call_def take_fault_def fs_create_dir_def node_at_def map_of_changes
        split: list.splits fault.splits if_splits)
  fix q assume "\<not> prefix q root \<and> q \<noteq> st"
  then show "node_at t2 q = node_at t q"
    using touchesD [OF touches_fs(1) [OF touches_writes(1)] assms(2), of q]
      touchesD [OF touches_fs(1) [OF touches_create_dir_all] assms(1), of q] by auto
qed

text \<open>
  (C21) Installing is safe for what is installed. Whatever the package holds and whichever calls
  fail, afterwards the directory of every plugin holds exactly the tree it held before, or (only
  for the plugin the package names, whose manifest was accepted) exactly the unpacked tree; in the one remaining
  case the old plugin was moved aside and both the rename of the unpacked tree and the rename back failed, and then the call
  fails with the error of the first and the old tree is complete at the backup place. When the call reports a plugin as installed, its directory holds the unpacked tree.
\<close>

theorem install_keeps_or_replaces:
  assumes "install deps path_var pid n1 n2 root archive replace t = (r, t')" and "root \<noteq> []"
    and "path_components i = [Normal i]" and "hd i \<noteq> CHR ''.''"
  shows "(\<forall>q. node_at t' (root @ Normal i # q) = node_at t (root @ Normal i # q)) \<and>
      \<not> (\<exists>plugin. r = Inr plugin \<and> pm_id (ip_manifest plugin) = i) \<or>
    (\<exists>m t2 ts. node_at t2 (scratch root ''install'' pid n1) = Some (NDir 0x1ED) \<and>
       (\<forall>q. \<not> prefix q root \<and> q \<noteq> scratch root ''install'' pid n1 \<longrightarrow> node_at t2 q = node_at t q) \<and>
       install_prepare deps archive root (scratch root ''install'' pid n1) replace t2 = (Inr m, ts) \<and> pm_id m = i \<and>
       ((\<forall>q. node_at t' (root @ Normal i # q) = node_at ts (scratch root ''install'' pid n1 @ q)) \<or>
        (\<exists>e. r = Inl (SE_Io e) \<and>
           swap_stuck (scratch root ''install'' pid n1) (root @ [Normal i]) (scratch root ''backup'' pid n2) ts e) \<and>
        (\<forall>q. node_at t' (scratch root ''backup'' pid n2 @ q) = node_at t (root @ Normal i # q))))"
proof -
  let ?st = "scratch root ''install'' pid n1" and ?bk = "scratch root ''backup'' pid n2" and ?d = "root @ [Normal i]"
  have i: "i \<noteq> [] \<longrightarrow> hd i \<noteq> CHR ''.''" using assms(4) by simp
  note ap = scratch_apart(1) [OF assms(2) i, of pid n2] scratch_apart(2) [OF assms(2) i, of pid n1]
    scratch_apart(3) [OF assms(2) i, of pid n1 n2]
  have st: "?st \<noteq> []" by (simp add: scratch_child [OF assms(2)])
  obtain r1 t1 where 1: "fs (fs_call (fs_create_dir_all root)) t = (r1, t1)" by fastforce
  have f1: "node_at t1 (?d @ q) = node_at t (?d @ q)" for q
    using touchesD [OF touches_fs(1) [OF touches_create_dir_all] 1, of "?d @ q"] by auto
  show ?thesis
  proof (cases r1)
    case (Inl e)
    with assms(1) 1 f1 show ?thesis by (auto simp: install_def Let_def bindI_def)
  next
    case r1: (Inr u)
    obtain r2 t2 where 2: "fs (fs_call (fs_create_dir ?st)) t1 = (r2, t2)" by fastforce
    have f2: "node_at t2 (?d @ q) = node_at t (?d @ q)" for q
    proof -
      have "?st \<noteq> ?d @ q" using apart_extend [OF ap(2), of q] by (metis prefix_order.refl)
      then show ?thesis using touchesD [OF touches_fs(1) [OF touches_writes(1)] 2] f1 by metis
    qed
    show ?thesis
    proof (cases r2)
      case (Inl e)
      with assms(1) 1 2 r1 f2 show ?thesis by (auto simp: install_def Let_def bindI_def)
    next
      case r2: (Inr u')
      note fresh = install_begins [OF 1 [unfolded r1] 2 [unfolded r2]]
      obtain t3 where 3: "install_staged deps path_var archive root ?st ?bk replace t2 = (r, t3)"
        and cl: "t' = (if exists_at t3 ?st then snd (fs_remove_dir_all ?st t3) else t3)"
        using assms(1) 1 2 r1 r2 by (auto simp: install_def Let_def bindI_def split: prod.splits)
      have f4: "node_at t' (p @ q) = node_at t3 (p @ q)" if "apart ?st p" for p q
        using touchesD [OF touches_remove_dir_all [of ?st], of t3 _ _ "p @ q"] apart_extend [OF that] cl
        by (metis prod.collapse)
      from install_staged_cases [OF 3 assms(2) i] show ?thesis
      proof (elim disjE exE conjE)
        assume "\<forall>q. node_at t3 (?d @ q) = node_at t2 (?d @ q)"
          "\<not> (\<exists>plugin. r = Inr plugin \<and> pm_id (ip_manifest plugin) = i)"
        then show ?thesis using f2 f4 [OF ap(2)] by simp
      next
        fix m ts assume "install_prepare deps archive root ?st replace t2 = (Inr m, ts)" "pm_id m = i"
          "\<forall>q. node_at t3 (?d @ q) = node_at ts (?st @ q)"
        then show ?thesis
          using f4 [OF ap(2)] fresh by (intro disjI2 exI [of _ m] exI [of _ t2] exI [of _ ts]) auto
      next
        fix m ts e assume "install_prepare deps archive root ?st replace t2 = (Inr m, ts)" "pm_id m = i"
          "r = Inl (SE_Io e)" "swap_stuck ?st ?d ?bk ts e" "\<forall>q. node_at t3 (?bk @ q) = node_at t2 (?d @ q)"
        then show ?thesis
          using f2 f4 [OF ap(3)] fresh by (intro disjI2 exI [of _ m] exI [of _ t2] exI [of _ ts]) auto
      qed
    qed
  qed
qed


definition demo_deps :: manifest_deps where
  "demo_deps =
     \<lparr>mdep_version = (\<lambda>_. None), mdep_validator = (\<lambda>_. Inr (\<lambda>_. None)), mdep_from_str = (\<lambda>_. Inr demo_manifest)\<rparr>"

definition demo_root :: path where
  "demo_root = [RootDir, Normal ''s'']"

definition demo_package :: archive where
  "demo_package = Inr [Inr (demo_entry ''./tool.json''), Inr (demo_entry ''bin/run'')]"

definition demo_install :: "(store_error + installed_plugin) \<times> tree" where
  "demo_install = install demo_deps None 1 2 3 demo_root demo_package False demo_tree"

lemma demo_install_ok:
  "case demo_install of (r, _) \<Rightarrow> (case r of Inr plugin \<Rightarrow> pm_id (ip_manifest plugin) = ''com.example.echo'' | Inl _ \<Rightarrow> False)"
  by code_simp

theorem install_keeps_or_replaces_witness:
  "\<exists>m t2 ts. install_prepare demo_deps demo_package demo_root (scratch demo_root ''install'' 1 2) False t2 = (Inr m, ts) \<and>
     pm_id m = ''com.example.echo'' \<and>
     node_at (snd demo_install) (demo_root @ [Normal ''com.example.echo'', Normal ''bin'', Normal ''run'']) =
       node_at ts (scratch demo_root ''install'' 1 2 @ [Normal ''bin'', Normal ''run''])"
proof -
  obtain r t' where e: "demo_install = (r, t')" by fastforce
  obtain plugin where r: "r = Inr plugin" "pm_id (ip_manifest plugin) = ''com.example.echo''"
    using demo_install_ok unfolding e by (auto split: sum.splits)
  have n: "path_components ''com.example.echo'' = [Normal ''com.example.echo'']"
    by (simp add: path_components_def inner_components_def segment_component_def)
  have "demo_root \<noteq> []" by (simp add: demo_root_def)
  from install_keeps_or_replaces [OF e [unfolded demo_install_def] this n] r
  obtain m t2 ts where p: "install_prepare demo_deps demo_package demo_root (scratch demo_root ''install'' 1 2) False t2 = (Inr m, ts)"
      "pm_id m = ''com.example.echo''"
    and q: "\<forall>q. node_at t' (demo_root @ Normal ''com.example.echo'' # q) = node_at ts (scratch demo_root ''install'' 1 2 @ q)"
    by auto
  from p q [rule_format, of "[Normal ''bin'', Normal ''run'']"] show ?thesis
    by (intro exI [of _ m] exI [of _ t2] exI [of _ ts]) (simp add: e)
qed

text \<open>
  The entry point is checked after the swap: a package whose entry point is a directory is
  reported as refused although it has replaced the plugin that was installed.
\<close>

definition broken_package :: archive where
  "broken_package =
     Inr [Inr (demo_entry ''tool.json''), Inr ((demo_entry ''bin/run'')\<lparr>te_kind := EntryDir\<rparr>)]"

lemma refused_package_replaces_plugin:
  "case install demo_deps None 1 4 5 demo_root broken_package True (snd demo_install) of
     (r, t') \<Rightarrow>
       r = Inl (SE_Invalid ''local entrypoint does not exist'') \<and>
       node_at (snd demo_install) (demo_root @ [Normal ''com.example.echo'', Normal ''bin'', Normal ''run'']) =
         Some (NFile ''x'' 0x1E4) \<and>
       node_at t' (demo_root @ [Normal ''com.example.echo'', Normal ''bin'', Normal ''run'']) = Some (NDir 0x1ED)"
  by code_simp


section \<open>Validation and installation see the same manifest\<close>

definition plain_below :: "path \<Rightarrow> tree \<Rightarrow> bool" where
  "plain_below d t \<longleftrightarrow>
     (\<forall>q n. prefix d q \<and> node_at t q = Some n \<longrightarrow> (\<exists>c m. n = NFile c m) \<or> (\<exists>m. n = NDir m))"

text \<open>
  Calls that unpacking makes never remove a node; apart from the file they create or fill, they
  keep the nodes there are.
\<close>

definition grows :: "path \<Rightarrow> path \<Rightarrow> (tree, 'e, 'a) io \<Rightarrow> bool" where
  "grows d f m \<longleftrightarrow>
     (\<forall>t r t'. m t = (r, t') \<longrightarrow> plain_below d t \<longrightarrow>
        plain_below d t' \<and> (\<forall>q n. q \<noteq> f \<and> node_at t q = Some n \<longrightarrow> node_at t' q = Some n))"

lemma growsD:
  "grows d f m \<Longrightarrow> m t = (r, t') \<Longrightarrow> plain_below d t \<Longrightarrow>
     plain_below d t' \<and> (\<forall>q n. q \<noteq> f \<and> node_at t q = Some n \<longrightarrow> node_at t' q = Some n)"
  by (simp add: grows_def)

lemma grows_bind: "grows d f m \<Longrightarrow> (\<And>a. grows d f (k a)) \<Longrightarrow> grows d f (bindI m k)"
  unfolding grows_def bindI_def by (fastforce split: prod.splits sum.splits)

lemma grows_fs: "grows d f m \<Longrightarrow> grows d f (fs m)"
  by (auto simp: grows_def fs_def split: prod.splits)

lemma grows_calls:
  "grows d f (retI a)" "grows d f (fs_call (fs_create_dir_all p))" "grows d f (fs_call (fs_create_file f))"
  "grows d f (copy_entry entry f)"
  by (auto simp: grows_def retI_def fs_call_def take_fault_def fs_create_dir_all_def fs_create_file_def copy_entry_def
      append_data_def Let_def fold_create_dirs node_at_def plain_below_def map_of_changes
      split: list.splits fault.splits sum.splits if_splits option.splits node.splits)

lemma grows_unpack_file: "grows d f (unpack_file entry f)"
  unfolding unpack_file_def
  by (intro grows_bind grows_fs grows_calls) (auto intro: grows_fs grows_calls split: option.split)


lemma grows_unpack_dir: "grows d f (fs (fs_call (fs_create_dir_all p)))"
  by (intro grows_fs grows_calls)

lemma filter_components:
  "filter (\<lambda>c. c \<noteq> CurDir) (path_components p) =
     (case strip_prefix (path_components p) [CurDir] of Some q \<Rightarrow> q | None \<Rightarrow> path_components p)"
proof -
  have inner: "filter (\<lambda>c. c \<noteq> CurDir) q = q" if "list_all plain_component q" for q
    using that by (auto simp: filter_id_conv list_all_iff)
  show ?thesis
  proof (cases "path_components p")
    case (Cons c q)
    then have "list_all plain_component q" "plain_component c \<or> c = RootDir \<or> c = CurDir"
      using path_components_wf [of p] by (auto simp: path_wf_def)
    with inner Cons show ?thesis by (auto simp: strip_prefix_def)
  qed (simp add: strip_prefix_def)
qed

lemma tool_json_path: "tool_json = [Normal ''tool.json'']"
  by (simp add: tool_json_def path_components_def inner_components_def segment_component_def)

text \<open>A file entry that unpacks puts its data where its path says.\<close>

lemma unpack_file_content:
  assumes "unpack_file entry f t = (Inr (), t')" and "plain_below d t" and "prefix d f"
  shows "\<exists>m. node_at t' f = Some (NFile (te_data entry) m)"
proof -
  from assms(1) obtain t1 t2 where 1: "(case path_parent f of Some parent \<Rightarrow> fs (fs_call (fs_create_dir_all parent)) | None \<Rightarrow> retI ()) t = (Inr (), t1)"
    and 2: "fs (fs_call (fs_create_file f)) t1 = (Inr (), t2)" and 3: "fs (copy_entry entry f) t2 = (Inr (), t')"
    by (auto simp: unpack_file_def result_simps)
  have "grows d [] (case path_parent f of Some parent \<Rightarrow> fs (fs_call (fs_create_dir_all parent)) | None \<Rightarrow> retI ())"
    by (auto intro: grows_fs grows_calls split: option.split)
  from growsD [OF this 1 assms(2)] have "plain_below d t1" by simp
  with assms(3) have plain: "node_at t1 f = Some n \<Longrightarrow> (\<exists>c m. n = NFile c m) \<or> (\<exists>m. n = NDir m)" for n
    by (auto simp: plain_below_def)
  have "\<exists>m. node_at t2 f = Some (NFile [] m)"
    using 2 plain
    by (auto simp: fs_def fs_call_def take_fault_def fs_create_file_def node_at_def map_of_changes
        split: list.splits fault.splits sum.splits if_splits option.splits node.splits)
  then show ?thesis
    using 3 by (auto simp: fs_def copy_entry_def take_fault_def append_data_def node_at_def map_of_changes
        split: list.splits fault.splits option.splits)
qed

definition manifest_stored :: "manifest_deps \<Rightarrow> path \<Rightarrow> plugin_manifest option \<Rightarrow> tree \<Rightarrow> bool" where
  "manifest_stored deps d acc t \<longleftrightarrow>
     plain_below d t \<and>
     (\<forall>m. acc = Some m \<longrightarrow>
        (\<exists>c k. node_at t (d @ tool_json) = Some (NFile c k) \<and> valid_utf8 c \<and> parse_manifest deps c = Inr m))"

lemma unpack_entry_stores:
  assumes "entry_path entry = Inr p" and "d \<noteq> []" and "manifest_stored deps d acc t"
    and "(if te_kind entry = EntryDir then fs (fs_call (fs_create_dir_all (path_join d (path_components p))))
          else unpack_file entry (path_join d (path_components p))) t = (Inr (), t')"
    and acc': "if is_tool_json entry p
      then (\<exists>raw m. read_entry 1048577 entry = Inr raw \<and> length raw \<le> 1048576 \<and> parse_manifest deps raw = Inr m \<and> acc' = Some m)
      else acc' = acc"
  shows "manifest_stored deps d acc' t'"
proof -
  let ?o = "path_join d (path_components p)"
  have o: "?o = d @ filter (\<lambda>c. c \<noteq> CurDir) (path_components p)"
    using entry_path_safe [OF assms(1)] assms(2) by (simp add: safe_relative_join)
  have plain: "plain_below d t" using assms(3) by (simp add: manifest_stored_def)
  show ?thesis
  proof (cases "is_tool_json entry p")
    case True
    then have kind: "te_kind entry = EntryFile" and oj: "?o = d @ tool_json"
      by (simp_all add: o filter_components is_tool_json_def tool_json_def)
    obtain raw m where raw: "read_entry 1048577 entry = Inr raw" "length raw \<le> 1048576" "parse_manifest deps raw = Inr m"
        "acc' = Some m" using acc' True by auto
    then have "raw = te_data entry" "valid_utf8 raw"
      by (auto simp: read_entry_def Let_def split: option.splits if_splits)
    moreover have u: "unpack_file entry ?o t = (Inr (), t')" using assms(4) kind by simp
    ultimately show ?thesis
      using unpack_file_content [OF u plain] growsD [OF grows_unpack_file u plain] raw oj
      by (auto simp: manifest_stored_def o)
  next
    case False
    have "te_kind entry = EntryDir \<or> ?o \<noteq> d @ tool_json"
      using False entry_path_safe [OF assms(1)]
      by (auto simp: o filter_components is_tool_json_def tool_json_def) (metis entry_kind.exhaust)
    then obtain f where f: "f \<noteq> d @ tool_json"
      "grows d f (if te_kind entry = EntryDir then fs (fs_call (fs_create_dir_all ?o)) else unpack_file entry ?o)"
    proof (cases "te_kind entry = EntryDir")
      case True
      then show thesis using that [of "[]"] grows_unpack_dir [of d "[]"] assms(2) by simp
    next
      case False
      then show thesis using that [of ?o] grows_unpack_file [of d ?o] \<open>te_kind entry = EntryDir \<or> ?o \<noteq> d @ tool_json\<close> by simp
    qed
    from growsD [OF f(2) assms(4) plain] f(1) assms(3) acc' False show ?thesis
      by (auto simp: manifest_stored_def)
  qed
qed

lemma unpack_stores:
  "validate_entries deps items acc = Inr acc' \<Longrightarrow> unpack_entries d items t = (Inr (), t') \<Longrightarrow>
     manifest_stored deps d acc t \<Longrightarrow> d \<noteq> [] \<Longrightarrow> manifest_stored deps d acc' t'"
proof (induction deps items acc arbitrary: t rule: validate_entries.induct)
  case (3 deps entry items acc)
  from "3.prems"(2) obtain p t1 where p: "entry_path entry = Inr p"
    and e: "(if te_kind entry = EntryDir then fs (fs_call (fs_create_dir_all (path_join d (path_components p))))
          else unpack_file entry (path_join d (path_components p))) t = (Inr (), t1)"
    and rest: "unpack_entries d items t1 = (Inr (), t')"
    by (auto simp: result_simps Let_def)
  show ?case
  proof (cases "is_tool_json entry p")
    case True
    with "3.prems"(1) p obtain raw m where raw: "read_entry 1048577 entry = Inr raw" "length raw \<le> 1048576"
        "parse_manifest deps raw = Inr m" "validate_entries deps items (Some m) = Inr acc'"
      by (auto simp: result_simps split: if_splits)
    have "manifest_stored deps d (Some m) t1"
      by (rule unpack_entry_stores [OF p "3.prems"(4,3) e]) (use True raw in auto)
    with raw rest "3.prems"(4) show ?thesis using "3.IH"(1) [OF True, of raw m t1] by simp
  next
    case False
    have "manifest_stored deps d acc t1"
      by (rule unpack_entry_stores [OF p "3.prems"(4,3) e]) (use False in auto)
    moreover have "validate_entries deps items acc = Inr acc'" using "3.prems"(1) p False by simp
    ultimately show ?thesis using "3.IH"(2) [OF False _ rest _ "3.prems"(4)] by simp
  qed
qed (auto simp: result_simps)


lemma read_manifest_stored:
  assumes "manifest_stored deps d (Some m) t" and "d \<noteq> []" and "tr_faults t = []"
  shows "fst (read_manifest deps d t) = Inr m"
proof -
  have "path_join d tool_json = d @ tool_json"
    using assms(2) by (simp add: path_join_def is_absolute_def tool_json_path)
  with assms(1,3) show ?thesis
    by (auto simp: manifest_stored_def read_manifest_def fs_def bindI_def fs_call_def take_fault_def
        fs_read_to_string_def fs_read_def node_at_def liftE_def)
qed

text \<open>
  (C23) Validating a package and unpacking it agree, although the one scans the archive and the other
  reads the unpacked file: when both accept the package, the manifest read from the destination is the one
  validation returned, also when the archive holds several entries for \<^verbatim>\<open>tool.json\<close>, under different spellings of
  its path. (The destination holds no links beforehand, as a fresh directory does, and reading the file back does not
  fail.)
\<close>

theorem validated_manifest_is_installed:
  assumes "validate_package deps archive = Inr m" and "unpack archive d t = (Inr (), t')"
    and "d \<noteq> []" and "plain_below d t"
  shows "fst (read_manifest deps d (t'\<lparr>tr_faults := []\<rparr>)) = Inr m"
proof -
  from assms(1) obtain items where items: "archive = Inr items" "validate_entries deps items None = Inr (Some m)"
    by (auto simp: validate_package_def result_simps)
  then have "unpack_entries d items t = (Inr (), t')" using assms(2) by (auto simp: unpack_def result_simps)
  from unpack_stores [OF items(2) this _ assms(3)] have "manifest_stored deps d (Some m) t'"
    using assms(4) by (simp add: manifest_stored_def)
  then have "manifest_stored deps d (Some m) (t'\<lparr>tr_faults := []\<rparr>)"
    by (simp add: manifest_stored_def plain_below_def node_at_def)
  then show ?thesis using assms(3) by (rule read_manifest_stored) simp
qed

definition two_manifests :: archive where
  "two_manifests = Inr [Inr (demo_entry ''tool.json''), Inr ((demo_entry ''./tool.json'')\<lparr>te_data := ''yz''\<rparr>)]"

definition second_deps :: manifest_deps where
  "second_deps = demo_deps\<lparr>mdep_from_str := \<lambda>s. Inr (demo_manifest\<lparr>pm_max_concurrency := of_nat (length s)\<rparr>)\<rparr>"

lemma second_deps_parse:
  "0 < length s \<Longrightarrow> length s < 2 ^ 64 \<Longrightarrow>
     parse_manifest second_deps s = Inr (demo_manifest\<lparr>pm_max_concurrency := of_nat (length s)\<rparr>)"
  by (auto simp: parse_manifest_def second_deps_def demo_deps_def manifest_parse_def manifest_validate_def demo_manifest_def
      valid_plugin_id_def valid_tool_name_def is_ascii_alphanumeric_def is_ascii_lowercase_def is_ascii_uppercase_def
      is_ascii_digit_def word_of_nat_eq_0_iff dest: nat_dvd_not_less)

lemma two_manifests_valid:
  "validate_package second_deps two_manifests = Inr (demo_manifest\<lparr>pm_max_concurrency := 2\<rparr>)"
  by (simp add: validate_package_def two_manifests_def demo_entry_def entry_path_def safe_relative_def path_components_def
      inner_components_def segment_component_def is_plain_def is_tool_json_def strip_prefix_def read_entry_def
      valid_utf8_def utf8_chars_ascii utf8_chars_Nil in_range_def second_deps_parse)

lemma two_manifests_unpack: "case unpack two_manifests demo_root demo_tree of (r, t') \<Rightarrow> r = Inr ()"
  by code_simp

theorem validated_manifest_is_installed_witness:
  "\<exists>m t'. unpack two_manifests demo_root demo_tree = (Inr (), t') \<and> pm_max_concurrency m = 2 \<and>
     fst (read_manifest second_deps demo_root (t'\<lparr>tr_faults := []\<rparr>)) = Inr m"
proof -
  obtain t' where t': "unpack two_manifests demo_root demo_tree = (Inr (), t')"
    using two_manifests_unpack by (auto split: prod.splits)
  have "plain_below demo_root demo_tree"
    by (auto simp: plain_below_def demo_tree_def demo_root_def node_at_def split: if_splits)
  from validated_manifest_is_installed [OF two_manifests_valid t' _ this] t' show ?thesis
    by (intro exI [of _ "demo_manifest\<lparr>pm_max_concurrency := 2\<rparr>"] exI [of _ t']) (simp add: demo_root_def)
qed


section \<open>Enabling and disabling\<close>

lemma marker_path:
  assumes "root \<noteq> []" and "path_components i = [Normal i]"
  shows "path_join root (path_components i) = root @ [Normal i]"
    and "path_join (root @ [Normal i]) (path_components ''.disabled'') = root @ [Normal i, Normal ''.disabled'']"
  using assms
  by (simp_all add: path_join_def is_absolute_def path_components_def [of "''.disabled''"] inner_components_def segment_component_def)

lemma touches_set_marker: "touches ((=) p) (set_marker p b)"
  unfolding set_marker_def
  by (intro touches_if touches_bind touches_fs touches_writes touches_write)
    (auto intro: touches_pure touches_if split: sum.split)

lemma set_marker_enables: "set_marker p True t = (Inr (), t') \<Longrightarrow> \<not> exists_at t' p"
  by (auto simp: set_marker_def bindI_def failI_def retI_def try_fs_def fs_call_def take_fault_def
      fs_remove_file_def exists_at_def stat_at_def node_at_def map_of_changes io_error_of_def
      split: sum.splits if_splits list.splits fault.splits option.splits node.splits)

lemma set_marker_disables:
  assumes "set_marker p False t = (Inr (), t')" and "plain_below p t"
  shows "exists_at t' p"
proof -
  from assms(1) obtain ns where c: "fs_create_file p (tr_nodes t) = Inr ((), ns)"
    and t': "tr_nodes t' = append_data p (''disabled by ate'' @ [CHR 0x0A]) ns"
    by (auto simp: set_marker_def fs_def fs_call_def take_fault_def fs_write_def result_simps
        split: list.splits fault.splits sum.splits if_splits)
  have "\<exists>m. map_of ns p = Some (NFile [] m)"
    using c assms(2)
    by (auto simp: fs_create_file_def plain_below_def node_at_def map_of_changes split: if_splits option.splits node.splits)
  then show ?thesis
    by (auto simp: exists_at_def stat_at_def node_at_def t' append_data_def map_of_changes)
qed

lemma set_enabled_cases:
  assumes "set_enabled deps root i b t = (r, t')" and "root \<noteq> []" and "path_components i = [Normal i]"
  obtains e where "r = Inl e" "t' = t" | "dir_at t (root @ [Normal i])" "set_marker (root @ [Normal i, Normal ''.disabled'']) b t = (r, t')"
proof (cases "validate_id deps i")
  case (Inl e)
  with assms(1) have "r = Inl e \<and> t' = t" by (simp add: set_enabled_def bindI_def liftE_def)
  then show thesis using that(1) by simp
next
  case (Inr u)
  note simps = set_enabled_def marker_path [OF assms(2,3)] Let_def bindI_def liftE_def failI_def
  show thesis
  proof (cases "dir_at t (root @ [Normal i])")
    case True
    then show thesis using that(2) assms(1) Inr by (simp add: simps)
  next
    case False
    then have "r = Inl (SE_NotFound i) \<and> t' = t" using assms(1) Inr by (simp add: simps)
    then show thesis using that(1) by simp
  qed
qed

lemma load_installed_enabled:
  assumes "load_installed deps path_var (root @ [Normal i]) t = (Inr plugin, t')"
  shows "ip_enabled plugin = (\<not> exists_at t (root @ [Normal i, Normal ''.disabled'']))"
proof -
  have mk: "path_join (root @ [Normal i]) (path_components ''.disabled'') = root @ [Normal i, Normal ''.disabled'']"
    by (simp add: path_join_def is_absolute_def path_components_def inner_components_def segment_component_def)
  from assms obtain t1 m where m: "read_manifest deps (root @ [Normal i]) t = (Inr m, t1)"
    and p: "ip_enabled plugin = (\<not> exists_at t1 (root @ [Normal i, Normal ''.disabled'']))"
    by (auto simp: load_installed_def result_simps mk split: if_splits)
  from p touchesD [OF touches_nothing(1) m] show ?thesis by (simp add: exists_at_def stat_at_def)
qed

text \<open>
  Enabling and disabling: after a successful call the plugin loads as enabled or as
  disabled, as the call asked, with nothing else of the store changed, so enabling undoes disabling and
  the other way round; an id that is not an installed directory is refused and nothing changes.
\<close>

theorem set_enabled_effect:
  assumes "set_enabled deps root i b t = (r, t')" and "root \<noteq> []" and "path_components i = [Normal i]"
    and "plain_below (root @ [Normal i]) t"
  shows "(\<forall>q. q \<noteq> root @ [Normal i, Normal ''.disabled''] \<longrightarrow> node_at t' q = node_at t q) \<and>
    (r = Inr () \<longrightarrow> exists_at t' (root @ [Normal i, Normal ''.disabled'']) = (\<not> b) \<and>
       (\<forall>plugin t2. load_installed deps path_var (root @ [Normal i]) t' = (Inr plugin, t2) \<longrightarrow> ip_enabled plugin = b)) \<and>
    (\<not> dir_at t (root @ [Normal i]) \<longrightarrow> r \<noteq> Inr () \<and> t' = t)"
  using assms(1-3)
proof (cases rule: set_enabled_cases)
  case (2)
  let ?mk = "root @ [Normal i, Normal ''.disabled'']"
  have "plain_below ?mk t"
    unfolding plain_below_def
  proof (intro allI impI)
    fix q n assume "prefix ?mk q \<and> node_at t q = Some n"
    moreover from this have "prefix (root @ [Normal i]) q" by (auto simp: prefix_def)
    ultimately show "(\<exists>c m. n = NFile c m) \<or> (\<exists>m. n = NDir m)"
      using assms(4) unfolding plain_below_def by blast
  qed
  then have "r = Inr () \<Longrightarrow> exists_at t' ?mk = (\<not> b)"
    using 2 set_marker_enables set_marker_disables by (cases b) auto
  with 2 touchesD [OF touches_set_marker 2(2)] show ?thesis
    by (auto dest: load_installed_enabled)
qed simp

definition demo_installed_id :: string where
  "demo_installed_id = ''com.example.echo''"

lemma demo_set_enabled:
  "case set_enabled demo_deps demo_root demo_installed_id False (snd demo_install) of (r, t') \<Rightarrow> r = Inr ()"
  "list_all (\<lambda>(_, n). case n of NFile _ _ \<Rightarrow> True | NDir _ \<Rightarrow> True | _ \<Rightarrow> False) (tr_nodes (snd demo_install))"
  "path_components demo_installed_id = [Normal demo_installed_id]"
  by code_simp+

theorem set_enabled_effect_witness:
  "\<exists>t'. set_enabled demo_deps demo_root demo_installed_id False (snd demo_install) = (Inr (), t') \<and>
     exists_at t' (demo_root @ [Normal demo_installed_id, Normal ''.disabled''])"
proof -
  obtain t' where t': "set_enabled demo_deps demo_root demo_installed_id False (snd demo_install) = (Inr (), t')"
    using demo_set_enabled(1) by (auto split: prod.splits)
  have "plain_below (demo_root @ [Normal demo_installed_id]) (snd demo_install)"
    using demo_set_enabled(2)
    by (auto simp: plain_below_def node_at_def list_all_iff dest!: map_of_SomeD split: node.splits)
  from set_enabled_effect [OF t' _ demo_set_enabled(3) this] t' show ?thesis
    by (auto simp: demo_root_def)
qed

end
