(* ===== verification/Shell.thy ===== *)
theory Shell
  imports FileShared
begin

text \<open>
  Running commands: the shell tool (\<^verbatim>\<open>wsl-runtime/src/shell.rs\<close>) and its Linux backend
  (\<^verbatim>\<open>wsl-runtime/src/native.rs\<close>). The process and the operating system are arguments: \<open>canonicalize\<close> is
  \<^verbatim>\<open>std::fs::canonicalize\<close>, \<open>process\<close> what a spawned command does: the chunks read from its pipes, how it
  ends, and whether the cancellation came first.
\<close>

section \<open>Specifications of commands\<close>

record resource_limits =
  rl_memory_bytes :: "64 word option"
  rl_cpu_seconds :: "64 word option"
  rl_process_count :: "64 word option"
  rl_max_stdout :: nat
  rl_max_stderr :: nat

definition ResourceLimits_default :: resource_limits where
  "ResourceLimits_default =
     \<lparr>rl_memory_bytes = None, rl_cpu_seconds = None, rl_process_count = None,
      rl_max_stdout = 2 ^ 20, rl_max_stderr = 2 ^ 20\<rparr>"

record command_spec =
  csp_argv :: "string list"
  csp_cwd :: "path option"
  csp_env :: "(string \<times> string) list"
  csp_limits :: resource_limits

record command_output =
  co_exit_code :: "int option"
  co_signal :: "int option"
  co_stdout :: string
  co_stderr :: string
  co_truncated :: bool
  co_terminated :: bool
  co_duration :: duration

fun argv_strings :: "json list \<Rightarrow> execution_error + string list" where
  "argv_strings [] = Inr []"
| "argv_strings (v # vs) =
     bindE (ok_or (Other ''shell: `argv` entries must be strings'') (as_str v)) (\<lambda>s.
     bindE (argv_strings vs) (\<lambda>ss. Inr (s # ss)))"

definition argv_from :: "json \<Rightarrow> execution_error + string list" where
  "argv_from arguments =
     bindE (ok_or (Other ''shell: `argv` must be a non-empty array'') (Option.bind (json_get arguments ''argv'') as_array))
       (\<lambda>argv. if argv = [] then Inl (Other ''shell: `argv` must not be empty'') else argv_strings argv)"

definition env_from :: "json \<Rightarrow> (string \<times> string) list" where
  "env_from arguments =
     (case Option.bind (json_get arguments ''env'') as_object of
        None \<Rightarrow> []
      | Some entries \<Rightarrow>
          set_envs (concat (map (\<lambda>(k, v). case as_str v of Some s \<Rightarrow> [(k, s)] | None \<Rightarrow> []) entries)) [])"

text \<open>The first part of \<^verbatim>\<open>ShellTool::invoke\<close>, up to the call of the backend.\<close>

definition shell_spec :: "json \<Rightarrow> execution_error + command_spec" where
  "shell_spec arguments =
     bindE (argv_from arguments) (\<lambda>argv.
       Inr \<lparr>csp_argv = argv, csp_cwd = map_option path_components (json_str arguments ''cwd''),
            csp_env = env_from arguments,
            csp_limits = ResourceLimits_default
              \<lparr>rl_memory_bytes := json_u64 arguments ''memory_bytes'',
               rl_cpu_seconds := json_u64 arguments ''cpu_seconds'',
               rl_process_count := json_u64 arguments ''process_count''\<rparr>\<rparr>)"

definition json_int :: "int option \<Rightarrow> json" where
  "json_int n =
     (case n of None \<Rightarrow> JNull
      | Some n \<Rightarrow> JNumber (if 0 \<le> n then PosInt (word_of_int n) else NegInt n))"

definition output_json :: "command_output \<Rightarrow> json" where
  "output_json out =
     json_object
       [(''exit_code'', json_int (co_exit_code out)), (''signal'', json_int (co_signal out)),
        (''stdout'', JString (co_stdout out)), (''stderr'', JString (co_stderr out)),
        (''truncated'', JBool (co_truncated out)), (''terminated'', JBool (co_terminated out)),
        (''duration_ms'', json_usize (co_duration out div 1000000))]"

record shell_tool =
  st_name :: string
  st_description :: string
  st_exclusive :: bool

definition ShellTool_new :: shell_tool where
  "ShellTool_new =
     \<lparr>st_name = ''shell'', st_description = ''runs a command on the execution backend'', st_exclusive = False\<rparr>"

definition shell_schema :: json where
  "shell_schema =
     (let ty = (\<lambda>t. (''type'', JString t)); zero = JNumber (PosInt 0) in
      json_object
        [ty ''object'', (''required'', JArray [JString ''argv'']),
         (''properties'', json_object
            [(''argv'', json_object
                [ty ''array'', (''items'', json_object [ty ''string'']), (''minItems'', JNumber (PosInt 1))]),
             (''cwd'', json_object [ty ''string'']),
             (''env'', json_object [ty ''object'', (''additionalProperties'', json_object [ty ''string''])]),
             (''memory_bytes'', json_object [ty ''integer'', (''minimum'', zero)]),
             (''cpu_seconds'', json_object [ty ''integer'', (''minimum'', zero)]),
             (''process_count'', json_object [ty ''integer'', (''minimum'', zero)])])])"

definition shell_definition :: "shell_tool \<Rightarrow> tool_definition" where
  "shell_definition st =
     \<lparr>tdef_name = st_name st, tdef_description = st_description st, tdef_input_schema = shell_schema\<rparr>"

definition shell_exclusive :: "shell_tool \<Rightarrow> shell_tool" where
  "shell_exclusive st = st\<lparr>st_exclusive := True\<rparr>"

definition shell_is_concurrency_safe :: "shell_tool \<Rightarrow> json \<Rightarrow> bool" where
  "shell_is_concurrency_safe st _ \<longleftrightarrow> \<not> st_exclusive st"

definition shell_invocation_detail :: "shell_tool \<Rightarrow> json \<Rightarrow> string" where
  "shell_invocation_detail st arguments =
     (case argv_from arguments of Inr argv \<Rightarrow> join_with '' '' argv | Inl _ \<Rightarrow> st_name st)"

text \<open>The tool; \<open>invoke\<close> is \<^verbatim>\<open>ShellTool::invoke\<close> on its backend as an activity.\<close>

definition shell_as_tool ::
  "(json \<Rightarrow> tool_context \<Rightarrow> (execution_error + json) activity) \<Rightarrow> shell_tool \<Rightarrow> tool"
where
  "shell_as_tool invoke st =
     \<lparr>t_definition = shell_definition st,
      t_is_concurrency_safe = (\<lambda>arguments. Returned (shell_is_concurrency_safe st arguments)),
      t_invocation_detail = (\<lambda>arguments. Returned (shell_invocation_detail st arguments)),
      t_validate = default_validate, t_invoke = invoke\<rparr>"


section \<open>The Linux backend\<close>

record native_shell_config =
  nsc_inherit_env :: bool
  nsc_base_env :: "(string \<times> string) list"
  nsc_cwd :: "path option"
  nsc_workspace_root :: "path option"
  nsc_limits :: resource_limits

text \<open>\<open>vars\<close> is the environment of the daemon itself.\<close>

definition assemble_env ::
  "(string \<times> string) list \<Rightarrow> native_shell_config \<Rightarrow> command_spec \<Rightarrow> (string \<times> string) list"
where
  "assemble_env vars config spec =
     set_envs (csp_env spec)
       (set_envs (nsc_base_env config) (if nsc_inherit_env config then vars else []))"

definition resolve_cwd ::
  "(path \<Rightarrow> fs_error + path) \<Rightarrow> native_shell_config \<Rightarrow> command_spec \<Rightarrow> execution_error + path option"
where
  "resolve_cwd canonicalize config spec =
     (case nsc_workspace_root config of
        None \<Rightarrow> Inr (case csp_cwd spec of Some c \<Rightarrow> Some c | None \<Rightarrow> nsc_cwd config)
      | Some root \<Rightarrow>
          bindE (map_err (\<lambda>e. Other (''failed to canonicalize shell workspace: '' @ fe_text e)) (canonicalize root))
            (\<lambda>workspace.
              let requested =
                (case csp_cwd spec of
                   Some cwd \<Rightarrow> if is_absolute cwd then cwd else path_join workspace cwd
                 | None \<Rightarrow> (case nsc_cwd config of Some cwd \<Rightarrow> cwd | None \<Rightarrow> workspace)) in
              bindE (map_err (\<lambda>e. Other (''invalid shell cwd '' @ path_display requested @ '': '' @ fe_text e))
                       (canonicalize requested)) (\<lambda>canonical.
                if \<not> path_starts_with canonical workspace
                then Inl (Other (''shell cwd escapes workspace: '' @ path_display requested))
                else Inr (Some canonical))))"

text \<open>The command handed to the operating system.\<close>

record native_command =
  nc_program :: string
  nc_args :: "string list"
  nc_current_dir :: "path option"
  nc_env :: "(string \<times> string) list"
  nc_memory :: "64 word option"
  nc_cpu :: "64 word option"
  nc_processes :: "64 word option"

definition or_else :: "'a option \<Rightarrow> 'a option \<Rightarrow> 'a option" where
  "or_else a b = (case a of Some x \<Rightarrow> Some x | None \<Rightarrow> b)"

definition native_command_of ::
  "(path \<Rightarrow> fs_error + path) \<Rightarrow> (string \<times> string) list \<Rightarrow> native_shell_config \<Rightarrow> command_spec \<Rightarrow>
     execution_error + native_command"
where
  "native_command_of canonicalize vars config spec =
     (case csp_argv spec of
        [] \<Rightarrow> Inl (Other ''command argv is empty'')
      | program # args \<Rightarrow>
          bindE (resolve_cwd canonicalize config spec) (\<lambda>cwd.
            Inr \<lparr>nc_program = program, nc_args = args, nc_current_dir = cwd, nc_env = assemble_env vars config spec,
                 nc_memory = or_else (rl_memory_bytes (csp_limits spec)) (rl_memory_bytes (nsc_limits config)),
                 nc_cpu = or_else (rl_cpu_seconds (csp_limits spec)) (rl_cpu_seconds (nsc_limits config)),
                 nc_processes = or_else (rl_process_count (csp_limits spec)) (rl_process_count (nsc_limits config))\<rparr>))"

text \<open>
  The loop of \<^verbatim>\<open>read_capped\<close>, over what the reads return until the end of the pipe or an error.
\<close>

fun read_loop :: "nat \<Rightarrow> string list \<Rightarrow> string \<Rightarrow> bool \<Rightarrow> string \<times> bool" where
  "read_loop cap [] bytes truncated = (bytes, truncated)"
| "read_loop cap (chunk # chunks) bytes truncated =
     (if cap \<le> length bytes then read_loop cap chunks bytes True
      else
        let remaining = cap - length bytes in
        if remaining < length chunk then read_loop cap chunks (bytes @ take remaining chunk) True
        else read_loop cap chunks (bytes @ chunk) truncated)"

definition read_capped :: "nat \<Rightarrow> string list \<Rightarrow> string \<times> bool" where
  "read_capped cap chunks =
     (case read_loop cap chunks [] False of (bytes, truncated) \<Rightarrow> (utf8_lossy bytes, truncated))"

text \<open>
  A spawned command: its id, what its pipes deliver (\<open>None\<close> when a reader task fails), and which branch of the
  \<^verbatim>\<open>select!\<close> was taken.
\<close>

datatype process_end = CancelledFirst | Ended "int option" "int option" | WaitFailed string

record process =
  pr_pid :: "nat option"
  pr_stdout :: "string list option"
  pr_stderr :: "string list option"
  pr_end :: process_end
  pr_elapsed :: duration

definition capture :: "nat \<Rightarrow> string list option \<Rightarrow> string \<times> bool" where
  "capture cap chunks = (case chunks of None \<Rightarrow> ([], False) | Some cs \<Rightarrow> read_capped cap cs)"

text \<open>\<^verbatim>\<open>run\<close>: its result, and whether the process group was killed (by the branch or by the guard).\<close>

definition native_run ::
  "(path \<Rightarrow> fs_error + path) \<Rightarrow> (string \<times> string) list \<Rightarrow> native_shell_config \<Rightarrow> command_spec \<Rightarrow>
     (native_command \<Rightarrow> string + process) \<Rightarrow> (execution_error + command_output) \<times> bool"
where
  "native_run canonicalize vars config spec spawn =
     (case bindE (native_command_of canonicalize vars config spec) (\<lambda>c.
             map_err (\<lambda>e. Other (''spawn `'' @ nc_program c @ ''` failed: '' @ e)) (spawn c)) of
        Inl e \<Rightarrow> (Inl e, False)
      | Inr p \<Rightarrow>
          if pr_pid p = None then (Inl (Other ''spawned child has no pid''), False)
          else
            let (stdout, out_cut) = capture (rl_max_stdout (csp_limits spec)) (pr_stdout p);
                (stderr, err_cut) = capture (rl_max_stderr (csp_limits spec)) (pr_stderr p);
                output = (\<lambda>code signal terminated.
                  \<lparr>co_exit_code = code, co_signal = signal, co_stdout = stdout, co_stderr = stderr,
                   co_truncated = out_cut \<or> err_cut, co_terminated = terminated, co_duration = pr_elapsed p\<rparr>) in
            (case pr_end p of
               CancelledFirst \<Rightarrow> (Inr (output None None True), True)
             | WaitFailed e \<Rightarrow> (Inl (Other (''waiting for command failed: '' @ e)), True)
             | Ended code signal \<Rightarrow> (Inr (output code signal False), False)))"

definition shell_invoke ::
  "(path \<Rightarrow> fs_error + path) \<Rightarrow> (string \<times> string) list \<Rightarrow> native_shell_config \<Rightarrow>
     (native_command \<Rightarrow> string + process) \<Rightarrow> json \<Rightarrow> execution_error + json"
where
  "shell_invoke canonicalize vars config spawn arguments =
     bindE (shell_spec arguments) (\<lambda>spec.
     bindE (fst (native_run canonicalize vars config spec spawn)) (\<lambda>output. Inr (output_json output)))"


section \<open>Capturing output\<close>

lemma read_loop_spec:
  "list_all (\<lambda>c. c \<noteq> []) chunks \<Longrightarrow> length bytes \<le> cap \<Longrightarrow>
     read_loop cap chunks bytes tr =
       (take cap (bytes @ concat chunks), tr \<or> cap < length (bytes @ concat chunks))"
proof (induction cap chunks bytes tr rule: read_loop.induct)
  case (2 cap chunk chunks bytes tr)
  show ?case
  proof (cases "cap \<le> length bytes")
    case True
    moreover have "0 < length chunk" using 2 by simp
    ultimately show ?thesis using 2 by simp
  next
    case False
    then show ?thesis using 2 by (cases "cap - length bytes < length chunk") auto
  qed
qed simp

text \<open>
  (C27) Capturing a pipe in pieces, of whatever sizes the reads return, gives the same as reading
  everything and cutting it: the text is the first \<open>cap\<close> bytes of the whole output, made valid
  UTF-8, and the flag says whether there was more; at most \<open>cap\<close> bytes are ever kept.
\<close>

theorem read_capped_spec:
  assumes "list_all (\<lambda>c. c \<noteq> []) chunks"
  shows "read_capped cap chunks = (utf8_lossy (take cap (concat chunks)), cap < length (concat chunks)) \<and>
    length (fst (read_loop cap chunks [] False)) \<le> cap"
  using read_loop_spec [OF assms, of "[]" cap False] by (simp add: read_capped_def)

theorem read_capped_spec_witness:
  "read_capped 3 [''ab'', ''c'', ''de''] = (utf8_lossy ''abc'', True) \<and> read_capped 5 [''ab'', ''cde''] = (utf8_lossy ''abcde'', False)"
  using read_capped_spec [of "[''ab'', ''c'', ''de'']" 3] read_capped_spec [of "[''ab'', ''cde'']" 5] by simp


section \<open>What a command may do\<close>

lemma argv_strings_map: "argv_strings vs = Inr ss \<Longrightarrow> vs = map JString ss"
  by (induction vs arbitrary: ss) (auto simp: result_simps)

lemma argv_from_ok: "argv_from arguments = Inr argv \<Longrightarrow> argv \<noteq> [] \<and> json_get arguments ''argv'' = Some (JArray (map JString argv))"
  by (auto simp: argv_from_def result_simps dest!: argv_strings_map split: if_splits bind_splits)

lemma resolve_cwd_ok:
  assumes "resolve_cwd canonicalize config spec = Inr cwd" and "nsc_workspace_root config = Some root"
  shows "\<exists>w d. canonicalize root = Inr w \<and> cwd = Some d \<and> path_starts_with d w \<and> (\<exists>r. canonicalize r = Inr d)"
  using assms by (auto simp: resolve_cwd_def Let_def result_simps split: if_splits)

text \<open>
  (C26) What a command of the shell tool runs as. The arguments name the program and its
  arguments as given; with a workspace configured, as the daemon does, the command starts in a canonical
  directory below the canonical workspace, wherever the request points; variables come from the request, then the
  base environment, then (only when inheriting) the daemon's own; each limit is the requested one or else the
  configured one; and a command ended by a cancellation or a failed wait has had its whole process group killed.
\<close>

theorem shell_command_confined:
  assumes "shell_spec arguments = Inr spec" and "native_command_of canonicalize vars config spec = Inr c"
    and "nsc_workspace_root config = Some root"
  shows "json_get arguments ''argv'' = Some (JArray (map JString (nc_program c # nc_args c))) \<and>
    (\<exists>w d. canonicalize root = Inr w \<and> nc_current_dir c = Some d \<and> path_starts_with d w \<and> (\<exists>r. canonicalize r = Inr d)) \<and>
    map_of (nc_env c) = (if nsc_inherit_env config then map_of vars else Map.empty) ++ map_of (rev (nsc_base_env config)) ++
      map_of (rev (csp_env spec)) \<and>
    nc_memory c = or_else (json_u64 arguments ''memory_bytes'') (rl_memory_bytes (nsc_limits config)) \<and>
    nc_cpu c = or_else (json_u64 arguments ''cpu_seconds'') (rl_cpu_seconds (nsc_limits config)) \<and>
    nc_processes c = or_else (json_u64 arguments ''process_count'') (rl_process_count (nsc_limits config)) \<and>
    (case spawn c of
       Inr p \<Rightarrow> pr_pid p \<noteq> None \<and> (pr_end p = CancelledFirst \<or> (\<exists>e. pr_end p = WaitFailed e)) \<longrightarrow>
         snd (native_run canonicalize vars config spec spawn)
     | Inl _ \<Rightarrow> True)"
proof -
  obtain argv where argv: "argv_from arguments = Inr argv" and spec: "csp_argv spec = argv"
      "csp_limits spec = ResourceLimits_default\<lparr>rl_memory_bytes := json_u64 arguments ''memory_bytes'',
         rl_cpu_seconds := json_u64 arguments ''cpu_seconds'', rl_process_count := json_u64 arguments ''process_count''\<rparr>"
    using assms(1) by (auto simp: shell_spec_def result_simps)
  from assms(2) obtain program args cwd where c: "argv = program # args" "resolve_cwd canonicalize config spec = Inr cwd"
      "nc_program c = program" "nc_args c = args" "nc_current_dir c = cwd" "nc_env c = assemble_env vars config spec"
    and lim: "nc_memory c = or_else (rl_memory_bytes (csp_limits spec)) (rl_memory_bytes (nsc_limits config))"
      "nc_cpu c = or_else (rl_cpu_seconds (csp_limits spec)) (rl_cpu_seconds (nsc_limits config))"
      "nc_processes c = or_else (rl_process_count (csp_limits spec)) (rl_process_count (nsc_limits config))"
    by (auto simp: native_command_of_def spec(1) result_simps split: list.splits)
  have "snd (native_run canonicalize vars config spec spawn)"
    if "spawn c = Inr p" "pr_pid p \<noteq> None" "pr_end p = CancelledFirst \<or> (\<exists>e. pr_end p = WaitFailed e)" for p
    using that assms(2) by (auto simp: native_run_def Let_def split: prod.splits)
  then show ?thesis
    using argv_from_ok [OF argv] c lim spec(2) resolve_cwd_ok [OF c(2) assms(3)]
    by (auto simp: assemble_env_def map_of_set_envs split: sum.split)
qed

definition demo_shell_config :: native_shell_config where
  "demo_shell_config =
     \<lparr>nsc_inherit_env = False, nsc_base_env = [(''LANG'', ''C'')], nsc_cwd = Some [RootDir, Normal ''w''],
      nsc_workspace_root = Some [RootDir, Normal ''w''], nsc_limits = ResourceLimits_default\<rparr>"

definition demo_arguments :: json where
  "demo_arguments =
     JObject [(''argv'', JArray [JString ''ls'', JString ''-l'']), (''cwd'', JString ''sub''), (''cpu_seconds'', JNumber (PosInt 5))]"

definition demo_native :: "execution_error + native_command" where
  "demo_native = bindE (shell_spec demo_arguments) (native_command_of Inr [(''HOME'', ''/root'')] demo_shell_config)"

theorem shell_command_confined_witness:
  "\<exists>spec c. shell_spec demo_arguments = Inr spec \<and>
     native_command_of Inr [(''HOME'', ''/root'')] demo_shell_config spec = Inr c \<and>
     nc_current_dir c = Some [RootDir, Normal ''w'', Normal ''sub''] \<and> map_of (nc_env c) ''HOME'' = None"
proof -
  obtain spec c where s: "shell_spec demo_arguments = Inr spec"
    and c: "native_command_of Inr [(''HOME'', ''/root'')] demo_shell_config spec = Inr c"
    and e: "csp_env spec = []" and d: "nc_current_dir c = Some [RootDir, Normal ''w'', Normal ''sub'']"
    by (simp add: shell_spec_def demo_arguments_def argv_from_def json_str_def env_from_def native_command_of_def
        resolve_cwd_def demo_shell_config_def path_components_def inner_components_def segment_component_def
        is_absolute_def path_join_def path_starts_with_def)
  have "nsc_workspace_root demo_shell_config = Some [RootDir, Normal ''w'']" by (simp add: demo_shell_config_def)
  from shell_command_confined [OF s c this, of "\<lambda>_. Inl []"] e s c d show ?thesis
    by (intro exI [of _ spec] exI [of _ c]) (simp add: demo_shell_config_def)
qed

text \<open>
  The capture ceilings of a request are the built-in ones: whatever ceilings are configured, the
  output kept is the same.
\<close>

lemma resolve_cwd_limits: "resolve_cwd canonicalize (config\<lparr>nsc_limits := l\<rparr>) spec = resolve_cwd canonicalize config spec"
  by (cases "nsc_workspace_root config"; cases "csp_cwd spec"; cases "nsc_cwd config")
    (simp_all add: resolve_cwd_def)

lemma configured_capture_limits_unused:
  assumes "shell_spec arguments = Inr spec"
  shows "native_run canonicalize vars
      (config\<lparr>nsc_limits := (nsc_limits config)\<lparr>rl_max_stdout := a, rl_max_stderr := b\<rparr>\<rparr>) spec spawn =
    native_run canonicalize vars config spec spawn \<and> rl_max_stdout (csp_limits spec) = 2 ^ 20"
proof -
  have "native_command_of canonicalize vars
      (config\<lparr>nsc_limits := (nsc_limits config)\<lparr>rl_max_stdout := a, rl_max_stderr := b\<rparr>\<rparr>) spec =
    native_command_of canonicalize vars config spec"
    by (cases "csp_argv spec") (simp_all add: native_command_of_def resolve_cwd_limits assemble_env_def)
  with assms show ?thesis
    by (auto simp: native_run_def shell_spec_def result_simps ResourceLimits_default_def)
qed

end
