(* ===== verification/Config.thy ===== *)
theory Config
  imports Shell
begin

text \<open>
  The daemon's configuration and command line (\<^verbatim>\<open>wsl-executor-daemon/src/config.rs\<close> and the
  argument handling of \<^verbatim>\<open>main.rs\<close>). The command line, the environment variables, the passwd entry and the file
  system are arguments; \<open>from_str\<close> is \<^verbatim>\<open>serde_json::from_str\<close> at the configuration type.
\<close>

record daemon_config =
  dc_workspace_root :: "path option"
  dc_concurrency_limit :: "usize option"
  dc_global_concurrency_limit :: "usize option"
  dc_tool_timeout_ms :: "64 word option"
  dc_inherit_env :: "bool option"
  dc_base_env :: "(string \<times> string) list option"
  dc_limits :: "resource_limits option"
  dc_exclusive :: "bool option"
  dc_plugins_enabled :: "bool option"
  dc_plugin_dir :: "path option"
  dc_plugin_start_timeout_ms :: "64 word option"
  dc_plugin_cancel_grace_ms :: "64 word option"

definition DaemonConfig_default :: daemon_config where
  "DaemonConfig_default =
     \<lparr>dc_workspace_root = None, dc_concurrency_limit = None, dc_global_concurrency_limit = None,
      dc_tool_timeout_ms = None, dc_inherit_env = None, dc_base_env = None, dc_limits = None, dc_exclusive = None,
      dc_plugins_enabled = None, dc_plugin_dir = None, dc_plugin_start_timeout_ms = None, dc_plugin_cancel_grace_ms = None\<rparr>"

datatype config_error =
    CE_Usage string
  | CE_Read path fs_error
  | CE_Parse string


section \<open>Finding the file\<close>

definition home_dir :: "path option \<Rightarrow> path option \<Rightarrow> path option" where
  "home_dir home passwd =
     (case home of
        Some p \<Rightarrow> if is_absolute p then Some p else or_else passwd home
      | None \<Rightarrow> or_else passwd home)"

definition default_plugin_dir :: "path option \<Rightarrow> path option" where
  "default_plugin_dir home = map_option (\<lambda>h. path_join h (path_components ''.local/share/ate/plugins'')) home"

text \<open>\<^verbatim>\<open>str::trim_start_matches\<close> by a pattern that is not empty: as often as it matches.\<close>

function trim_start_matches :: "string \<Rightarrow> string \<Rightarrow> string" where
  "trim_start_matches pat s =
     (if pat \<noteq> [] \<and> prefix pat s then trim_start_matches pat (drop (length pat) s) else s)"
  by pat_completeness auto
termination
  by (relation "measure (\<lambda>(_, s). length s)") (auto simp: prefix_def)

declare trim_start_matches.simps [simp del]

definition config_flag :: string where
  "config_flag = ''--config''"

definition config_prefix :: string where
  "config_prefix = ''--config=''"

fun find_explicit :: "string \<Rightarrow> string list \<Rightarrow> string option \<Rightarrow> config_error + string option" where
  "find_explicit program [] explicit = Inr explicit"
| "find_explicit program (arg # args) explicit =
     (if arg = config_flag then
        (case args of
           [] \<Rightarrow> Inl (CE_Usage (program @ '': --config requires a path''))
         | v # args' \<Rightarrow> find_explicit program args' (Some v))
      else if prefix config_prefix arg
      then find_explicit program args (Some (trim_start_matches config_prefix arg))
      else find_explicit program args explicit)"

text \<open>\<open>argv\<close> with the program first; \<open>ate_config\<close> is the variable; \<open>home\<close> the home directory.\<close>

definition find_path ::
  "string list \<Rightarrow> string option \<Rightarrow> path option \<Rightarrow> (path \<Rightarrow> bool) \<Rightarrow> config_error + path option"
where
  "find_path argv ate_config home exists_path =
     bindE (case argv of [] \<Rightarrow> Inr None | program # args \<Rightarrow> find_explicit program args None) (\<lambda>explicit.
       case explicit of
         Some p \<Rightarrow> Inr (Some (path_components p))
       | None \<Rightarrow>
           (case ate_config of
              Some p \<Rightarrow> Inr (Some (path_components p))
            | None \<Rightarrow>
                (case home of
                   None \<Rightarrow> Inr None
                 | Some h \<Rightarrow>
                     let default_path = path_join h (path_components ''.config/ate/config.json'') in
                     Inr (if exists_path default_path then Some default_path else None))))"

definition load_config ::
  "string list \<Rightarrow> string option \<Rightarrow> path option \<Rightarrow> (path \<Rightarrow> bool) \<Rightarrow> (path \<Rightarrow> fs_error + string) \<Rightarrow>
     (string \<Rightarrow> string + daemon_config) \<Rightarrow> config_error + daemon_config"
where
  "load_config argv ate_config home exists_path read_to_string from_str =
     bindE (find_path argv ate_config home exists_path) (\<lambda>found.
       case found of
         None \<Rightarrow> Inr DaemonConfig_default
       | Some p \<Rightarrow> bindE (map_err (CE_Read p) (read_to_string p)) (\<lambda>raw. map_err CE_Parse (from_str raw)))"


section \<open>The command line of the daemon\<close>

definition is_config_value :: "string list \<Rightarrow> string \<Rightarrow> bool" where
  "is_config_value args candidate \<longleftrightarrow>
     list_ex (\<lambda>(a, b). a = config_flag \<and> b = candidate) (zip args (tl args))"

definition command_of :: "string list \<Rightarrow> string" where
  "command_of args =
     (case find (\<lambda>arg. \<not> prefix ''-'' arg \<and> \<not> is_config_value args arg) args of
        Some c \<Rightarrow> c | None \<Rightarrow> ''stdio'')"

fun config_args :: "string list \<Rightarrow> string list" where
  "config_args [] = []"
| "config_args (arg # args) =
     (if arg = config_flag then
        (case args of v # args' \<Rightarrow> config_flag # v # config_args args' | [] \<Rightarrow> [])
      else if prefix config_prefix arg then arg # config_args args
      else config_args args)"


section \<open>What is handed on to the background daemon\<close>

lemma find_explicit_acc:
  "find_explicit program args acc =
     (case find_explicit program args None of Inl e \<Rightarrow> Inl e | Inr None \<Rightarrow> Inr acc | Inr (Some v) \<Rightarrow> Inr (Some v))"
proof (induction args arbitrary: acc rule: config_args.induct)
  case (2 arg args)
  show ?case
  proof (cases "arg = config_flag")
    case True
    show ?thesis
    proof (cases args)
      case (Cons v rest)
      note ih = "2.IH"(1) [OF True Cons, of "Some v"]
      have "find_explicit program rest (Some v) \<noteq> Inr None"
        by (subst ih) (auto split: sum.splits option.splits)
      with True Cons show ?thesis by (auto split: sum.splits option.splits)
    qed (simp add: True)
  next
    case False
    show ?thesis
    proof (cases "prefix config_prefix arg")
      case True
      let ?v = "Some (trim_start_matches config_prefix arg)"
      have "find_explicit program args ?v \<noteq> Inr None"
        by (subst "2.IH"(2) [OF False True]) (auto split: sum.splits option.splits)
      with True False show ?thesis by (auto split: sum.splits option.splits)
    next
      case outer: False
      with False show ?thesis using "2.IH"(3) [OF False outer, of acc] by simp
    qed
  qed
qed simp

text \<open>
  The background daemon is started with \<^verbatim>\<open>serve\<close> and the configuration arguments only. It finds the
  same configuration file argument as the command that starts it, unless that command line is one that
  both refuse.
\<close>

lemma config_args_same_file:
  assumes "find_explicit program args None = Inr found"
  shows "find_explicit program' (config_args args) None = Inr found"
  using assms
proof (induction args arbitrary: found rule: config_args.induct)
  case (2 arg args)
  show ?case
  proof (cases "arg = config_flag")
    case True
    with "2.prems" obtain v rest where args: "args = v # rest" by (cases args) auto
    with "2.prems" True have f: "find_explicit program rest (Some v) = Inr found" by simp
    then obtain g where g: "find_explicit program rest None = Inr g"
      by (subst (asm) find_explicit_acc) (auto split: sum.splits option.splits)
    with "2.IH"(1) [OF True args] have "find_explicit program' (config_args rest) None = Inr g" by blast
    then show ?thesis
      using f g True args find_explicit_acc [of program rest "Some v"]
        find_explicit_acc [of program' "config_args rest" "Some v"]
      by (simp add: config_flag_def split: option.splits)
  next
    case False
    show ?thesis
    proof (cases "prefix config_prefix arg")
      case True
      let ?v = "Some (trim_start_matches config_prefix arg)"
      from False True "2.prems" have f: "find_explicit program args ?v = Inr found" by simp
      then obtain g where g: "find_explicit program args None = Inr g"
        by (subst (asm) find_explicit_acc) (auto split: sum.splits option.splits)
      with "2.IH"(2) [OF False True] have "find_explicit program' (config_args args) None = Inr g" by blast
      then show ?thesis
        using f g False True find_explicit_acc [of program args ?v] find_explicit_acc [of program' "config_args args" ?v]
        by (simp split: option.splits)
    next
      case outer: False
      with False "2.prems" "2.IH"(3) show ?thesis by simp
    qed
  qed
qed simp

end
