(* ===== verification/Daemon.thy ===== *)
theory Daemon
  imports Config Server SupervisorCalls Package
begin

text \<open>
  The daemon (\<^verbatim>\<open>wsl-executor-daemon/src/daemon.rs\<close>): which workspaces and tokens it accepts, how it
  builds the session of a connection (the built-in tools, the shell, the plugins), and how a daemon
  process is found or started. Everything outside is in \<open>daemon_env\<close>: \<^verbatim>\<open>canonicalize\<close>, \<^verbatim>\<open>statfs\<close>, the home
  directory, the schema compiler, plugin discovery (the theory \<open>Package\<close>), the built-in tools, and the activities of
  the shell and of the plugin supervisors.
\<close>

section \<open>Workspaces\<close>

record daemon_env =
  de_canonicalize :: "path \<Rightarrow> fs_error + path"
  de_statfs :: "path \<Rightarrow> string + int"
  de_home :: "path option"
  de_validator_for :: "json \<Rightarrow> string + validator"
  de_discover :: "path \<Rightarrow> store_error + installed_plugin list \<times> string list"
  de_core_tools :: "tool list"
  de_shell :: "native_shell_config \<Rightarrow> json \<Rightarrow> tool_context \<Rightarrow> (execution_error + json) activity"
  de_plugin :: "plugin_manifest \<Rightarrow> path \<Rightarrow> plugin_runtime_config \<Rightarrow>
    string \<Rightarrow> string \<Rightarrow> json \<Rightarrow> tool_context \<Rightarrow> (execution_error + json) activity"

definition V9FS_MAGIC :: int where
  "V9FS_MAGIC = 0x01021997"

definition reject_windows_filesystem :: "daemon_env \<Rightarrow> path \<Rightarrow> string + unit" where
  "reject_windows_filesystem env p =
     (if path_starts_with p (path_components ''/mnt'')
      then Inl (''workspace '' @ path_display p @ '' is under /mnt and is not on WSL ext4'')
      else if CHR 0x00 \<in> set (path_display p) then Inl ''workspace path contains a NUL byte''
      else
        (case de_statfs env p of
           Inl e \<Rightarrow> Inl (''cannot inspect workspace filesystem: '' @ e)
         | Inr f_type \<Rightarrow>
             if f_type = V9FS_MAGIC then Inl (''workspace '' @ path_display p @ '' is on a DrvFS/9P filesystem'')
             else Inr ()))"

definition validate_workspace :: "daemon_env \<Rightarrow> path \<Rightarrow> path \<Rightarrow> string + path" where
  "validate_workspace env root workspace =
     (if \<not> is_absolute workspace then Inl ''workspace must be an absolute Linux path''
      else
        bindE (map_err (\<lambda>e. ''workspace '' @ path_display workspace @ '' is unavailable: '' @ fe_text e)
                 (de_canonicalize env workspace)) (\<lambda>canonical.
          if \<not> path_starts_with canonical root
          then Inl (''workspace '' @ path_display canonical @ '' is outside workspace_root '' @ path_display root)
          else bindE (reject_windows_filesystem env canonical) (\<lambda>_. Inr canonical)))"

record daemon_runtime =
  dr_config :: daemon_config
  dr_workspace_root :: path
  dr_token :: string
  dr_global_permits :: nat

definition unwrap_some :: "'a \<Rightarrow> 'a option \<Rightarrow> 'a" where
  "unwrap_some d m = (case m of Some a \<Rightarrow> a | None \<Rightarrow> d)"

text \<open>\<^verbatim>\<open>Semaphore::new\<close> panics on more permits than it can hold.\<close>

definition semaphore_panic :: panic_payload where
  "semaphore_panic = PanicStr ''a semaphore may not have more than MAX_PERMITS permits''"

definition DaemonRuntime_new :: "daemon_env \<Rightarrow> daemon_config \<Rightarrow> string \<Rightarrow> (string + daemon_runtime) outcome" where
  "DaemonRuntime_new env config token =
     (case bindE (ok_or ''workspace_root is not configured and HOME is unavailable''
                    (or_else (dc_workspace_root config) (de_home env))) (\<lambda>root.
           bindE (map_err (\<lambda>e. ''invalid workspace_root '' @ path_display root @ '': '' @ fe_text e)
                    (de_canonicalize env root)) (\<lambda>workspace_root.
           bindE (reject_windows_filesystem env workspace_root) (\<lambda>_. Inr workspace_root))) of
        Inl e \<Rightarrow> Returned (Inl e)
      | Inr workspace_root \<Rightarrow>
          let global_limit = max 1 (unwrap_some 8 (dc_global_concurrency_limit config)) in
          if MAX_PERMITS < global_limit then Panic semaphore_panic
          else Returned (Inr \<lparr>dr_config = config, dr_workspace_root = workspace_root, dr_token = token,
                              dr_global_permits = unat global_limit\<rparr>))"


section \<open>Plugins of a session\<close>

definition eligible_plugins :: "installed_plugin list \<Rightarrow> installed_plugin list" where
  "eligible_plugins plugins =
     filter (\<lambda>p. ip_missing_commands p = []) (filter ip_enabled plugins)"

definition plugin_tool_names :: "installed_plugin \<Rightarrow> string list" where
  "plugin_tool_names p = map ptm_name (pm_tools (ip_manifest p))"

definition name_count :: "installed_plugin list \<Rightarrow> string \<Rightarrow> nat" where
  "name_count ps n = length (filter ((=) n) (concat (map plugin_tool_names ps)))"

definition conflicts :: "string set \<Rightarrow> installed_plugin list \<Rightarrow> installed_plugin \<Rightarrow> string list" where
  "conflicts builtins eligible p =
     filter (\<lambda>n. n \<in> builtins \<or> 1 < name_count eligible n) (plugin_tool_names p)"

definition plugin_config :: "daemon_config \<Rightarrow> (string \<times> string) list \<Rightarrow> plugin_runtime_config" where
  "plugin_config config base_env =
     \<lparr>prc_start_timeout = from_millis (unat (unwrap_some 5000 (dc_plugin_start_timeout_ms config))),
      prc_cancel_grace = from_millis (unat (unwrap_some 2000 (dc_plugin_cancel_grace_ms config))),
      prc_base_env = base_env,
      prc_memory_bytes = Option.bind (dc_limits config) rl_memory_bytes,
      prc_process_count = Option.bind (dc_limits config) rl_process_count\<rparr>"

definition plugin_tool :: "daemon_env \<Rightarrow> plugin_runtime_config \<Rightarrow> installed_plugin \<Rightarrow> plugin_tool_manifest \<Rightarrow> tool" where
  "plugin_tool env rc p t = ExternalToolAdapter (de_plugin env (ip_manifest p) (ip_path p) rc) t"

fun registry_error_text :: "registry_error \<Rightarrow> string" where
  "registry_error_text (DuplicateTool n) = ''tool `'' @ n @ ''` is already registered''"

text \<open>Registering the tools of one plugin; a tool that is refused is skipped, with a line in the log.\<close>

fun register_plugin_tools ::
  "daemon_env \<Rightarrow> plugin_runtime_config \<Rightarrow> installed_plugin \<Rightarrow> plugin_tool_manifest list \<Rightarrow>
     tool_registry \<times> string list \<Rightarrow> tool_registry \<times> string list"
where
  "register_plugin_tools env rc p [] (reg, log) = (reg, log)"
| "register_plugin_tools env rc p (t # ts) (reg, log) =
     (case register (de_validator_for env) (plugin_tool env rc p t) reg of
        Inr reg' \<Rightarrow> register_plugin_tools env rc p ts (reg', log)
      | Inl e \<Rightarrow>
          register_plugin_tools env rc p ts
            (reg, log @ [''plugin '' @ pm_id (ip_manifest p) @ '' skipped tool: '' @ registry_error_text e]))"

text \<open>The loop over the eligible plugins. \<^verbatim>\<open>PluginSupervisor::new\<close> creates a semaphore.\<close>

fun register_eligible ::
  "daemon_env \<Rightarrow> plugin_runtime_config \<Rightarrow> string set \<Rightarrow> installed_plugin list \<Rightarrow> installed_plugin list \<Rightarrow>
     tool_registry \<times> string list \<Rightarrow> (tool_registry \<times> string list) outcome"
where
  "register_eligible env rc builtins eligible [] rl = Returned rl"
| "register_eligible env rc builtins eligible (p # ps) rl =
     (let cs = conflicts builtins eligible p in
      if cs \<noteq> [] then
        register_eligible env rc builtins eligible ps
          (fst rl, snd rl @ [''plugin '' @ pm_id (ip_manifest p) @ '' skipped; conflicting tool names: '' @ join_with '', '' cs])
      else if MAX_PERMITS < pm_max_concurrency (ip_manifest p) then Panic semaphore_panic
      else
        register_eligible env rc builtins eligible ps
          (register_plugin_tools env rc p (pm_tools (ip_manifest p)) rl))"

definition plugin_setup_failed :: "string \<Rightarrow> protocol_failure" where
  "plugin_setup_failed m = ProtocolFailure_new ''plugin_setup_failed'' m"

definition register_plugins ::
  "daemon_env \<Rightarrow> daemon_config \<Rightarrow> (string \<times> string) list \<Rightarrow> tool_registry \<Rightarrow>
     (protocol_failure + tool_registry \<times> string list) outcome"
where
  "register_plugins env config base_env reg =
     (if \<not> unwrap_some True (dc_plugins_enabled config) then Returned (Inr (reg, []))
      else
        (case bindE (ok_or (plugin_setup_failed ''could not resolve plugin directory'')
                       (or_else (dc_plugin_dir config) (default_plugin_dir (de_home env)))) (\<lambda>plugin_dir.
              map_err (\<lambda>e. plugin_setup_failed (''plugin discovery failed: '' @ store_error_text e))
                (de_discover env plugin_dir)) of
           Inl e \<Rightarrow> Returned (Inl e)
         | Inr (plugins, diagnostics) \<Rightarrow>
             let eligible = eligible_plugins plugins;
                 builtins = set (map td_name (registry_list reg));
                 log = map (\<lambda>d. ''plugin skipped: '' @ d) diagnostics @
                   map (\<lambda>p. ''plugin '' @ pm_id (ip_manifest p) @ '' skipped; missing commands: '' @
                     join_with '', '' (ip_missing_commands p))
                     (filter (\<lambda>p. ip_missing_commands p \<noteq> []) (filter ip_enabled plugins)) in
             (case register_eligible env (plugin_config config base_env) builtins eligible eligible (reg, log) of
                Panic e \<Rightarrow> Panic e
              | Returned rl \<Rightarrow> Returned (Inr rl))))"


section \<open>Sessions\<close>

fun register_all :: "(json \<Rightarrow> string + validator) \<Rightarrow> tool list \<Rightarrow> tool_registry \<Rightarrow> registry_error + tool_registry" where
  "register_all vf [] reg = Inr reg"
| "register_all vf (t # ts) reg = bindE (register vf t reg) (register_all vf ts)"

text \<open>The tools \<^verbatim>\<open>register_core_tools\<close> registers, in this order.\<close>

definition core_tool_names :: "string list" where
  "core_tool_names = [''Read'', ''Write'', ''Edit'', ''Glob'', ''Grep'', ''WebFetch'']"

definition default_base_env :: "(string \<times> string) list" where
  "default_base_env = [(''PATH'', ''/usr/local/bin:/usr/bin:/bin''), (''LANG'', ''C.UTF-8'')]"

definition setup_failed :: "registry_error \<Rightarrow> protocol_failure" where
  "setup_failed e =
     ProtocolFailure_new ''setup_failed'' (registry_error_text e)"

definition session_shell_config :: "daemon_config \<Rightarrow> path \<Rightarrow> native_shell_config" where
  "session_shell_config config workspace =
     \<lparr>nsc_inherit_env = unwrap_some False (dc_inherit_env config),
      nsc_base_env = unwrap_some default_base_env (dc_base_env config), nsc_cwd = Some workspace,
      nsc_workspace_root = Some workspace, nsc_limits = unwrap_some ResourceLimits_default (dc_limits config)\<rparr>"

definition session_shell :: "daemon_env \<Rightarrow> daemon_config \<Rightarrow> path \<Rightarrow> tool" where
  "session_shell env config workspace =
     shell_as_tool (de_shell env (session_shell_config config workspace))
       (if unwrap_some False (dc_exclusive config) then shell_exclusive ShellTool_new else ShellTool_new)"

definition builtin_registry :: "daemon_env \<Rightarrow> daemon_config \<Rightarrow> path \<Rightarrow> registry_error + tool_registry" where
  "builtin_registry env config workspace =
     bindE (register_all (de_validator_for env) (de_core_tools env) ToolRegistry_new) (\<lambda>reg.
       register (de_validator_for env) (session_shell env config workspace) reg)"

definition session_config :: "daemon_config \<Rightarrow> path \<Rightarrow> executor_config" where
  "session_config config workspace =
     \<lparr>ec_cwd = workspace, ec_env = [],
      ec_tool_timeout = map_option (\<lambda>ms. from_millis (unat ms)) (dc_tool_timeout_ms config),
      ec_concurrency_limit = max 1 (unwrap_some 4 (dc_concurrency_limit config))\<rparr>"

definition runtime_session ::
  "daemon_env \<Rightarrow> daemon_runtime \<Rightarrow> string \<Rightarrow> string \<Rightarrow> (protocol_failure + daemon_session) outcome"
where
  "runtime_session env rt token workspace =
     (if token \<noteq> dr_token rt
      then Returned (Inl (ProtocolFailure_new ''authentication_failed'' ''invalid daemon token''))
      else
        (case bindE (map_err (\<lambda>m. ProtocolFailure_new ''invalid_workspace'' m)
                       (validate_workspace env (dr_workspace_root rt) (path_components workspace))) (\<lambda>w.
              bindE (map_err setup_failed (builtin_registry env (dr_config rt) w)) (\<lambda>reg. Inr (w, reg))) of
           Inl e \<Rightarrow> Returned (Inl e)
         | Inr (w, reg) \<Rightarrow>
             (case register_plugins env (dr_config rt) (unwrap_some default_base_env (dc_base_env (dr_config rt))) reg of
                Panic e \<Rightarrow> Panic e
              | Returned (Inl e) \<Rightarrow> Returned (Inl e)
              | Returned (Inr (reg', _)) \<Rightarrow>
                  Returned (Inr \<lparr>ds_runtime = ExecutionRuntime_new reg' (session_config (dr_config rt) w) None,
                                 ds_tools = registry_list reg', ds_workspace = w\<rparr>))))"


section \<open>Which plugin tools a session offers\<close>

definition plugin_entry :: "daemon_env \<Rightarrow> plugin_runtime_config \<Rightarrow> installed_plugin \<Rightarrow> plugin_tool_manifest \<Rightarrow> registered_tool" where
  "plugin_entry env rc p t = registered (de_validator_for env) (plugin_tool env rc p t)"

lemma plugin_tool_name [simp]: "tdef_name (t_definition (plugin_tool env rc p t)) = ptm_name t"
  by (simp add: plugin_tool_def ExternalToolAdapter_def)

lemma register_plugin_tools_ok:
  "distinct (map ptm_name ts) \<Longrightarrow> list_all (\<lambda>t. map_of reg (ptm_name t) = None) ts \<Longrightarrow>
     register_plugin_tools env rc p ts (reg, log) =
       (rev (map (\<lambda>t. (ptm_name t, plugin_entry env rc p t)) ts) @ reg, log)"
proof (induction ts arbitrary: reg)
  case (Cons t ts)
  let ?reg = "(ptm_name t, plugin_entry env rc p t) # reg"
  have "register (de_validator_for env) (plugin_tool env rc p t) reg = Inr ?reg"
    using Cons.prems by (simp add: register_eq_Inr plugin_entry_def)
  moreover have "list_all (\<lambda>t. map_of ?reg (ptm_name t) = None) ts"
    using Cons.prems by (auto simp: list_all_iff image_iff)
  ultimately show ?case using Cons by simp
qed simp

lemma name_count_append: "name_count (ps @ qs) n = name_count ps n + name_count qs n"
  by (simp add: name_count_def)

lemma name_count_Cons: "name_count (p # ps) n = length (filter ((=) n) (plugin_tool_names p)) + name_count ps n"
  by (simp add: name_count_def)

lemma name_count_pos: "p \<in> set ps \<Longrightarrow> n \<in> set (plugin_tool_names p) \<Longrightarrow> 0 < name_count ps n"
  by (auto simp: name_count_def filter_empty_conv)

lemma filter_eq_length_distinct: "(\<And>n. n \<in> set xs \<Longrightarrow> length (filter ((=) n) xs) \<le> 1) \<Longrightarrow> distinct xs"
proof (induction xs)
  case (Cons x xs)
  have "x \<notin> set xs" using Cons.prems [of x] by (auto simp: filter_empty_conv)
  moreover have "distinct xs"
  proof (rule Cons.IH)
    fix n assume "n \<in> set xs"
    then show "length (filter ((=) n) xs) \<le> 1" using Cons.prems [of n] by (auto split: if_splits)
  qed
  ultimately show ?case by simp
qed simp

text \<open>A plugin without conflicts: its names are distinct, not built in, and no other plugin's.\<close>

lemma no_conflicts:
  assumes "conflicts builtins (pre @ p # ps) p = []"
  shows "distinct (plugin_tool_names p)" and "set (plugin_tool_names p) \<inter> builtins = {}"
    and "q \<in> set (pre @ ps) \<Longrightarrow> set (plugin_tool_names p) \<inter> set (plugin_tool_names q) = {}"
proof -
  have c: "n \<notin> builtins \<and> name_count (pre @ p # ps) n \<le> 1" if "n \<in> set (plugin_tool_names p)" for n
    using assms that by (auto simp: conflicts_def filter_empty_conv not_less)
  show "distinct (plugin_tool_names p)"
    by (rule filter_eq_length_distinct) (use c in \<open>force simp: name_count_append name_count_Cons\<close>)
  show "set (plugin_tool_names p) \<inter> builtins = {}" using c by blast
  show "set (plugin_tool_names p) \<inter> set (plugin_tool_names q) = {}" if q: "q \<in> set (pre @ ps)"
  proof (rule ccontr)
    assume "set (plugin_tool_names p) \<inter> set (plugin_tool_names q) \<noteq> {}"
    then obtain n where n: "n \<in> set (plugin_tool_names p)" "n \<in> set (plugin_tool_names q)" by blast
    have "0 < length (filter ((=) n) (plugin_tool_names p))" using n(1) by (auto simp: filter_empty_conv)
    moreover have "0 < name_count pre n \<or> 0 < name_count ps n" using q n(2) name_count_pos by fastforce
    moreover have "name_count pre n + (length (filter ((=) n) (plugin_tool_names p)) + name_count ps n) \<le> 1"
      using c [OF n(1)] by (simp add: name_count_append name_count_Cons)
    ultimately show False by linarith
  qed
qed

definition offers :: "daemon_env \<Rightarrow> plugin_runtime_config \<Rightarrow> string set \<Rightarrow> installed_plugin list \<Rightarrow> installed_plugin list \<Rightarrow>
    (string \<times> registered_tool) list" where
  "offers env rc builtins eligible ps =
     concat (map (\<lambda>p. map (\<lambda>t. (ptm_name t, plugin_entry env rc p t)) (pm_tools (ip_manifest p)))
       (filter (\<lambda>p. conflicts builtins eligible p = []) ps))"

lemma offers_simps [simp]:
  "offers env rc builtins eligible [] = []"
  "offers env rc builtins eligible (p # ps) =
     (if conflicts builtins eligible p = []
      then map (\<lambda>t. (ptm_name t, plugin_entry env rc p t)) (pm_tools (ip_manifest p)) else []) @
     offers env rc builtins eligible ps"
  by (simp_all add: offers_def)

lemma register_eligible_ok:
  assumes "register_eligible env rc builtins (pre @ ps) ps (reg, log) = Returned (reg', log')"
    and "\<And>p n. p \<in> set ps \<Longrightarrow> conflicts builtins (pre @ ps) p = [] \<Longrightarrow> n \<in> set (plugin_tool_names p) \<Longrightarrow> map_of reg n = None"
  shows "mset reg' = mset (offers env rc builtins (pre @ ps) ps) + mset reg \<and>
    length log' = length log + length (filter (\<lambda>p. conflicts builtins (pre @ ps) p \<noteq> []) ps) \<and>
    (registry_wf reg \<longrightarrow> registry_wf reg')"
  using assms
proof (induction ps arbitrary: pre reg log)
  case (Cons p ps)
  have pre: "pre @ p # ps = (pre @ [p]) @ ps" by simp
  show ?case
  proof (cases "conflicts builtins (pre @ p # ps) p = []")
    case True
    note nc = no_conflicts [OF True]
    have "distinct (map ptm_name (pm_tools (ip_manifest p)))" using nc(1) by (simp add: plugin_tool_names_def)
    moreover have "list_all (\<lambda>t. map_of reg (ptm_name t) = None) (pm_tools (ip_manifest p))"
      using Cons.prems(2) [of p] True by (auto simp: list_all_iff plugin_tool_names_def)
    ultimately have r: "register_plugin_tools env rc p (pm_tools (ip_manifest p)) (reg, log) =
        (rev (map (\<lambda>t. (ptm_name t, plugin_entry env rc p t)) (pm_tools (ip_manifest p))) @ reg, log)"
      by (rule register_plugin_tools_ok)
    let ?reg = "rev (map (\<lambda>t. (ptm_name t, plugin_entry env rc p t)) (pm_tools (ip_manifest p))) @ reg"
    have step: "register_eligible env rc builtins ((pre @ [p]) @ ps) ps (?reg, log) = Returned (reg', log')"
      using Cons.prems(1) True r by (simp add: Let_def split: if_splits)
    have "map_of ?reg n = None"
      if "q \<in> set ps" "conflicts builtins ((pre @ [p]) @ ps) q = []" "n \<in> set (plugin_tool_names q)" for q n
    proof -
      have "n \<notin> set (plugin_tool_names p)" using nc(3) [of q] that by auto
      moreover have "map_of reg n = None" using Cons.prems(2) [of q n] that by simp
      ultimately show ?thesis by (auto simp: plugin_tool_names_def map_of_eq_None_iff)
    qed
    note ih = Cons.IH [OF step this]
    have "registry_wf ?reg" if "registry_wf reg"
      using that nc(1) Cons.prems(2) [of p] True
      by (auto simp: registry_wf_def plugin_tool_names_def plugin_entry_def registered_def list_all_iff comp_def
          map_of_eq_None_iff rev_map [symmetric])
    with ih True show ?thesis by (simp add: ac_simps)
  next
    case False
    then obtain line where step: "register_eligible env rc builtins ((pre @ [p]) @ ps) ps (reg, log @ [line]) = Returned (reg', log')"
      using Cons.prems(1) by (auto simp: Let_def)
    have "map_of reg n = None"
      if "q \<in> set ps" "conflicts builtins ((pre @ [p]) @ ps) q = []" "n \<in> set (plugin_tool_names q)" for q n
      using Cons.prems(2) [of q n] that by simp
    from Cons.IH [OF step this] False show ?thesis by simp
  qed
qed simp


text \<open>
  (C25) Which plugin tools a session offers. A plugin is taken whole or not at all: when one of its
  names is built in, or is claimed by another enabled plugin with its commands present, or occurs twice, none of its
  tools is offered; otherwise every one is, as the adapter of that plugin. Built-in tools are
  never replaced, nothing else is offered, the table stays well-formed, and registering never
  skips a single tool (there is one log line per plugin left out).
\<close>

theorem plugins_all_or_nothing:
  assumes "register_plugins env config base_env reg = Returned (Inr (reg', log))" and "registry_wf reg"
    and "dc_plugins_enabled config \<noteq> Some False"
    and "or_else (dc_plugin_dir config) (default_plugin_dir (de_home env)) = Some dir"
    and "de_discover env dir = Inr (plugins, diagnostics)"
  defines "eligible \<equiv> eligible_plugins plugins"
  shows "registry_wf reg' \<and>
    (\<forall>n e. map_of reg' n = Some e \<longleftrightarrow> map_of reg n = Some e \<or>
       (\<exists>p t. p \<in> set eligible \<and> conflicts (fst ` set reg) eligible p = [] \<and> t \<in> set (pm_tools (ip_manifest p)) \<and>
          n = ptm_name t \<and> e = plugin_entry env (plugin_config config base_env) p t)) \<and>
    length log = length diagnostics + length (filter (\<lambda>p. ip_missing_commands p \<noteq> []) (filter ip_enabled plugins)) +
      length (filter (\<lambda>p. conflicts (fst ` set reg) eligible p \<noteq> []) eligible)"
proof -
  let ?rc = "plugin_config config base_env" and ?b = "fst ` set reg"
  have b: "td_name ` set (registry_list reg) = ?b"
    using assms(2) by (force simp: registry_list_def registry_wf_def list_all_iff ToolDescriptor_from_def)
  obtain log0 where step: "register_eligible env ?rc ?b ([] @ eligible) eligible (reg, log0) = Returned (reg', log)"
    and log0: "length log0 = length diagnostics + length (filter (\<lambda>p. ip_missing_commands p \<noteq> []) (filter ip_enabled plugins))"
    using assms(1,3) assms(4,5)
    by (cases "dc_plugins_enabled config")
      (auto simp: register_plugins_def unwrap_some_def b Let_def eligible_def split: outcome.splits)
  have fresh: "map_of reg n = None"
    if "p \<in> set eligible" "conflicts ?b ([] @ eligible) p = []" "n \<in> set (plugin_tool_names p)" for p n
    using that by (auto simp: conflicts_def filter_empty_conv map_of_eq_None_iff)
  note ok = register_eligible_ok [OF step fresh]
  have wf: "registry_wf reg'" using ok assms(2) by simp
  have "mset reg' = mset (offers env ?rc ?b eligible eligible) + mset reg" using ok by simp
  from arg_cong [OF this, of set_mset] have "set reg' = set (offers env ?rc ?b eligible eligible) \<union> set reg" by simp
  then have "map_of reg' n = Some e \<longleftrightarrow> (n, e) \<in> set (offers env ?rc ?b eligible eligible) \<or> map_of reg n = Some e" for n e
    using wf assms(2) by (auto simp: registry_wf_def map_of_eq_Some_iff)
  moreover have "(n, e) \<in> set (offers env ?rc ?b eligible eligible) \<longleftrightarrow>
      (\<exists>p t. p \<in> set eligible \<and> conflicts ?b eligible p = [] \<and> t \<in> set (pm_tools (ip_manifest p)) \<and>
          n = ptm_name t \<and> e = plugin_entry env ?rc p t)" for n e
    by (auto simp: offers_def)
  ultimately show ?thesis using wf ok log0 by auto
qed

text \<open>Registering never displaces an entry.\<close>

lemma register_keeps_entry:
  "register vf t reg = Inr reg' \<Longrightarrow> map_of reg n = Some e \<Longrightarrow> map_of reg' n = Some e"
  by (auto simp: result_simps)

lemma register_plugin_tools_keeps:
  "map_of reg n = Some e \<Longrightarrow> map_of (fst (register_plugin_tools env rc p ts (reg, log))) n = Some e"
  by (induction ts arbitrary: reg log) (auto dest: register_keeps_entry split: sum.split)

lemma register_eligible_keeps:
  "register_eligible env rc b es ps rl = Returned rl' \<Longrightarrow> map_of (fst rl) n = Some e \<Longrightarrow> map_of (fst rl') n = Some e"
proof (induction ps arbitrary: rl)
  case (Cons p ps)
  then show ?case
    using register_plugin_tools_keeps [of "fst rl" n e env rc p _ "snd rl"]
    by (auto simp: Let_def split: if_splits)
qed simp

lemma register_plugins_keeps:
  "register_plugins env config base_env reg = Returned (Inr (reg', log)) \<Longrightarrow> map_of reg n = Some e \<Longrightarrow>
     map_of reg' n = Some e"
  using register_eligible_keeps [of env "plugin_config config base_env" _ _ _ "(reg, _)" "(reg', log)" n e]
  by (fastforce simp: register_plugins_def Let_def split: if_splits sum.splits prod.splits outcome.splits)

text \<open>The shell of the built-in tools is that of the session.\<close>

lemma builtin_shell:
  "builtin_registry env config w = Inr reg \<Longrightarrow>
     map_of reg ''shell'' = Some (registered (de_validator_for env) (session_shell env config w))"
  by (auto simp: builtin_registry_def result_simps session_shell_def shell_as_tool_def shell_definition_def
      ShellTool_new_def shell_exclusive_def split: if_splits)

text \<open>
  How far a session lets its shell go: the tool is the native shell, and every command it makes starts below the canonical place
  of the workspace.
\<close>

definition shell_bounded :: "daemon_env \<Rightarrow> daemon_session \<Rightarrow> bool" where
  "shell_bounded env ds \<longleftrightarrow>
     (\<exists>entry config. resolve (rn_tools (ds_runtime ds)) ''shell'' = Inr entry \<and>
        t_invoke (rt_implementation entry) = de_shell env config \<and> nsc_cwd config = Some (ds_workspace ds) \<and>
        (\<forall>canonicalize vars spec c. native_command_of canonicalize vars config spec = Inr c \<longrightarrow>
           (\<exists>w d. canonicalize (ds_workspace ds) = Inr w \<and> nc_current_dir c = Some d \<and> prefix w d)))"

lemma session_shell_bounded:
  assumes "map_of (rn_tools (ds_runtime ds)) ''shell'' =
    Some (registered (de_validator_for env) (session_shell env config (ds_workspace ds)))"
  shows "shell_bounded env ds"
proof -
  let ?C = "session_shell_config config (ds_workspace ds)"
  have root: "nsc_workspace_root ?C = Some (ds_workspace ds)" "nsc_cwd ?C = Some (ds_workspace ds)"
    by (simp_all add: session_shell_config_def)
  have "\<exists>w d. canonicalize (ds_workspace ds) = Inr w \<and> nc_current_dir c = Some d \<and> prefix w d"
    if "native_command_of canonicalize vars ?C spec = Inr c" for canonicalize vars spec c
  proof -
    from that obtain cwd where "resolve_cwd canonicalize ?C spec = Inr cwd" "nc_current_dir c = cwd"
      by (auto simp: native_command_of_def result_simps split: list.splits)
    with resolve_cwd_ok [OF _ root(1)] show ?thesis by (fastforce simp: path_starts_with_def)
  qed
  with root(2) assms show ?thesis
    by (auto simp: shell_bounded_def resolve_def registered_def session_shell_def shell_as_tool_def)
qed

text \<open>
  (C24) What a session is. It is granted only for the daemon's token and an absolute path whose
  canonical form lies below the canonical workspace root, outside \<^verbatim>\<open>/mnt\<close> and on a file system that is
  not 9P; that canonical path is the working directory of every execution and the boundary of
  the shell: the tool \<^verbatim>\<open>shell\<close> of the session runs the native backend with a configuration under which every command that is made
  starts at or below the canonical workspace, whatever the request says; at least one execution may run; and the tools advertised are exactly the tools of the executor, sorted by name. A
  wrong token is always refused as such, before anything else is looked at.
\<close>

theorem session_confined:
  "(token \<noteq> dr_token rt \<longrightarrow>
      runtime_session env rt token workspace =
        Returned (Inl (ProtocolFailure_new ''authentication_failed'' ''invalid daemon token''))) \<and>
   (\<forall>ds. runtime_session env rt token workspace = Returned (Inr ds) \<longrightarrow>
      token = dr_token rt \<and> is_absolute (path_components workspace) \<and>
      de_canonicalize env (path_components workspace) = Inr (ds_workspace ds) \<and>
      prefix (dr_workspace_root rt) (ds_workspace ds) \<and>
      \<not> prefix [RootDir, Normal ''mnt''] (ds_workspace ds) \<and>
      (\<exists>k. de_statfs env (ds_workspace ds) = Inr k \<and> k \<noteq> V9FS_MAGIC) \<and>
      ec_cwd (rn_config (ds_runtime ds)) = ds_workspace ds \<and>
      shell_bounded env ds \<and>
      0 < ec_concurrency_limit (rn_config (ds_runtime ds)) \<and>
      ds_tools ds = registry_list (rn_tools (ds_runtime ds)))"
proof (intro conjI impI allI)
  assume "token \<noteq> dr_token rt"
  then show "runtime_session env rt token workspace =
      Returned (Inl (ProtocolFailure_new ''authentication_failed'' ''invalid daemon token''))"
    by (simp add: runtime_session_def)
next
  fix ds assume s: "runtime_session env rt token workspace = Returned (Inr ds)"
  obtain w reg reg' log where tok: "token = dr_token rt"
    and v: "validate_workspace env (dr_workspace_root rt) (path_components workspace) = Inr w"
    and shell: "map_of reg' ''shell'' = Some (registered (de_validator_for env) (session_shell env (dr_config rt) w))"
    and ds: "ds = \<lparr>ds_runtime = ExecutionRuntime_new reg' (session_config (dr_config rt) w) None,
                   ds_tools = registry_list reg', ds_workspace = w\<rparr>"
  proof (cases "validate_workspace env (dr_workspace_root rt) (path_components workspace)")
    case (Inl m)
    with s show thesis by (simp add: runtime_session_def split: if_splits)
  next
    case (Inr w)
    with s that show thesis
      by (cases "builtin_registry env (dr_config rt) w")
        (auto simp: runtime_session_def dest: builtin_shell register_plugins_keeps split: if_splits outcome.splits sum.splits)
  qed
  have mnt: "path_components ''/mnt'' = [RootDir, Normal ''mnt'']"
    by (simp add: path_components_def inner_components_def segment_component_def)
  from v have "is_absolute (path_components workspace)" "de_canonicalize env (path_components workspace) = Inr w"
      "prefix (dr_workspace_root rt) w" "\<exists>u. reject_windows_filesystem env w = Inr u"
    by (auto simp: validate_workspace_def result_simps path_starts_with_def split: if_splits)
  moreover from this(4) have "\<not> prefix [RootDir, Normal ''mnt''] w" "\<exists>k. de_statfs env w = Inr k \<and> k \<noteq> V9FS_MAGIC"
    by (auto simp: reject_windows_filesystem_def path_starts_with_def mnt split: if_splits sum.splits)
  moreover have "0 < max 1 (c :: usize)" for c by (simp add: less_max_iff_disj)
  ultimately show "token = dr_token rt" "is_absolute (path_components workspace)"
    "de_canonicalize env (path_components workspace) = Inr (ds_workspace ds)"
    "prefix (dr_workspace_root rt) (ds_workspace ds)" "\<not> prefix [RootDir, Normal ''mnt''] (ds_workspace ds)"
    "\<exists>k. de_statfs env (ds_workspace ds) = Inr k \<and> k \<noteq> V9FS_MAGIC"
    "ec_cwd (rn_config (ds_runtime ds)) = ds_workspace ds"
    "shell_bounded env ds"
    "0 < ec_concurrency_limit (rn_config (ds_runtime ds))"
    "ds_tools ds = registry_list (rn_tools (ds_runtime ds))"
    using tok session_shell_bounded [of ds env "dr_config rt"] shell by (simp_all add: ds ExecutionRuntime_new_def session_config_def)
qed


lemma max_permits_numeral: "MAX_PERMITS = 2305843009213693951"
  by (rule word_unat_eq_iff [THEN iffD2]) (simp add: max_permits_value)

definition demo_core :: "string \<Rightarrow> tool" where
  "demo_core n =
     \<lparr>t_definition = \<lparr>tdef_name = n, tdef_description = [], tdef_input_schema = JObject []\<rparr>,
      t_is_concurrency_safe = default_is_concurrency_safe, t_invocation_detail = default_invocation_detail,
      t_validate = default_validate, t_invoke = (\<lambda>_ _. \<lparr>act_progress = [], act_end = None\<rparr>)\<rparr>"

definition demo_plugin :: "string \<Rightarrow> string list \<Rightarrow> installed_plugin" where
  "demo_plugin i names =
     \<lparr>ip_manifest = demo_manifest\<lparr>pm_id := i, pm_tools := map (\<lambda>n. \<lparr>ptm_name = n, ptm_description = [],
        ptm_input_schema = JObject [], ptm_concurrency_safe = False\<rparr>) names\<rparr>,
      ip_path = [RootDir], ip_enabled = True, ip_missing_commands = []\<rparr>"

definition demo_plugins :: "installed_plugin list" where
  "demo_plugins = [demo_plugin ''a.a'' [''x'', ''y''], demo_plugin ''b.b'' [''y''], demo_plugin ''c.c'' [''z'']]"

definition demo_daemon :: daemon_env where
  "demo_daemon =
     \<lparr>de_canonicalize = Inr, de_statfs = (\<lambda>_. Inr 0xEF53), de_home = Some [RootDir, Normal ''h''],
      de_validator_for = (\<lambda>_. Inr (\<lambda>_. None)), de_discover = (\<lambda>_. Inr (demo_plugins, [])),
      de_core_tools = map demo_core core_tool_names,
      de_shell = (\<lambda>_ _ _. \<lparr>act_progress = [], act_end = None\<rparr>),
      de_plugin = (\<lambda>_ _ _ _ _ _ _. \<lparr>act_progress = [], act_end = None\<rparr>)\<rparr>"

definition demo_builtins :: tool_registry where
  "demo_builtins = [(''z'', registered (\<lambda>_. Inr (\<lambda>_. None)) (demo_core ''z''))]"

definition demo_registered :: "(protocol_failure + tool_registry \<times> string list) outcome" where
  "demo_registered = register_plugins demo_daemon DaemonConfig_default [] demo_builtins"

text \<open>All three plugins are left out: two claim the same name, the third a built-in one.\<close>

lemmas demo_plugin_simps =
  register_plugins_def unwrap_some_def DaemonConfig_default_def or_else_def default_plugin_dir_def demo_daemon_def
  eligible_plugins_def demo_manifest_def conflicts_def name_count_def plugin_tool_names_def registry_list_def Let_def

lemma demo_registered_names: "\<exists>reg' log. demo_registered = Returned (Inr (reg', log))"
  by (simp add: demo_registered_def demo_plugin_simps demo_plugins_def demo_plugin_def demo_builtins_def
      registered_def demo_core_def ToolDescriptor_from_def)

theorem plugins_all_or_nothing_witness:
  "\<exists>reg' log. demo_registered = Returned (Inr (reg', log)) \<and> registry_wf reg' \<and> length log = 3"
proof -
  obtain reg' log where r: "demo_registered = Returned (Inr (reg', log))"
    using demo_registered_names by blast
  have wf: "registry_wf demo_builtins"
    by (simp add: registry_wf_def demo_builtins_def registered_def demo_core_def)
  let ?dir = "path_join [RootDir, Normal ''h''] (path_components ''.local/share/ate/plugins'')"
  have dir: "or_else (dc_plugin_dir DaemonConfig_default) (default_plugin_dir (de_home demo_daemon)) = Some ?dir"
    by (simp add: DaemonConfig_default_def demo_daemon_def or_else_def default_plugin_dir_def)
  have disc: "de_discover demo_daemon ?dir = Inr (demo_plugins, [])" by (simp add: demo_daemon_def)
  have on: "dc_plugins_enabled DaemonConfig_default \<noteq> Some False" by (simp add: DaemonConfig_default_def)
  have "eligible_plugins demo_plugins = demo_plugins" "length demo_plugins = 3"
      "filter (\<lambda>p. ip_missing_commands p \<noteq> []) (filter ip_enabled demo_plugins) = []"
    by (simp_all add: eligible_plugins_def demo_plugins_def demo_plugin_def)
  moreover have "filter (\<lambda>p. conflicts (fst ` set demo_builtins) demo_plugins p \<noteq> []) demo_plugins = demo_plugins"
    by (simp add: demo_plugins_def demo_plugin_def demo_builtins_def conflicts_def name_count_def plugin_tool_names_def)
  ultimately have "registry_wf reg' \<and> length log = 3"
    using plugins_all_or_nothing [OF r [unfolded demo_registered_def] wf on dir disc] by auto
  with r show ?thesis by blast
qed

definition demo_daemon_runtime :: daemon_runtime where
  "demo_daemon_runtime =
     \<lparr>dr_config = DaemonConfig_default, dr_workspace_root = [RootDir, Normal ''h''], dr_token = ''t'', dr_global_permits = 8\<rparr>"

lemma demo_session:
  "\<exists>ds. runtime_session demo_daemon demo_daemon_runtime ''t'' ''/h/w'' = Returned (Inr ds)"
  by (simp add: runtime_session_def demo_daemon_runtime_def validate_workspace_def reject_windows_filesystem_def
      builtin_registry_def session_shell_def shell_as_tool_def shell_definition_def ShellTool_new_def register_def registered_def ToolRegistry_new_def
      core_tool_names_def demo_core_def demo_plugins_def demo_plugin_def demo_plugin_simps max_permits_numeral
      result_simps path_starts_with_def path_components_def inner_components_def segment_component_def path_display_def
      is_absolute_def V9FS_MAGIC_def ToolDescriptor_from_def)

theorem session_confined_witness:
  "\<exists>ds. runtime_session demo_daemon demo_daemon_runtime ''t'' ''/h/w'' = Returned (Inr ds) \<and>
     ds_workspace ds = [RootDir, Normal ''h'', Normal ''w''] \<and> ec_cwd (rn_config (ds_runtime ds)) = [RootDir, Normal ''h'', Normal ''w'']"
proof -
  obtain ds where ds: "runtime_session demo_daemon demo_daemon_runtime ''t'' ''/h/w'' = Returned (Inr ds)"
    using demo_session by blast
  then show ?thesis
    using session_confined [of "''t''" demo_daemon_runtime demo_daemon "''/h/w''"]
    by (auto simp: demo_daemon_def path_components_def inner_components_def segment_component_def)
qed

text \<open>A manifest that validation accepts can make the creation of a session panic.\<close>

definition greedy_manifest :: plugin_manifest where
  "greedy_manifest = demo_manifest\<lparr>pm_max_concurrency := 0x2000000000000000\<rparr>"

definition greedy_plugin :: installed_plugin where
  "greedy_plugin =
     \<lparr>ip_manifest = greedy_manifest, ip_path = [RootDir], ip_enabled = True, ip_missing_commands = []\<rparr>"

lemma accepted_manifest_panics:
  "manifest_validate (\<lambda>_. None) (\<lambda>_. Inr (\<lambda>_. None)) greedy_manifest = Inr () \<and>
   register_plugins (demo_daemon\<lparr>de_discover := \<lambda>_. Inr ([greedy_plugin], [])\<rparr>) DaemonConfig_default [] ToolRegistry_new =
     Panic semaphore_panic"
proof
  show "manifest_validate (\<lambda>_. None) (\<lambda>_. Inr (\<lambda>_. None)) greedy_manifest = Inr ()"
    by (simp add: greedy_manifest_def manifest_validate_def demo_manifest_def valid_plugin_id_def valid_tool_name_def
        is_ascii_alphanumeric_def is_ascii_lowercase_def is_ascii_uppercase_def is_ascii_digit_def)
  show "register_plugins (demo_daemon\<lparr>de_discover := \<lambda>_. Inr ([greedy_plugin], [])\<rparr>) DaemonConfig_default [] ToolRegistry_new =
     Panic semaphore_panic"
    by (simp add: demo_plugin_simps greedy_plugin_def greedy_manifest_def ToolRegistry_new_def max_permits_numeral)
qed

end
