(* ===== verification/Client.thy ===== *)
theory Client
  imports Protocol Text
begin

text \<open>
  The client of the Windows host (\<^verbatim>\<open>windows-agent-client\<close>, \<^verbatim>\<open>wsl.rs\<close> and \<^verbatim>\<open>api.rs\<close>): how it reaches a daemon,
  and the calls made over one connection. A call registers the sender of a one-shot channel in one of three
  tables, queues its request for the writer task, and waits; the reader task takes senders out of the tables.
  The \<open>n\<close>th call stands for its own sender and receiver. Taking a table entry fills the slot of the call; a sender
  that is dropped (replaced, drained or removed) fills it with what its caller makes of a closed channel.
  The lock sections are the steps, so calls, reader and writer interleave between them.
\<close>

section \<open>Calls\<close>

datatype client_error =
    UnsupportedPlatform
  | Spawn string
  | InvalidWorkspace string
  | Handshake string
  | Disconnected
  | DuplicateExecutionId string
  | Remote string string

datatype client_reply =
    ExecuteReply "client_error + execution_result"
  | CancelReply "client_error + bool"
  | ToolsReply "client_error + tool_descriptor list"

text \<open>
  \<open>Sending\<close>: registered, the request not queued yet. \<open>Awaiting\<close>: suspended on the channel. \<open>Refused\<close>: returned
  without waiting. \<open>Abandoned\<close>: the future was dropped while it waited.
\<close>

datatype call_phase = Sending | Awaiting | Refused client_reply | Abandoned

record client_call =
  ca_request :: client_message
  ca_slot :: "client_reply option"
  ca_phase :: call_phase

definition call_result :: "client_call \<Rightarrow> client_reply option" where
  "call_result c =
     (case ca_phase c of Awaiting \<Rightarrow> ca_slot c | Refused r \<Rightarrow> Some r | Sending \<Rightarrow> None | Abandoned \<Rightarrow> None)"

datatype reader_phase = Reading | DrainPending | DrainCancels | DrainTools | ReaderDone

type_synonym ack_table = "(string \<times> nat) list"

record client_state =
  wc_pending :: ack_table
  wc_cancel_acks :: ack_table
  wc_tool_acks :: ack_table
  wc_next_request_id :: "64 word"
  wc_calls :: "client_call list"
  wc_queue :: "client_message list"
  wc_writer :: bool
  wc_written :: "client_message list"
  wc_reader :: reader_phase
  wc_received :: "server_message list"
  wc_closing :: bool

definition WslClient_new :: client_state where
  "WslClient_new =
     \<lparr>wc_pending = [], wc_cancel_acks = [], wc_tool_acks = [], wc_next_request_id = 1, wc_calls = [],
      wc_queue = [], wc_writer = True, wc_written = [], wc_reader = Reading, wc_received = [], wc_closing = False\<rparr>"

definition table_remove :: "string \<Rightarrow> ack_table \<Rightarrow> ack_table" where
  "table_remove k t = filter (\<lambda>e. fst e \<noteq> k) t"

definition table_insert :: "string \<Rightarrow> nat \<Rightarrow> ack_table \<Rightarrow> ack_table" where
  "table_insert k n t = (k, n) # table_remove k t"

definition fill :: "client_reply \<Rightarrow> nat \<Rightarrow> client_call list \<Rightarrow> client_call list" where
  "fill r n calls = calls[n := (calls ! n)\<lparr>ca_slot := Some r\<rparr>]"

definition fill_entry :: "client_reply \<Rightarrow> string \<Rightarrow> ack_table \<Rightarrow> client_call list \<Rightarrow> client_call list" where
  "fill_entry r k t calls = (case map_of t k of None \<Rightarrow> calls | Some n \<Rightarrow> fill r n calls)"

definition fill_table :: "client_reply \<Rightarrow> ack_table \<Rightarrow> client_call list \<Rightarrow> client_call list" where
  "fill_table r t calls = fold (fill r) (map snd t) calls"

definition set_call_phase :: "call_phase \<Rightarrow> nat \<Rightarrow> client_call list \<Rightarrow> client_call list" where
  "set_call_phase p n calls = calls[n := (calls ! n)\<lparr>ca_phase := p\<rparr>]"

abbreviation disconnected_execute :: client_reply where
  "disconnected_execute \<equiv> ExecuteReply (Inl Disconnected)"

abbreviation disconnected_cancel :: client_reply where
  "disconnected_cancel \<equiv> CancelReply (Inl Disconnected)"

abbreviation disconnected_tools :: client_reply where
  "disconnected_tools \<equiv> ToolsReply (Inl Disconnected)"

text \<open>\<^verbatim>\<open>execute\<close> up to the end of its first lock section, and its send.\<close>

definition execute_request :: "execution_request \<Rightarrow> duration option \<Rightarrow> client_message" where
  "execute_request request timeout = CM_Execute request (map_option (\<lambda>d. saturating_u64 (d div 1000000)) timeout)"

definition execute_register :: "execution_request \<Rightarrow> duration option \<Rightarrow> client_state \<Rightarrow> client_state" where
  "execute_register request timeout s =
     (let execution_id = er_id request; message = execute_request request timeout in
      if map_of (wc_pending s) execution_id \<noteq> None
      then s\<lparr>wc_calls := wc_calls s @
               [\<lparr>ca_request = message, ca_slot = None,
                 ca_phase = Refused (ExecuteReply (Inl (DuplicateExecutionId execution_id)))\<rparr>]\<rparr>
      else
        s\<lparr>wc_pending := table_insert execution_id (length (wc_calls s)) (wc_pending s),
          wc_calls := wc_calls s @ [\<lparr>ca_request = message, ca_slot = None, ca_phase = Sending\<rparr>]\<rparr>)"

definition execute_send :: "nat \<Rightarrow> execution_request \<Rightarrow> client_state \<Rightarrow> client_state" where
  "execute_send n request s =
     (if wc_writer s
      then s\<lparr>wc_queue := wc_queue s @ [ca_request (wc_calls s ! n)],
             wc_calls := set_call_phase Awaiting n (wc_calls s)\<rparr>
      else
        s\<lparr>wc_pending := table_remove (er_id request) (wc_pending s),
          wc_calls := set_call_phase (Refused disconnected_execute) n
            (fill_entry disconnected_execute (er_id request) (wc_pending s) (wc_calls s))\<rparr>)"

text \<open>\<^verbatim>\<open>cancel\<close> inserts and sends in one lock section; an insertion drops the sender it replaces.\<close>

definition cancel_call :: "string \<Rightarrow> client_state \<Rightarrow> client_state" where
  "cancel_call execution_id s =
     (let calls = fill_entry disconnected_cancel execution_id (wc_cancel_acks s) (wc_calls s);
          request = CM_Cancel execution_id in
      if wc_writer s
      then
        s\<lparr>wc_cancel_acks := table_insert execution_id (length calls) (wc_cancel_acks s),
          wc_queue := wc_queue s @ [request],
          wc_calls := calls @ [\<lparr>ca_request = request, ca_slot = None, ca_phase = Awaiting\<rparr>]\<rparr>
      else
        s\<lparr>wc_cancel_acks := table_remove execution_id (wc_cancel_acks s),
          wc_calls := calls @
            [\<lparr>ca_request = request, ca_slot = Some disconnected_cancel, ca_phase = Refused disconnected_cancel\<rparr>]\<rparr>)"

definition tools_request_id :: "64 word \<Rightarrow> string" where
  "tools_request_id n = ''tools-'' @ show_nat (unat n)"

definition tools_register :: "client_state \<Rightarrow> client_state" where
  "tools_register s =
     (let request_id = tools_request_id (wc_next_request_id s);
          calls = fill_entry disconnected_tools request_id (wc_tool_acks s) (wc_calls s) in
      s\<lparr>wc_next_request_id := wc_next_request_id s + 1,
        wc_tool_acks := table_insert request_id (length calls) (wc_tool_acks s),
        wc_calls := calls @ [\<lparr>ca_request = CM_ListTools request_id, ca_slot = None, ca_phase = Sending\<rparr>]\<rparr>)"

definition tools_send :: "nat \<Rightarrow> string \<Rightarrow> client_state \<Rightarrow> client_state" where
  "tools_send n request_id s =
     (if wc_writer s
      then s\<lparr>wc_queue := wc_queue s @ [ca_request (wc_calls s ! n)],
             wc_calls := set_call_phase Awaiting n (wc_calls s)\<rparr>
      else
        s\<lparr>wc_tool_acks := table_remove request_id (wc_tool_acks s),
          wc_calls := set_call_phase (Refused disconnected_tools) n
            (fill_entry disconnected_tools request_id (wc_tool_acks s) (wc_calls s))\<rparr>)"


section \<open>The reader and the writer\<close>

definition reader_receive :: "server_message \<Rightarrow> client_state \<Rightarrow> client_state" where
  "reader_receive message s =
     (let s = s\<lparr>wc_received := wc_received s @ [message]\<rparr> in
      case message of
        SM_Completed result \<Rightarrow>
          s\<lparr>wc_pending := table_remove (res_execution_id result) (wc_pending s),
            wc_calls := fill_entry (ExecuteReply (Inr result)) (res_execution_id result) (wc_pending s) (wc_calls s)\<rparr>
      | SM_Failed (Some execution_id) error \<Rightarrow>
          s\<lparr>wc_pending := table_remove execution_id (wc_pending s),
            wc_calls := fill_entry (ExecuteReply (Inl (Remote (pf_code error) (pf_message error))))
              execution_id (wc_pending s) (wc_calls s)\<rparr>
      | SM_CancelAcknowledged execution_id found \<Rightarrow>
          s\<lparr>wc_cancel_acks := table_remove execution_id (wc_cancel_acks s),
            wc_calls := fill_entry (CancelReply (Inr found)) execution_id (wc_cancel_acks s) (wc_calls s)\<rparr>
      | SM_Tools request_id tools \<Rightarrow>
          s\<lparr>wc_tool_acks := table_remove request_id (wc_tool_acks s),
            wc_calls := fill_entry (ToolsReply (Inr tools)) request_id (wc_tool_acks s) (wc_calls s)\<rparr>
      | _ \<Rightarrow> s)"

text \<open>After the loop, the three tables are drained, one lock section each.\<close>

definition drain_pending :: "client_state \<Rightarrow> client_state" where
  "drain_pending s =
     s\<lparr>wc_pending := [], wc_calls := fill_table disconnected_execute (wc_pending s) (wc_calls s), wc_reader := DrainCancels\<rparr>"

definition drain_cancels :: "client_state \<Rightarrow> client_state" where
  "drain_cancels s =
     s\<lparr>wc_cancel_acks := [], wc_calls := fill_table disconnected_cancel (wc_cancel_acks s) (wc_calls s), wc_reader := DrainTools\<rparr>"

definition drain_tools :: "client_state \<Rightarrow> client_state" where
  "drain_tools s =
     s\<lparr>wc_tool_acks := [], wc_calls := fill_table disconnected_tools (wc_tool_acks s) (wc_calls s), wc_reader := ReaderDone\<rparr>"

definition writer_write :: "client_state \<Rightarrow> client_state" where
  "writer_write s = s\<lparr>wc_written := wc_written s @ [hd (wc_queue s)], wc_queue := tl (wc_queue s)\<rparr>"

text \<open>A failed write ends the writer task, and with it the channel and what was queued.\<close>

definition writer_fail :: "client_state \<Rightarrow> client_state" where
  "writer_fail s = s\<lparr>wc_writer := False, wc_queue := []\<rparr>"

text \<open>
  \<^verbatim>\<open>Drop\<close>: a shutdown is queued, then both tasks are aborted wherever they are. It needs the client for itself,
  so no call is under way.
\<close>

definition drop_send :: "client_state \<Rightarrow> client_state" where
  "drop_send s = s\<lparr>wc_closing := True, wc_queue := (if wc_writer s then wc_queue s @ [CM_Shutdown] else wc_queue s)\<rparr>"

definition drop_abort :: "client_state \<Rightarrow> client_state" where
  "drop_abort s =
     s\<lparr>wc_writer := False, wc_queue := [], wc_reader := ReaderDone, wc_pending := [], wc_cancel_acks := [], wc_tool_acks := [],
       wc_calls := fill_table disconnected_execute (wc_pending s)
         (fill_table disconnected_cancel (wc_cancel_acks s) (fill_table disconnected_tools (wc_tool_acks s) (wc_calls s)))\<rparr>"

definition under_way :: "client_call \<Rightarrow> bool" where
  "under_way c \<longleftrightarrow> ca_phase c = Sending \<or> ca_phase c = Awaiting \<and> ca_slot c = None"

inductive client_step :: "client_state \<Rightarrow> client_state \<Rightarrow> bool" where
  execute: "\<not> wc_closing s \<Longrightarrow> client_step s (execute_register request timeout s)"
| execute_queue:
    "n < length (wc_calls s) \<Longrightarrow> ca_phase (wc_calls s ! n) = Sending \<Longrightarrow>
     ca_request (wc_calls s ! n) = CM_Execute request t \<Longrightarrow> client_step s (execute_send n request s)"
| cancel: "\<not> wc_closing s \<Longrightarrow> client_step s (cancel_call execution_id s)"
| list_tools: "\<not> wc_closing s \<Longrightarrow> client_step s (tools_register s)"
| tools_queue:
    "n < length (wc_calls s) \<Longrightarrow> ca_phase (wc_calls s ! n) = Sending \<Longrightarrow>
     ca_request (wc_calls s ! n) = CM_ListTools request_id \<Longrightarrow> client_step s (tools_send n request_id s)"
| abandon:
    "n < length (wc_calls s) \<Longrightarrow> ca_phase (wc_calls s ! n) = Awaiting \<Longrightarrow>
     client_step s (s\<lparr>wc_calls := set_call_phase Abandoned n (wc_calls s)\<rparr>)"
| receive: "wc_reader s = Reading \<Longrightarrow> client_step s (reader_receive message s)"
| disconnect: "wc_reader s = Reading \<Longrightarrow> client_step s (s\<lparr>wc_reader := DrainPending\<rparr>)"
| drained_pending: "wc_reader s = DrainPending \<Longrightarrow> client_step s (drain_pending s)"
| drained_cancels: "wc_reader s = DrainCancels \<Longrightarrow> client_step s (drain_cancels s)"
| drained_tools: "wc_reader s = DrainTools \<Longrightarrow> client_step s (drain_tools s)"
| wrote: "wc_writer s \<Longrightarrow> wc_queue s \<noteq> [] \<Longrightarrow> client_step s (writer_write s)"
| write_error: "wc_writer s \<Longrightarrow> wc_queue s \<noteq> [] \<Longrightarrow> client_step s (writer_fail s)"
| dropping:
    "\<not> wc_closing s \<Longrightarrow> list_all (\<lambda>c. \<not> under_way c) (wc_calls s) \<Longrightarrow> client_step s (drop_send s)"
| aborting: "wc_closing s \<Longrightarrow> client_step s (drop_abort s)"


section \<open>The tables are exact\<close>

definition open_call :: "client_call \<Rightarrow> bool" where
  "open_call c \<longleftrightarrow> ca_slot c = None \<and> (case ca_phase c of Refused _ \<Rightarrow> False | _ \<Rightarrow> True)"

fun execute_key :: "client_message \<Rightarrow> string option" where
  "execute_key (CM_Execute request _) = Some (er_id request)"
| "execute_key _ = None"

fun cancel_key :: "client_message \<Rightarrow> string option" where
  "cancel_key (CM_Cancel execution_id) = Some execution_id"
| "cancel_key _ = None"

fun tools_key :: "client_message \<Rightarrow> string option" where
  "tools_key (CM_ListTools request_id) = Some request_id"
| "tools_key _ = None"

text \<open>A table holds exactly the open calls of its kind, each under its own key.\<close>

definition open_at :: "(client_message \<Rightarrow> string option) \<Rightarrow> client_call list \<Rightarrow> string \<Rightarrow> nat \<Rightarrow> bool" where
  "open_at key calls k n \<longleftrightarrow> n < length calls \<and> open_call (calls ! n) \<and> key (ca_request (calls ! n)) = Some k"

definition table_exact :: "(client_message \<Rightarrow> string option) \<Rightarrow> ack_table \<Rightarrow> client_call list \<Rightarrow> bool" where
  "table_exact key t calls \<longleftrightarrow> distinct (map fst t) \<and> (\<forall>k n. (k, n) \<in> set t \<longleftrightarrow> open_at key calls k n)"

lemma table_exact_map_of: "table_exact key t calls \<Longrightarrow> map_of t k = Some n \<longleftrightarrow> open_at key calls k n"
  by (simp add: table_exact_def map_of_eq_Some_iff)

lemma set_table_remove [simp]: "set (table_remove k t) = {e \<in> set t. fst e \<noteq> k}"
  by (simp add: table_remove_def)

lemma distinct_table_remove: "distinct (map fst t) \<Longrightarrow> distinct (map fst (table_remove k t))"
  by (induction t) (auto simp: table_remove_def)

lemma length_fill [simp]: "length (fill r n calls) = length calls"
  by (simp add: fill_def)

lemma length_fill_entry [simp]: "length (fill_entry r k t calls) = length calls"
  by (simp add: fill_entry_def split: option.splits)

lemma length_set_call_phase [simp]: "length (set_call_phase p n calls) = length calls"
  by (simp add: set_call_phase_def)

lemma nth_fill: "m < length calls \<Longrightarrow> fill r n calls ! m = (if m = n then (calls ! n)\<lparr>ca_slot := Some r\<rparr> else calls ! m)"
  by (simp add: fill_def nth_list_update)

lemma nth_set_call_phase:
  "m < length calls \<Longrightarrow> set_call_phase p n calls ! m = (if m = n then (calls ! n)\<lparr>ca_phase := p\<rparr> else calls ! m)"
  by (simp add: set_call_phase_def nth_list_update)

lemma nth_fill_entry:
  "m < length calls \<Longrightarrow> fill_entry r k t calls ! m =
     (if map_of t k = Some m then (calls ! m)\<lparr>ca_slot := Some r\<rparr> else calls ! m)"
  by (auto simp: fill_entry_def nth_fill split: option.splits)

lemma fold_fill:
  "length (fold (fill r) ns calls) = length calls \<and>
   (\<forall>m < length calls. fold (fill r) ns calls ! m = (if m \<in> set ns then (calls ! m)\<lparr>ca_slot := Some r\<rparr> else calls ! m))"
  by (induction ns arbitrary: calls) (auto simp: nth_fill)

lemma length_fill_table [simp]: "length (fill_table r t calls) = length calls"
  by (simp add: fill_table_def fold_fill)

lemma nth_fill_table:
  "m < length calls \<Longrightarrow> fill_table r t calls ! m =
     (if m \<in> snd ` set t then (calls ! m)\<lparr>ca_slot := Some r\<rparr> else calls ! m)"
  by (simp add: fill_table_def fold_fill)

lemmas call_list_simps = nth_fill nth_set_call_phase nth_fill_entry nth_fill_table nth_append less_Suc_eq

lemma open_call_simps [simp]:
  "\<not> open_call (c\<lparr>ca_slot := Some r\<rparr>)" "\<not> open_call (c\<lparr>ca_phase := Refused r\<rparr>)"
  "ca_phase c = Sending \<or> ca_phase c = Awaiting \<Longrightarrow> open_call (c\<lparr>ca_phase := Awaiting\<rparr>) = open_call c"
  "ca_phase c = Sending \<or> ca_phase c = Awaiting \<Longrightarrow> open_call (c\<lparr>ca_phase := Abandoned\<rparr>) = open_call c"
  by (auto simp: open_call_def)

lemma open_call_make [simp]:
  "open_call \<lparr>ca_request = m, ca_slot = None, ca_phase = Sending\<rparr>" "open_call \<lparr>ca_request = m, ca_slot = None, ca_phase = Awaiting\<rparr>"
  "\<not> open_call \<lparr>ca_request = m, ca_slot = sl, ca_phase = Refused r\<rparr>" "\<not> open_call \<lparr>ca_request = m, ca_slot = Some r, ca_phase = p\<rparr>"
  by (simp_all add: open_call_def)

text \<open>Taking the entry of a key closes exactly the call that was open under it.\<close>

lemma open_at_fill_entry:
  assumes "table_exact key t calls"
  shows "open_at key' (fill_entry r k t calls) k' n \<longleftrightarrow> open_at key' calls k' n \<and> \<not> open_at key calls k n"
  using table_exact_map_of [OF assms, of k n] by (auto simp: open_at_def nth_fill_entry)

lemma open_at_fill_table:
  assumes "table_exact key t calls"
  shows "open_at key' (fill_table r t calls) k' n \<longleftrightarrow> open_at key' calls k' n \<and> \<not> (\<exists>k. open_at key calls k n)"
proof -
  have "n \<in> snd ` set t \<longleftrightarrow> (\<exists>k. open_at key calls k n)"
    using assms by (force simp: table_exact_def)
  then show ?thesis by (cases "n \<in> snd ` set t") (auto simp: open_at_def nth_fill_table)
qed

lemma open_at_append:
  "open_at key (calls @ [c]) k n \<longleftrightarrow>
     open_at key calls k n \<or> n = length calls \<and> open_call c \<and> key (ca_request c) = Some k"
  by (auto simp: open_at_def nth_append less_Suc_eq)

lemma open_at_queued:
  "ca_phase (calls ! m) = Sending \<or> ca_phase (calls ! m) = Awaiting \<Longrightarrow> p = Awaiting \<or> p = Abandoned \<Longrightarrow>
     open_at key (set_call_phase p m calls) k n \<longleftrightarrow> open_at key calls k n"
  by (auto simp: open_at_def nth_set_call_phase split: if_splits)

lemma open_at_refused:
  "open_at key (set_call_phase (Refused r) m calls) k n \<longleftrightarrow> open_at key calls k n \<and> n \<noteq> m"
  by (auto simp: open_at_def nth_set_call_phase split: if_splits)

lemma open_at_unique: "open_at key calls k n \<Longrightarrow> open_at key calls k' n \<Longrightarrow> k = k'"
  by (simp add: open_at_def)

lemma table_exactI:
  "distinct (map fst t) \<Longrightarrow> (\<And>k n. (k, n) \<in> set t \<longleftrightarrow> open_at key calls k n) \<Longrightarrow> table_exact key t calls"
  by (simp add: table_exact_def)

lemma table_exact_one: "table_exact key t calls \<Longrightarrow> open_at key calls k n \<Longrightarrow> open_at key calls k m \<Longrightarrow> n = m"
  using table_exact_map_of [of key t calls k n] table_exact_map_of [of key t calls k m] by simp

lemma table_exact_remove:
  assumes "table_exact key t calls"
  shows "table_exact key (table_remove k t) (fill_entry r k t calls)"
proof (rule table_exactI)
  show "distinct (map fst (table_remove k t))"
    using assms by (simp add: table_exact_def distinct_table_remove)
  show "(k', n) \<in> set (table_remove k t) \<longleftrightarrow> open_at key (fill_entry r k t calls) k' n" for k' n
    using assms open_at_unique by (auto simp: open_at_fill_entry [OF assms] table_exact_def)
qed

text \<open>The kinds of calls do not share keys, so a step on one table leaves the others exact.\<close>

definition disjoint_keys :: "(client_message \<Rightarrow> string option) \<Rightarrow> (client_message \<Rightarrow> string option) \<Rightarrow> bool" where
  "disjoint_keys key key' \<longleftrightarrow> (\<forall>m. key m = None \<or> key' m = None)"

lemma keys_disjoint:
  "disjoint_keys execute_key cancel_key" "disjoint_keys execute_key tools_key" "disjoint_keys cancel_key execute_key"
  "disjoint_keys cancel_key tools_key" "disjoint_keys tools_key execute_key" "disjoint_keys tools_key cancel_key"
proof -
  have "execute_key m = None \<or> cancel_key m = None" "execute_key m = None \<or> tools_key m = None"
    "cancel_key m = None \<or> tools_key m = None" for m by (cases m; simp)+
  then show "disjoint_keys execute_key cancel_key" "disjoint_keys execute_key tools_key" "disjoint_keys cancel_key execute_key"
    "disjoint_keys cancel_key tools_key" "disjoint_keys tools_key execute_key" "disjoint_keys tools_key cancel_key"
    by (simp_all add: disjoint_keys_def disj_commute)
qed

lemma disjoint_open_at: "disjoint_keys key key' \<Longrightarrow> open_at key calls k n \<Longrightarrow> \<not> open_at key' calls k' n"
  by (auto simp: disjoint_keys_def open_at_def) (metis option.distinct(1))

lemma table_exact_other:
  assumes "table_exact key t calls" and "disjoint_keys key key'" and "table_exact key' t' calls"
  shows "table_exact key' t' (fill_entry r k t calls)" and "table_exact key' t' (fill_table r t calls)"
  using assms disjoint_open_at [OF assms(2)]
  by (auto simp: table_exact_def open_at_fill_entry [OF assms(1)] open_at_fill_table [OF assms(1)])

lemma table_exact_drained: "table_exact key t calls \<Longrightarrow> table_exact key [] (fill_table r t calls)"
  by (rule table_exactI) (auto simp: open_at_fill_table)

text \<open>A new call joins the table of its kind, after the entry of its key was taken.\<close>

lemma table_exact_append:
  assumes "table_exact key t calls" and "\<not> open_call c \<or> key (ca_request c) = None"
  shows "table_exact key t (calls @ [c])"
  using assms by (auto simp: table_exact_def open_at_append)

lemma table_exact_insert:
  assumes "table_exact key t calls" and "open_call c" and "key (ca_request c) = Some k"
  shows "table_exact key (table_insert k (length calls) t) (fill_entry r k t calls @ [c])"
proof -
  note removed = table_exact_remove [OF assms(1), of k r]
  have "\<not> open_at key (fill_entry r k t calls) k n" for n
    using table_exact_map_of [OF assms(1), of k n] by (auto simp: open_at_fill_entry [OF assms(1)])
  then show ?thesis
    using removed assms(2,3) by (auto simp: table_exact_def table_insert_def open_at_append)
qed

lemma table_exact_queued:
  "table_exact key t calls \<Longrightarrow> ca_phase (calls ! m) = Sending \<or> ca_phase (calls ! m) = Awaiting \<Longrightarrow>
     p = Awaiting \<or> p = Abandoned \<Longrightarrow> table_exact key t (set_call_phase p m calls)"
  by (simp add: table_exact_def open_at_queued)

lemma table_exact_refused:
  "table_exact key t calls \<Longrightarrow> \<not> open_call (calls ! m) \<Longrightarrow> table_exact key t (set_call_phase (Refused r) m calls)"
  by (simp add: table_exact_def open_at_refused) (auto simp: open_at_def)


text \<open>All three tables.\<close>

definition tables_exact :: "client_state \<Rightarrow> bool" where
  "tables_exact s \<longleftrightarrow>
     table_exact execute_key (wc_pending s) (wc_calls s) \<and>
     table_exact cancel_key (wc_cancel_acks s) (wc_calls s) \<and>
     table_exact tools_key (wc_tool_acks s) (wc_calls s)"

lemmas client_ops = execute_register_def execute_send_def execute_request_def cancel_call_def tools_register_def tools_send_def
  reader_receive_def drain_pending_def drain_cancels_def drain_tools_def writer_write_def writer_fail_def
  drop_send_def drop_abort_def Let_def

lemma tables_exact_initial: "tables_exact WslClient_new"
  by (auto simp: tables_exact_def WslClient_new_def table_exact_def open_at_def)

text \<open>Taking an entry of one table, and draining one, keeps all three exact.\<close>

lemma take_pending:
  assumes "tables_exact s"
  shows "tables_exact (s\<lparr>wc_pending := table_remove k (wc_pending s), wc_calls := fill_entry r k (wc_pending s) (wc_calls s)\<rparr>)"
  using assms table_exact_remove table_exact_other(1) keys_disjoint by (simp add: tables_exact_def) blast

lemma take_cancel:
  assumes "tables_exact s"
  shows "tables_exact (s\<lparr>wc_cancel_acks := table_remove k (wc_cancel_acks s), wc_calls := fill_entry r k (wc_cancel_acks s) (wc_calls s)\<rparr>)"
  using assms table_exact_remove table_exact_other(1) keys_disjoint by (simp add: tables_exact_def) blast

lemma take_tools:
  assumes "tables_exact s"
  shows "tables_exact (s\<lparr>wc_tool_acks := table_remove k (wc_tool_acks s), wc_calls := fill_entry r k (wc_tool_acks s) (wc_calls s)\<rparr>)"
  using assms table_exact_remove table_exact_other(1) keys_disjoint by (simp add: tables_exact_def) blast

lemma tables_exact_drained:
  assumes "tables_exact s"
  shows "tables_exact (s\<lparr>wc_pending := [], wc_calls := fill_table r (wc_pending s) (wc_calls s)\<rparr>)"
    and "tables_exact (s\<lparr>wc_cancel_acks := [], wc_calls := fill_table r (wc_cancel_acks s) (wc_calls s)\<rparr>)"
    and "tables_exact (s\<lparr>wc_tool_acks := [], wc_calls := fill_table r (wc_tool_acks s) (wc_calls s)\<rparr>)"
  using assms table_exact_drained table_exact_other(2) keys_disjoint by (simp_all add: tables_exact_def) blast+

lemma tables_exact_cong:
  "wc_pending t = wc_pending s \<Longrightarrow> wc_cancel_acks t = wc_cancel_acks s \<Longrightarrow> wc_tool_acks t = wc_tool_acks s \<Longrightarrow>
     wc_calls t = wc_calls s \<Longrightarrow> tables_exact t = tables_exact s"
  by (simp add: tables_exact_def)

lemma tables_exact_append:
  "tables_exact s \<Longrightarrow> \<not> open_call c \<Longrightarrow> tables_exact (s\<lparr>wc_calls := wc_calls s @ [c]\<rparr>)"
  by (simp add: tables_exact_def table_exact_append)

lemma tables_exact_queued:
  "tables_exact s \<Longrightarrow> ca_phase (wc_calls s ! n) = Sending \<or> ca_phase (wc_calls s ! n) = Awaiting \<Longrightarrow> p = Awaiting \<or> p = Abandoned \<Longrightarrow>
     tables_exact (s\<lparr>wc_calls := set_call_phase p n (wc_calls s)\<rparr>)"
  by (simp add: tables_exact_def table_exact_queued)

lemma tables_exact_refused:
  "tables_exact s \<Longrightarrow> \<not> open_call (wc_calls s ! n) \<Longrightarrow>
     tables_exact (s\<lparr>wc_calls := set_call_phase (Refused r) n (wc_calls s)\<rparr>)"
  by (simp add: tables_exact_def table_exact_refused)

lemma tables_exact_execute: "tables_exact s \<Longrightarrow> tables_exact (execute_register request timeout s)"
proof -
  assume e: "tables_exact s"
  let ?c = "\<lparr>ca_request = execute_request request timeout, ca_slot = None, ca_phase = Sending\<rparr>"
  show ?thesis
  proof (cases "map_of (wc_pending s) (er_id request)")
    case None
    then have f: "fill_entry r (er_id request) (wc_pending s) (wc_calls s) = wc_calls s" for r
      by (simp add: fill_entry_def)
    have "table_exact execute_key (table_insert (er_id request) (length (wc_calls s)) (wc_pending s)) (wc_calls s @ [?c])"
      using table_exact_insert [of execute_key "wc_pending s" "wc_calls s" ?c "er_id request"] e
      by (simp add: f tables_exact_def execute_request_def)
    with None e show ?thesis
      by (simp add: execute_register_def tables_exact_def table_exact_append execute_request_def)
  next
    case (Some m)
    with e show ?thesis by (simp add: execute_register_def Let_def tables_exact_append)
  qed
qed

lemma tables_exact_tools: "tables_exact s \<Longrightarrow> tables_exact (tools_register s)"
  using take_tools [of s disconnected_tools "tools_request_id (wc_next_request_id s)"]
    table_exact_insert [of tools_key "wc_tool_acks s" "wc_calls s"]
  by (simp add: tools_register_def Let_def tables_exact_def table_exact_append)

lemma tables_exact_cancel: "tables_exact s \<Longrightarrow> tables_exact (cancel_call i s)"
proof -
  assume e: "tables_exact s"
  let ?calls = "fill_entry disconnected_cancel i (wc_cancel_acks s) (wc_calls s)"
  note removed = take_cancel [OF e, of disconnected_cancel i]
  show ?thesis
  proof (cases "wc_writer s")
    case True
    have "table_exact cancel_key (table_insert i (length ?calls) (wc_cancel_acks s))
        (?calls @ [\<lparr>ca_request = CM_Cancel i, ca_slot = None, ca_phase = Awaiting\<rparr>])"
      using table_exact_insert [of cancel_key "wc_cancel_acks s" "wc_calls s"] e by (simp add: tables_exact_def)
    with True removed show ?thesis
      by (simp add: cancel_call_def Let_def tables_exact_def table_exact_append)
  next
    case False
    with removed show ?thesis
      by (simp add: cancel_call_def Let_def tables_exact_def table_exact_append)
  qed
qed


text \<open>A send either queues the request or, with the writer gone, takes the entry back.\<close>

lemma tables_exact_send_back:
  assumes "tables_exact s"
  shows "execute_key (ca_request (wc_calls s ! n)) = Some k \<Longrightarrow> n < length (wc_calls s) \<Longrightarrow>
      tables_exact (s\<lparr>wc_pending := table_remove k (wc_pending s),
        wc_calls := set_call_phase (Refused q) n (fill_entry r k (wc_pending s) (wc_calls s))\<rparr>)"
    and "tools_key (ca_request (wc_calls s ! n)) = Some k \<Longrightarrow> n < length (wc_calls s) \<Longrightarrow>
      tables_exact (s\<lparr>wc_tool_acks := table_remove k (wc_tool_acks s),
        wc_calls := set_call_phase (Refused q) n (fill_entry r k (wc_tool_acks s) (wc_calls s))\<rparr>)"
proof -
  have closed: "\<not> open_call (fill_entry r k t (wc_calls s) ! n)"
    if "table_exact key t (wc_calls s)" "key (ca_request (wc_calls s ! n)) = Some k" "n < length (wc_calls s)" for key t
    using that table_exact_map_of [OF that(1), of k n] by (auto simp: nth_fill_entry open_at_def)
  show "execute_key (ca_request (wc_calls s ! n)) = Some k \<Longrightarrow> n < length (wc_calls s) \<Longrightarrow>
      tables_exact (s\<lparr>wc_pending := table_remove k (wc_pending s),
        wc_calls := set_call_phase (Refused q) n (fill_entry r k (wc_pending s) (wc_calls s))\<rparr>)"
    using tables_exact_refused [OF take_pending [OF assms, of r k], of n q] closed [of execute_key "wc_pending s"] assms
    by (simp add: tables_exact_def)
  show "tools_key (ca_request (wc_calls s ! n)) = Some k \<Longrightarrow> n < length (wc_calls s) \<Longrightarrow>
      tables_exact (s\<lparr>wc_tool_acks := table_remove k (wc_tool_acks s),
        wc_calls := set_call_phase (Refused q) n (fill_entry r k (wc_tool_acks s) (wc_calls s))\<rparr>)"
    using tables_exact_refused [OF take_tools [OF assms, of r k], of n q] closed [of tools_key "wc_tool_acks s"] assms
    by (simp add: tables_exact_def)
qed

lemma tables_exact_receive: "tables_exact s \<Longrightarrow> tables_exact (reader_receive m s)"
proof -
  assume "tables_exact s"
  then have e: "tables_exact (s\<lparr>wc_received := wc_received s @ [m]\<rparr>)" by (simp add: tables_exact_def)
  show ?thesis
    using take_pending [OF e] take_cancel [OF e] take_tools [OF e] e
    by (cases m) (auto simp: reader_receive_def Let_def split: option.splits)
qed

lemma tables_exact_step:
  assumes "client_step s t" and "tables_exact s"
  shows "tables_exact t"
  using assms
proof (induction rule: client_step.induct)
  case (execute_queue n s request t)
  then show ?case
    using tables_exact_queued [of s n Awaiting] tables_exact_send_back(1) [of s n "er_id request"]
    by (simp add: execute_send_def tables_exact_def)
next
  case (tools_queue n s request_id)
  then show ?case
    using tables_exact_queued [of s n Awaiting] tables_exact_send_back(2) [of s n request_id]
    by (simp add: tools_send_def tables_exact_def)
next
  case (abandon n s)
  then show ?case by (simp add: tables_exact_queued)
next
  case (drained_pending s)
  then show ?case
    using tables_exact_drained(1) [of s disconnected_execute] by (simp add: drain_pending_def tables_exact_def)
next
  case (drained_cancels s)
  then show ?case
    using tables_exact_drained(2) [of s disconnected_cancel] by (simp add: drain_cancels_def tables_exact_def)
next
  case (drained_tools s)
  then show ?case
    using tables_exact_drained(3) [of s disconnected_tools] by (simp add: drain_tools_def tables_exact_def)
next
  case (aborting s)
  from tables_exact_drained(1) [OF tables_exact_drained(2) [OF tables_exact_drained(3) [OF aborting(2), of disconnected_tools],
      of disconnected_cancel], of disconnected_execute]
  show ?case by (simp add: drop_abort_def tables_exact_def)
qed (simp_all add: tables_exact_execute tables_exact_cancel tables_exact_tools tables_exact_receive,
    simp_all add: writer_write_def writer_fail_def drop_send_def tables_exact_def)


section \<open>Replies\<close>

text \<open>
  Where a reply may come from: \<open>received\<close> are the messages read so far; \<open>lost\<close> says that the reader has left its loop or the
  writer has ended.
\<close>

fun reply_from :: "bool \<Rightarrow> server_message list \<Rightarrow> client_message \<Rightarrow> client_reply \<Rightarrow> bool" where
  "reply_from lost received (CM_Execute request _) (ExecuteReply (Inr res)) \<longleftrightarrow>
     res_execution_id res = er_id request \<and> SM_Completed res \<in> set received"
| "reply_from lost received (CM_Execute request _) (ExecuteReply (Inl (Remote code message))) \<longleftrightarrow>
     SM_Failed (Some (er_id request)) \<lparr>pf_code = code, pf_message = message\<rparr> \<in> set received"
| "reply_from lost received (CM_Execute request _) (ExecuteReply (Inl (DuplicateExecutionId i))) \<longleftrightarrow> i = er_id request"
| "reply_from lost received (CM_Execute request _) (ExecuteReply (Inl Disconnected)) \<longleftrightarrow> lost"
| "reply_from lost received (CM_Cancel i) (CancelReply (Inr found)) \<longleftrightarrow> SM_CancelAcknowledged i found \<in> set received"
| "reply_from lost received (CM_Cancel i) (CancelReply (Inl Disconnected)) \<longleftrightarrow> True"
| "reply_from lost received (CM_ListTools i) (ToolsReply (Inr tools)) \<longleftrightarrow> SM_Tools i tools \<in> set received"
| "reply_from lost received (CM_ListTools i) (ToolsReply (Inl Disconnected)) \<longleftrightarrow> True"
| "reply_from lost received _ _ \<longleftrightarrow> False"

definition connection_lost :: "client_state \<Rightarrow> bool" where
  "connection_lost s \<longleftrightarrow> wc_reader s \<noteq> Reading \<or> \<not> wc_writer s"

definition call_ok :: "bool \<Rightarrow> server_message list \<Rightarrow> client_call \<Rightarrow> bool" where
  "call_ok lost received c \<longleftrightarrow>
     (execute_key (ca_request c) \<noteq> None \<or> cancel_key (ca_request c) \<noteq> None \<or> tools_key (ca_request c) \<noteq> None) \<and>
     (\<forall>r. ca_slot c = Some r \<or> ca_phase c = Refused r \<longrightarrow> reply_from lost received (ca_request c) r)"

abbreviation calls_ok :: "client_state \<Rightarrow> bool" where
  "calls_ok s \<equiv> list_all (call_ok (connection_lost s) (wc_received s)) (wc_calls s)"

lemma reply_from_mono:
  "reply_from lost received m r \<Longrightarrow> (lost \<longrightarrow> lost') \<Longrightarrow> set received \<subseteq> set received' \<Longrightarrow> reply_from lost' received' m r"
  by (induction lost received m r rule: reply_from.induct) auto

lemma call_ok_mono:
  "call_ok lost received c \<Longrightarrow> (lost \<longrightarrow> lost') \<Longrightarrow> set received \<subseteq> set received' \<Longrightarrow> call_ok lost' received' c"
  by (auto simp: call_ok_def intro: reply_from_mono)

lemma calls_ok_mono:
  "list_all (call_ok lost received) cs \<Longrightarrow> (lost \<longrightarrow> lost') \<Longrightarrow> set received \<subseteq> set received' \<Longrightarrow> list_all (call_ok lost' received') cs"
  by (auto simp: list_all_iff intro: call_ok_mono)

lemma calls_ok_nth: "list_all (call_ok lost received) cs \<longleftrightarrow> (\<forall>n < length cs. call_ok lost received (cs ! n))"
  by (simp add: list_all_length)

lemma fill_entry_ok:
  assumes "list_all (call_ok lost received) cs" and "table_exact key t cs"
    and "\<And>m. key m = Some k \<Longrightarrow> reply_from lost received m r"
  shows "list_all (call_ok lost received) (fill_entry r k t cs)"
  using assms(1,3) table_exact_map_of [OF assms(2), of k]
  by (auto simp: calls_ok_nth nth_fill_entry open_at_def call_ok_def)

lemma fill_table_ok:
  assumes "list_all (call_ok lost received) cs" and "table_exact key t cs"
    and "\<And>m k. key m = Some k \<Longrightarrow> reply_from lost received m r"
  shows "list_all (call_ok lost received) (fill_table r t cs)"
proof -
  have "reply_from lost received (ca_request (cs ! n)) r" if "(k, n) \<in> set t" for k n
    using assms(2,3) that by (auto simp: table_exact_def open_at_def)
  then show ?thesis
    using assms(1,3) by (auto simp: calls_ok_nth nth_fill_table call_ok_def)
qed

lemma set_call_phase_ok:
  assumes "list_all (call_ok lost received) cs"
    and "\<And>r. p = Refused r \<Longrightarrow> reply_from lost received (ca_request (cs ! n)) r"
  shows "list_all (call_ok lost received) (set_call_phase p n cs)"
  using assms by (auto simp: calls_ok_nth nth_set_call_phase call_ok_def)

lemma execute_keyD: "execute_key m = Some k \<Longrightarrow> \<exists>rq t. m = CM_Execute rq t \<and> er_id rq = k"
  by (cases m) auto

lemma cancel_keyD: "cancel_key m = Some k \<Longrightarrow> m = CM_Cancel k"
  by (cases m) auto

lemma tools_keyD: "tools_key m = Some k \<Longrightarrow> m = CM_ListTools k"
  by (cases m) auto


lemma calls_ok_receive:
  assumes "calls_ok s" and "tables_exact s"
  shows "calls_ok (reader_receive m s)"
proof -
  let ?rec = "wc_received s @ [m]"
  have lost: "connection_lost (reader_receive m s) = connection_lost s" "wc_received (reader_receive m s) = ?rec"
    by (auto simp: reader_receive_def Let_def connection_lost_def split: server_message.splits option.splits)
  have ok: "list_all (call_ok (connection_lost s) ?rec) (wc_calls s)"
    using assms(1) by (rule calls_ok_mono) auto
  have "list_all (call_ok (connection_lost s) ?rec) (wc_calls (reader_receive m s))"
  proof (cases m)
    case (SM_Completed res)
    have "reply_from (connection_lost s) ?rec m' (ExecuteReply (Inr res))"
      if "execute_key m' = Some (res_execution_id res)" for m'
      using execute_keyD [OF that] SM_Completed by auto
    with ok assms(2) SM_Completed show ?thesis
      by (auto simp: reader_receive_def tables_exact_def Let_def intro!: fill_entry_ok [where key = execute_key])
  next
    case (SM_Failed i e)
    have "reply_from (connection_lost s) ?rec m' (ExecuteReply (Inl (Remote (pf_code e) (pf_message e))))"
      if "i = Some k" "execute_key m' = Some k" for m' k
      using execute_keyD [OF that(2)] that(1) SM_Failed by auto
    with ok assms(2) SM_Failed show ?thesis
      by (cases i) (auto simp: reader_receive_def tables_exact_def Let_def intro!: fill_entry_ok [where key = execute_key])
  next
    case (SM_CancelAcknowledged i found)
    have "reply_from (connection_lost s) ?rec m' (CancelReply (Inr found))" if "cancel_key m' = Some i" for m'
      using cancel_keyD [OF that] SM_CancelAcknowledged by auto
    with ok assms(2) SM_CancelAcknowledged show ?thesis
      by (auto simp: reader_receive_def tables_exact_def Let_def intro!: fill_entry_ok [where key = cancel_key])
  next
    case (SM_Tools i tools)
    have "reply_from (connection_lost s) ?rec m' (ToolsReply (Inr tools))" if "tools_key m' = Some i" for m'
      using tools_keyD [OF that] SM_Tools by auto
    with ok assms(2) SM_Tools show ?thesis
      by (auto simp: reader_receive_def tables_exact_def Let_def intro!: fill_entry_ok [where key = tools_key])
  qed (use ok in \<open>simp_all add: reader_receive_def Let_def\<close>)
  with lost show ?thesis by simp
qed

lemma call_ok_new:
  "call_ok lost received \<lparr>ca_request = CM_Execute rq t, ca_slot = None, ca_phase = Sending\<rparr>"
  "call_ok lost received \<lparr>ca_request = CM_Execute rq t, ca_slot = None,
     ca_phase = Refused (ExecuteReply (Inl (DuplicateExecutionId (er_id rq))))\<rparr>"
  "call_ok lost received \<lparr>ca_request = CM_Cancel i, ca_slot = None, ca_phase = Awaiting\<rparr>"
  "call_ok lost received \<lparr>ca_request = CM_Cancel i, ca_slot = Some disconnected_cancel, ca_phase = Refused disconnected_cancel\<rparr>"
  "call_ok lost received \<lparr>ca_request = CM_ListTools i, ca_slot = None, ca_phase = Sending\<rparr>"
  by (simp_all add: call_ok_def)

lemma disconnected_from:
  "execute_key m = Some k \<Longrightarrow> reply_from True received m disconnected_execute"
  "cancel_key m = Some k \<Longrightarrow> reply_from lost received m disconnected_cancel"
  "tools_key m = Some k \<Longrightarrow> reply_from lost received m disconnected_tools"
  by (cases m; simp)+

lemma calls_ok_step:
  assumes "client_step s t" and "tables_exact s" and "calls_ok s"
  shows "calls_ok t"
  using assms
proof (induction rule: client_step.induct)
  case (execute s request timeout)
  then show ?case
    by (simp add: execute_register_def execute_request_def connection_lost_def call_ok_new Let_def)
next
  case (execute_queue n s request t)
  have "list_all (call_ok True (wc_received s)) (fill_entry disconnected_execute (er_id request) (wc_pending s) (wc_calls s))"
    if "\<not> wc_writer s"
    using fill_entry_ok [of True "wc_received s" "wc_calls s" execute_key "wc_pending s"] disconnected_from(1)
      execute_queue that by (simp add: connection_lost_def tables_exact_def)
  with execute_queue show ?case
    by (auto simp: execute_send_def connection_lost_def nth_fill_entry intro!: set_call_phase_ok)
next
  case (cancel s i)
  have "list_all (call_ok (connection_lost s) (wc_received s)) (fill_entry disconnected_cancel i (wc_cancel_acks s) (wc_calls s))"
    using fill_entry_ok [of "connection_lost s" "wc_received s" "wc_calls s" cancel_key "wc_cancel_acks s"] disconnected_from(2)
      cancel by (simp add: tables_exact_def)
  then show ?case
    by (cases "wc_writer s") (simp_all add: cancel_call_def connection_lost_def call_ok_new Let_def)
next
  case (list_tools s)
  have "list_all (call_ok (connection_lost s) (wc_received s))
      (fill_entry disconnected_tools (tools_request_id (wc_next_request_id s)) (wc_tool_acks s) (wc_calls s))"
    using fill_entry_ok [of "connection_lost s" "wc_received s" "wc_calls s" tools_key "wc_tool_acks s"] disconnected_from(3)
      list_tools by (simp add: tables_exact_def)
  then show ?case by (simp add: tools_register_def connection_lost_def call_ok_new Let_def)
next
  case (tools_queue n s i)
  have "list_all (call_ok (connection_lost s) (wc_received s)) (fill_entry disconnected_tools i (wc_tool_acks s) (wc_calls s))"
    using fill_entry_ok [of "connection_lost s" "wc_received s" "wc_calls s" tools_key "wc_tool_acks s"] disconnected_from(3)
      tools_queue by (simp add: tables_exact_def)
  with tools_queue show ?case
    by (auto simp: tools_send_def connection_lost_def nth_fill_entry intro!: set_call_phase_ok)
next
  case (abandon n s)
  then show ?case by (auto simp: connection_lost_def intro!: set_call_phase_ok)
next
  case (receive s m)
  then show ?case using calls_ok_receive by blast
next
  case (disconnect s)
  then have "list_all (call_ok True (wc_received s)) (wc_calls s)"
    by (auto intro: calls_ok_mono)
  then show ?case by (simp add: connection_lost_def)
next
  case (drained_pending s)
  then show ?case
    using fill_table_ok [of True "wc_received s" "wc_calls s" execute_key "wc_pending s"] disconnected_from(1)
    by (simp add: drain_pending_def connection_lost_def tables_exact_def)
next
  case (drained_cancels s)
  then show ?case
    using fill_table_ok [of True "wc_received s" "wc_calls s" cancel_key "wc_cancel_acks s"] disconnected_from(2)
    by (simp add: drain_cancels_def connection_lost_def tables_exact_def)
next
  case (drained_tools s)
  then show ?case
    using fill_table_ok [of True "wc_received s" "wc_calls s" tools_key "wc_tool_acks s"] disconnected_from(3)
    by (simp add: drain_tools_def connection_lost_def tables_exact_def)
next
  case (write_error s)
  then have "list_all (call_ok True (wc_received s)) (wc_calls s)"
    by (auto intro: calls_ok_mono)
  then show ?case by (simp add: writer_fail_def connection_lost_def)
next
  case (aborting s)
  have ok: "list_all (call_ok True (wc_received s)) (wc_calls s)"
    using aborting(3) by (auto intro: calls_ok_mono)
  note t = aborting(2) [unfolded tables_exact_def]
  have tools: "tables_exact (s\<lparr>wc_tool_acks := [], wc_calls := fill_table disconnected_tools (wc_tool_acks s) (wc_calls s)\<rparr>)"
    by (rule tables_exact_drained(3) [OF aborting(2)])
  note cancels = tables_exact_drained(2) [OF tools, of disconnected_cancel]
  have "list_all (call_ok True (wc_received s)) (fill_table disconnected_tools (wc_tool_acks s) (wc_calls s))"
    using fill_table_ok [OF ok, of tools_key] t disconnected_from(3) by blast
  from fill_table_ok [OF this, of cancel_key "wc_cancel_acks s" disconnected_cancel] tools disconnected_from(2)
  have "list_all (call_ok True (wc_received s))
      (fill_table disconnected_cancel (wc_cancel_acks s) (fill_table disconnected_tools (wc_tool_acks s) (wc_calls s)))"
    by (simp add: tables_exact_def)
  from fill_table_ok [OF this, of execute_key "wc_pending s" disconnected_execute] cancels disconnected_from(1)
  show ?case by (simp add: drop_abort_def connection_lost_def tables_exact_def)
qed (simp_all add: writer_write_def drop_send_def connection_lost_def)

interpretation client: step_invariant "\<lambda>s. s = WslClient_new" client_step "\<lambda>s. tables_exact s \<and> calls_ok s"
proof unfold_locales
  show "tables_exact s \<and> calls_ok s" if "s = WslClient_new" for s
    using that tables_exact_initial by (simp add: WslClient_new_def)
  show "tables_exact t \<and> calls_ok t" if "tables_exact s \<and> calls_ok s" "client_step s t" for s t
    using that tables_exact_step calls_ok_step by blast
qed

abbreviation client_reach :: "client_state \<Rightarrow> bool" where
  "client_reach \<equiv> reach (\<lambda>s. s = WslClient_new) client_step"


section \<open>What callers may rely on\<close>

text \<open>
  (C28) The three tables of a client are exact at every moment, whatever the interleaving of calls, reader and writer:
  an id is in a table if and only if a call of that kind with that id is open (neither resolved nor refused), and it leads to that
  call; so there is at most one open call per kind and id, a message of the daemon reaches the call it is about,
  and no open call is ever lost from its table.
\<close>

theorem client_tables_exact:
  assumes "client_reach s"
  shows "(map_of (wc_pending s) k = Some n \<longleftrightarrow> open_at execute_key (wc_calls s) k n) \<and>
    (map_of (wc_cancel_acks s) k = Some n \<longleftrightarrow> open_at cancel_key (wc_calls s) k n) \<and>
    (map_of (wc_tool_acks s) k = Some n \<longleftrightarrow> open_at tools_key (wc_calls s) k n)"
  using client.reach_inv [OF assms] by (auto simp: tables_exact_def table_exact_map_of)

text \<open>
  (C29) Every reply is the caller's own. A call to \<^verbatim>\<open>execute\<close> that returns a result returns one that the daemon sent as
  completed for its execution id, a remote error is a failure sent for that id, a duplicate is reported with that
  id, and a disconnection only once the reader has left its loop or the writer has ended; acknowledgements of cancellations and lists of tools
  carry the id of their request; no other reply is possible, and replies never change kind.
\<close>

theorem client_replies_own:
  assumes "client_reach s" and "n < length (wc_calls s)" and "call_result (wc_calls s ! n) = Some r"
  shows "reply_from (connection_lost s) (wc_received s) (ca_request (wc_calls s ! n)) r"
proof -
  have "call_ok (connection_lost s) (wc_received s) (wc_calls s ! n)"
    using client.reach_inv [OF assms(1)] assms(2) by (simp add: list_all_length)
  then show ?thesis
    using assms(3) by (auto simp: call_ok_def call_result_def split: call_phase.splits)
qed

text \<open>How the list of calls evolves: calls stay what they are, and a call that is not open stays so.\<close>

definition extends :: "client_call list \<Rightarrow> client_call list \<Rightarrow> bool" where
  "extends cs ds \<longleftrightarrow> length cs \<le> length ds \<and>
     (\<forall>n < length cs. ca_request (ds ! n) = ca_request (cs ! n) \<and> (open_call (ds ! n) \<longrightarrow> open_call (cs ! n)))"

lemma extends_refl [simp]: "extends cs cs"
  by (simp add: extends_def)

lemma extends_trans [trans]: "extends cs ds \<Longrightarrow> extends ds es \<Longrightarrow> extends cs es"
  by (auto simp: extends_def)

lemma extends_ops:
  "extends cs (cs @ ds)" "extends cs (fill_entry r k t cs)" "extends cs (fill_table r t cs)"
  "extends cs (set_call_phase (Refused q) n cs)"
  "ca_phase (cs ! n) = Sending \<or> ca_phase (cs ! n) = Awaiting \<Longrightarrow> p = Awaiting \<or> p = Abandoned \<Longrightarrow>
     extends cs (set_call_phase p n cs)"
  by (auto simp: extends_def nth_append nth_fill_entry nth_fill_table nth_set_call_phase)

lemma extends_receive: "extends (wc_calls s) (wc_calls (reader_receive m s))"
  by (cases m) (auto simp: reader_receive_def Let_def extends_ops split: option.splits)

lemma client_step_extends: "client_step s t \<Longrightarrow> extends (wc_calls s) (wc_calls t)"
proof (induction rule: client_step.induct)
  case (execute_queue n s request t)
  then show ?case
    by (auto simp: execute_send_def extends_ops intro: extends_trans [OF extends_ops(2) extends_ops(4)])
next
  case (tools_queue n s i)
  then show ?case
    by (auto simp: tools_send_def extends_ops intro: extends_trans [OF extends_ops(2) extends_ops(4)])
next
  case (aborting s)
  show ?case
    by (auto simp: drop_abort_def intro: extends_trans [OF extends_ops(3) extends_trans [OF extends_ops(3) extends_ops(3)]])
qed (auto simp: execute_register_def cancel_call_def tools_register_def drain_pending_def drain_cancels_def drain_tools_def
    writer_write_def writer_fail_def drop_send_def Let_def extends_receive extends_ops
    intro: extends_trans [OF extends_ops(2) extends_ops(1)])

text \<open>Which of the first \<open>k\<close> calls the draining of the tables has closed so far.\<close>

definition drained :: "nat \<Rightarrow> client_state \<Rightarrow> bool" where
  "drained k s \<longleftrightarrow> k \<le> length (wc_calls s) \<and>
     (\<forall>n < k. open_call (wc_calls s ! n) \<longrightarrow>
       (execute_key (ca_request (wc_calls s ! n)) \<noteq> None \<longrightarrow> wc_reader s \<in> {Reading, DrainPending}) \<and>
       (cancel_key (ca_request (wc_calls s ! n)) \<noteq> None \<longrightarrow> wc_reader s \<in> {Reading, DrainPending, DrainCancels}) \<and>
       (tools_key (ca_request (wc_calls s ! n)) \<noteq> None \<longrightarrow> wc_reader s \<noteq> ReaderDone))"

lemma reader_receive_reader [simp]: "wc_reader (reader_receive m s) = wc_reader s"
  by (auto simp: reader_receive_def Let_def split: server_message.splits option.splits)

lemma client_step_reader:
  "client_step s t \<Longrightarrow> wc_reader t = wc_reader s \<or>
     wc_reader s = Reading \<and> wc_reader t = DrainPending \<or>
     wc_reader s = DrainPending \<and> wc_reader t = DrainCancels \<and> wc_pending t = [] \<or>
     wc_reader s = DrainCancels \<and> wc_reader t = DrainTools \<and> wc_cancel_acks t = [] \<or>
     wc_reader s = DrainTools \<and> wc_reader t = ReaderDone \<and> wc_tool_acks t = [] \<or>
     wc_reader t = ReaderDone \<and> wc_pending t = [] \<and> wc_cancel_acks t = [] \<and> wc_tool_acks t = []"
  by (induction rule: client_step.induct)
    (auto simp: execute_register_def execute_send_def cancel_call_def tools_register_def tools_send_def
      drain_pending_def drain_cancels_def drain_tools_def writer_write_def writer_fail_def drop_send_def drop_abort_def Let_def)

lemma empty_table_closed: "table_exact key [] cs \<Longrightarrow> n < length cs \<Longrightarrow> open_call (cs ! n) \<Longrightarrow> key (ca_request (cs ! n)) = None"
  by (cases "key (ca_request (cs ! n))") (auto simp: table_exact_def open_at_def)

lemma drained_step:
  assumes "drained k s" and "client_step s t" and "tables_exact t"
  shows "drained k t"
proof -
  note e = client_step_extends [OF assms(2), unfolded extends_def]
  have closed: "wc_pending t = [] \<Longrightarrow> execute_key (ca_request (wc_calls t ! n)) = None"
    "wc_cancel_acks t = [] \<Longrightarrow> cancel_key (ca_request (wc_calls t ! n)) = None"
    "wc_tool_acks t = [] \<Longrightarrow> tools_key (ca_request (wc_calls t ! n)) = None"
    if "n < k" "open_call (wc_calls t ! n)" for n
  proof -
    have "n < length (wc_calls t)" using assms(1) e that(1) by (simp add: drained_def)
    from empty_table_closed [OF _ this that(2)] assms(3)
    show "wc_pending t = [] \<Longrightarrow> execute_key (ca_request (wc_calls t ! n)) = None"
      "wc_cancel_acks t = [] \<Longrightarrow> cancel_key (ca_request (wc_calls t ! n)) = None"
      "wc_tool_acks t = [] \<Longrightarrow> tools_key (ca_request (wc_calls t ! n)) = None"
      by (simp_all add: tables_exact_def)
  qed
  from e assms(1) have pre: "k \<le> length (wc_calls t)"
    "n < k \<Longrightarrow> ca_request (wc_calls t ! n) = ca_request (wc_calls s ! n) \<and> (open_call (wc_calls t ! n) \<longrightarrow> open_call (wc_calls s ! n))" for n
    by (auto simp: drained_def)
  show ?thesis
    using client_step_reader [OF assms(2)] assms(1) pre closed by (auto simp: drained_def)
qed

text \<open>
  (C30) A lost connection ends every call. Whatever calls are under way when the stream of the daemon ends,
  and whatever the callers and the writer do meanwhile, once the reader is done each of those calls has been resolved: none of
  the calls made before the end of the stream stays open.
\<close>

theorem client_calls_end_with_reader:
  assumes "client_reach s" and "wc_reader s = Reading" and "client_step\<^sup>*\<^sup>* s t" and "wc_reader t = ReaderDone"
    and "n < length (wc_calls s)"
  shows "ca_slot (wc_calls t ! n) \<noteq> None \<or> (\<exists>r. ca_phase (wc_calls t ! n) = Refused r)"
proof -
  have "drained (length (wc_calls s)) t \<and> client_reach t"
    using assms(3)
  proof (induction rule: rtranclp_induct)
    case base
    show ?case using assms(1,2) by (simp add: drained_def)
  next
    case (step u v)
    then have "client_reach v" by (blast intro: reach_step)
    with step show ?case using drained_step client.reach_inv [OF \<open>client_reach v\<close>] by blast
  qed
  then have d: "drained (length (wc_calls s)) t" and r: "client_reach t" by simp_all
  have "n < length (wc_calls t)" using d assms(5) by (simp add: drained_def)
  then have "call_ok (connection_lost t) (wc_received t) (wc_calls t ! n)"
    using client.reach_inv [OF r] by (simp add: list_all_length)
  then have "\<not> open_call (wc_calls t ! n)"
    using d assms(4,5) by (auto simp: drained_def call_ok_def)
  then show ?thesis by (auto simp: open_call_def split: call_phase.splits)
qed


text \<open>A run of one call.\<close>

definition demo_execution :: execution_request where
  "demo_execution = \<lparr>er_id = ''e1'', er_tool = ''t'', er_arguments = JNull\<rparr>"

definition demo_result :: execution_result where
  "demo_result = \<lparr>res_execution_id = ''e1'', res_tool = ''t'', res_content = JNull, res_is_error = False\<rparr>"

definition demo_queued :: client_state where
  "demo_queued = execute_send 0 demo_execution (execute_register demo_execution None WslClient_new)"

definition demo_lost :: client_state where
  "demo_lost = drain_tools (drain_cancels (drain_pending (demo_queued\<lparr>wc_reader := DrainPending\<rparr>)))"

lemmas demo_client_simps = demo_queued_def demo_lost_def demo_execution_def demo_result_def WslClient_new_def client_ops
  fill_entry_def fill_table_def fill_def set_call_phase_def table_insert_def table_remove_def

lemma demo_queued_reach: "client_reach demo_queued"
proof -
  let ?a = "execute_register demo_execution None WslClient_new"
  have "client_step WslClient_new ?a" by (rule client_step.execute) (simp add: WslClient_new_def)
  then have "client_reach ?a" by (rule reach_step [OF reach_start, rotated]) simp
  moreover have "client_step ?a demo_queued"
    unfolding demo_queued_def by (rule client_step.execute_queue) (simp_all add: demo_client_simps)
  ultimately show ?thesis by (rule reach_step)
qed

lemma demo_lost_steps: "client_step\<^sup>*\<^sup>* demo_queued demo_lost"
proof -
  let ?a = "demo_queued\<lparr>wc_reader := DrainPending\<rparr>"
  have "client_step\<^sup>*\<^sup>* demo_queued ?a"
    by (rule r_into_rtranclp, rule client_step.disconnect) (simp add: demo_client_simps)
  also have "client_step ?a (drain_pending ?a)" by (rule client_step.drained_pending) simp
  also have "client_step (drain_pending ?a) (drain_cancels (drain_pending ?a))"
    by (rule client_step.drained_cancels) (simp add: drain_pending_def)
  also have "client_step (drain_cancels (drain_pending ?a)) demo_lost"
    unfolding demo_lost_def by (rule client_step.drained_tools) (simp add: drain_cancels_def)
  finally show ?thesis by simp
qed

theorem client_tables_exact_witness:
  "open_at execute_key (wc_calls demo_queued) ''e1'' 0 \<and> ca_phase (wc_calls demo_queued ! 0) = Awaiting"
  using client_tables_exact [OF demo_queued_reach, of "''e1''" 0] by (simp add: demo_client_simps)

lemma demo_completed_reach: "client_reach (reader_receive (SM_Completed demo_result) demo_queued)"
  by (rule reach_step [OF demo_queued_reach client_step.receive]) (simp add: demo_client_simps)

theorem client_replies_own_witness:
  "let s = reader_receive (SM_Completed demo_result) demo_queued in
     call_result (wc_calls s ! 0) = Some (ExecuteReply (Inr demo_result)) \<and>
     reply_from (connection_lost s) (wc_received s) (ca_request (wc_calls s ! 0)) (ExecuteReply (Inr demo_result))"
proof -
  let ?s = "reader_receive (SM_Completed demo_result) demo_queued"
  have "0 < length (wc_calls ?s)" "call_result (wc_calls ?s ! 0) = Some (ExecuteReply (Inr demo_result))"
    by (simp_all add: demo_client_simps call_result_def)
  with client_replies_own [OF demo_completed_reach this] show ?thesis by (simp add: Let_def)
qed

theorem client_calls_end_with_reader_witness:
  "ca_slot (wc_calls demo_lost ! 0) \<noteq> None \<and> call_result (wc_calls demo_lost ! 0) = Some disconnected_execute"
proof -
  have "ca_slot (wc_calls demo_lost ! 0) \<noteq> None \<or> (\<exists>r. ca_phase (wc_calls demo_lost ! 0) = Refused r)"
    by (rule client_calls_end_with_reader [OF demo_queued_reach _ demo_lost_steps]) (simp_all add: demo_client_simps)
  then show ?thesis by (auto simp: demo_client_simps call_result_def)
qed


section \<open>What callers may not rely on\<close>

text \<open>
  A call made after the reader is done, while the writer task still waits for requests, stays open: only
  a failed write (and then another call that is sent back under the same id) or dropping the client ends it.
\<close>

lemma late_call_stays_open:
  assumes "client_reach s" and "client_step s t" and "wc_reader s = ReaderDone" and "wc_writer s" and "\<not> wc_closing s"
    and "open_at execute_key (wc_calls s) k n"
  shows "open_at execute_key (wc_calls t) k n"
proof -
  have e: "tables_exact s" using client.reach_inv [OF assms(1)] by simp
  have other: "\<not> open_at cancel_key (wc_calls s) i n \<and> \<not> open_at tools_key (wc_calls s) i n" for i
    using disjoint_open_at [OF keys_disjoint(1) assms(6)] disjoint_open_at [OF keys_disjoint(2) assms(6)] by blast
  show ?thesis
    using assms(2-6) e other
  proof (induction rule: client_step.induct)
    case (cancel s i)
    then show ?case
      by (simp add: cancel_call_def Let_def open_at_append open_at_fill_entry [of cancel_key] tables_exact_def)
  next
    case (list_tools s)
    then show ?case
      by (simp add: tools_register_def Let_def open_at_append open_at_fill_entry [of tools_key] tables_exact_def)
  qed (auto simp: execute_register_def execute_send_def tools_send_def Let_def open_at_append open_at_queued writer_write_def
      writer_fail_def drop_send_def)
qed

text \<open>
  A daemon reports a failed execution as failed and then completed. The first message resolves the call, and when
  its caller uses the id again the second one resolves the new call, whose request is still in the queue.
\<close>

definition demo_failure :: server_message where
  "demo_failure = SM_Failed (Some ''e1'') \<lparr>pf_code = ''tool_failed'', pf_message = ''x''\<rparr>"

definition demo_reused_id :: client_state where
  "demo_reused_id = execute_send 1 demo_execution (execute_register demo_execution None (reader_receive demo_failure demo_queued))"

lemma stale_completion_resolves_new_call:
  "\<exists>s. client_reach s \<and> call_result (wc_calls s ! 0) = Some (ExecuteReply (Inl (Remote ''tool_failed'' ''x''))) \<and>
     call_result (wc_calls s ! 1) = Some (ExecuteReply (Inr demo_result)) \<and>
     wc_queue s = [CM_Execute demo_execution None, CM_Execute demo_execution None]"
proof -
  let ?a = "reader_receive demo_failure demo_queued"
  let ?b = "execute_register demo_execution None ?a"
  let ?c = "reader_receive (SM_Completed demo_result) demo_reused_id"
  have "client_reach ?a"
    by (rule reach_step [OF demo_queued_reach client_step.receive]) (simp add: demo_client_simps)
  then have "client_reach ?b"
    by (rule reach_step) (rule client_step.execute; simp add: demo_client_simps demo_failure_def)
  then have "client_reach demo_reused_id"
    unfolding demo_reused_id_def
    by (rule reach_step) (rule client_step.execute_queue; simp add: demo_client_simps demo_failure_def)
  then have "client_reach ?c"
    by (rule reach_step) (rule client_step.receive; simp add: demo_client_simps demo_reused_id_def demo_failure_def)
  moreover have "call_result (wc_calls ?c ! 0) = Some (ExecuteReply (Inl (Remote ''tool_failed'' ''x'')))"
    "call_result (wc_calls ?c ! 1) = Some (ExecuteReply (Inr demo_result))"
    "wc_queue ?c = [CM_Execute demo_execution None, CM_Execute demo_execution None]"
    by (simp_all add: demo_client_simps demo_reused_id_def demo_failure_def call_result_def)
  ultimately show ?thesis by blast
qed


section \<open>Connecting\<close>

record endpoint =
  ep_port :: "16 word"
  ep_token :: string

record daemon_key =
  dk_distribution :: string
  dk_guest_program :: string

record client_config =
  cc_distribution :: string
  cc_guest_program :: string
  cc_workspace :: string

text \<open>
  What connecting does to the outside: the transport of a connection (whose errors are already rendered), the
  rendering of an unexpected answer, and the output of the guest's \<^verbatim>\<open>ensure-running\<close>.
\<close>

record command_result =
  cr_success :: bool
  cr_stdout :: string
  cr_stderr :: string

record 'w dialer =
  dl_connect :: "16 word \<Rightarrow> ('w, string, unit) io"
  dl_write :: "client_message \<Rightarrow> ('w, string, unit) io"
  dl_read :: "('w, string, server_message option) io"
  dl_debug :: "server_message option \<Rightarrow> string"
  dl_guest :: "client_config \<Rightarrow> ('w, string, command_result) io"
  dl_from_slice :: "string \<Rightarrow> string + json"

definition map_errI :: "('e \<Rightarrow> 'f) \<Rightarrow> ('w, 'e, 'a) io \<Rightarrow> ('w, 'f, 'a) io" where
  "map_errI g m w = (case m w of (r, w') \<Rightarrow> (map_err g r, w'))"

definition handshake_accepted :: "server_message option \<Rightarrow> bool" where
  "handshake_accepted hello \<longleftrightarrow>
     (case hello of Some (SM_HelloAck protocol_version _) \<Rightarrow> protocol_version = PROTOCOL_VERSION | _ \<Rightarrow> False)"

definition client_dial :: "'w dialer \<Rightarrow> client_config \<Rightarrow> endpoint \<Rightarrow> ('w, client_error, client_state) io" where
  "client_dial d config state =
     bindI (map_errI (\<lambda>e. Spawn (''cannot connect to WSL daemon: '' @ e)) (dl_connect d (ep_port state))) (\<lambda>_.
     bindI (map_errI Handshake (dl_write d (CM_Hello PROTOCOL_VERSION (ep_token state) (cc_workspace config)))) (\<lambda>_.
     bindI (map_errI Handshake (dl_read d)) (\<lambda>hello.
       if \<not> handshake_accepted hello
       then failI (Handshake (''unexpected guest response: '' @ dl_debug d hello))
       else retI WslClient_new)))"

definition endpoint_of :: "json \<Rightarrow> client_error + endpoint" where
  "endpoint_of state =
     bindE (ok_or (Spawn ''daemon state has no valid port'')
              (Option.bind (json_u64 state ''port'') (\<lambda>p. if unat p < 2 ^ 16 then Some (ucast p) else None))) (\<lambda>port.
     bindE (ok_or (Spawn ''daemon state has no token'') (json_str state ''token'')) (\<lambda>token.
       Inr \<lparr>ep_port = port, ep_token = token\<rparr>))"

definition client_ensure_running :: "'w dialer \<Rightarrow> client_config \<Rightarrow> ('w, client_error, endpoint) io" where
  "client_ensure_running d config =
     bindI (map_errI Spawn (dl_guest d config)) (\<lambda>output.
       if \<not> cr_success output then failI (Spawn (trim (utf8_lossy (cr_stderr output))))
       else
         liftE (bindE (map_err (\<lambda>e. Spawn (''invalid daemon state: '' @ e)) (dl_from_slice d (cr_stdout output)))
           endpoint_of))"

text \<open>The process-wide cache of daemons, beside the outside world.\<close>

record 'w host =
  ho_cache :: "daemon_key \<rightharpoonup> endpoint"
  ho_world :: 'w

definition outside :: "('w, 'e, 'a) io \<Rightarrow> ('w host, 'e, 'a) io" where
  "outside m h = (case m (ho_world h) of (r, w) \<Rightarrow> (r, h\<lparr>ho_world := w\<rparr>))"

definition key_of_config :: "client_config \<Rightarrow> daemon_key" where
  "key_of_config config =
     \<lparr>dk_distribution = cc_distribution config, dk_guest_program = cc_guest_program config\<rparr>"

definition update_cache :: "daemon_key \<Rightarrow> endpoint option \<Rightarrow> 'w host \<Rightarrow> 'w host" where
  "update_cache key e h = h\<lparr>ho_cache := (ho_cache h)(key := e)\<rparr>"

definition rediscover :: "'w dialer \<Rightarrow> client_config \<Rightarrow> ('w host, client_error, client_state) io" where
  "rediscover d config =
     bindI (outside (client_ensure_running d config)) (\<lambda>state.
     bindI (outside (client_dial d config state)) (\<lambda>client h.
       (Inr client, update_cache (key_of_config config) (Some state) h)))"

definition client_connect :: "'w dialer \<Rightarrow> client_config \<Rightarrow> ('w host, client_error, client_state) io" where
  "client_connect d config h =
     (if take 1 (cc_workspace config) \<noteq> ''/'' then (Inl (InvalidWorkspace ''expected an absolute Linux path''), h)
      else
        (case ho_cache h (key_of_config config) of
           None \<Rightarrow> rediscover d config h
         | Some state \<Rightarrow>
             (case outside (client_dial d config state) h of
                (Inr client, h1) \<Rightarrow> (Inr client, h1)
              | (Inl _, h1) \<Rightarrow> rediscover d config (update_cache (key_of_config config) None h1))))"


lemma update_cache_simps [simp]:
  "ho_cache (update_cache k e h) = (ho_cache h)(k := e)" "ho_world (update_cache k e h) = ho_world h"
  by (simp_all add: update_cache_def)

lemma outside_eq: "outside m h = (r, h') \<longleftrightarrow> (\<exists>w. m (ho_world h) = (r, w) \<and> h' = h\<lparr>ho_world := w\<rparr>)"
  by (auto simp: outside_def split: prod.splits)

lemma map_errI_eq_Inr: "map_errI g m w = (Inr a, w') \<longleftrightarrow> m w = (Inr a, w')"
  by (auto simp: map_errI_def result_simps split: prod.splits)

lemma handshake_accepted_iff: "handshake_accepted hello \<longleftrightarrow> (\<exists>ws. hello = Some (SM_HelloAck PROTOCOL_VERSION ws))"
  unfolding handshake_accepted_def by (cases hello) (simp, case_tac a, auto)

lemma client_dial_ok:
  "client_dial d config state w = (Inr c, w') \<Longrightarrow>
     \<exists>w2 ws. dl_read d w2 = (Inr (Some (SM_HelloAck PROTOCOL_VERSION ws)), w')"
  by (fastforce simp: client_dial_def result_simps map_errI_eq_Inr handshake_accepted_iff)

text \<open>How \<open>rediscover\<close> ends, for a key that is not cached.\<close>

lemma rediscover_outcome:
  assumes "rediscover d config h = (r, h')" and "ho_cache h (key_of_config config) = None"
  shows "(\<exists>e. r = Inl e) \<and> ho_cache h' = ho_cache h \<or>
    (\<exists>c state w. r = Inr c \<and> ho_cache h' = (ho_cache h)(key_of_config config \<mapsto> state) \<and>
       client_dial d config state w = (Inr c, ho_world h'))"
proof (cases "client_ensure_running d config (ho_world h)")
  case (Pair e w1)
  show ?thesis
  proof (cases e)
    case (Inl x)
    with Pair assms show ?thesis by (auto simp: rediscover_def bindI_def outside_def)
  next
    case (Inr state)
    then show ?thesis
      using assms Pair by (cases "client_dial d config state w1")
        (auto simp: rediscover_def bindI_def outside_def update_cache_def split: sum.splits)
  qed
qed

text \<open>
  What connecting leaves behind. A workspace that is not absolute is refused before anything is
  looked at. Otherwise only the cache entry of this distribution and program can change; a success has just completed
  the handshake (version 2 acknowledged) with the daemon whose endpoint is cached afterwards; and a failure leaves
  no entry, so a daemon that could not be reached is asked for again.
\<close>

theorem connect_outcomes:
  assumes "client_connect d config h = (r, h')"
  shows "(take 1 (cc_workspace config) \<noteq> ''/'' \<longrightarrow>
       r = Inl (InvalidWorkspace ''expected an absolute Linux path'') \<and> h' = h) \<and>
    (take 1 (cc_workspace config) = ''/'' \<longrightarrow>
       (\<forall>key. key \<noteq> key_of_config config \<longrightarrow> ho_cache h' key = ho_cache h key) \<and>
       (case r of
          Inl e \<Rightarrow> ho_cache h' (key_of_config config) = None
        | Inr c \<Rightarrow> (\<exists>state w w2 ws. ho_cache h' (key_of_config config) = Some state \<and>
            client_dial d config state w = (Inr c, ho_world h') \<and>
            dl_read d w2 = (Inr (Some (SM_HelloAck PROTOCOL_VERSION ws)), ho_world h'))))"
proof (cases "take 1 (cc_workspace config) = ''/''")
  case False
  with assms show ?thesis by (auto simp: client_connect_def)
next
  case True
  let ?key = "key_of_config config"
  have read: "\<exists>w2 ws. dl_read d w2 = (Inr (Some (SM_HelloAck PROTOCOL_VERSION ws)), w')"
    if "client_dial d config state w = (Inr c, w')" for state w w' c
    using that by (rule client_dial_ok)
  have new: "?thesis" if "rediscover d config h1 = (r, h')" "ho_cache h1 ?key = None"
      "\<forall>key. key \<noteq> ?key \<longrightarrow> ho_cache h1 key = ho_cache h key" for h1
    using rediscover_outcome [OF that(1,2)] that(2,3) True read by (cases r) (auto; metis)+
  show ?thesis
  proof (cases "ho_cache h ?key")
    case None
    with assms True show ?thesis by (intro new [of h]) (simp_all add: client_connect_def)
  next
    case (Some state)
    show ?thesis
    proof (cases "client_dial d config state (ho_world h)")
      case (Pair x w1)
      show ?thesis
      proof (cases x)
        case (Inl e)
        with Pair Some assms True show ?thesis
          by (intro new [of "update_cache ?key None (h\<lparr>ho_world := w1\<rparr>)"]) (simp_all add: client_connect_def outside_def)
      next
        case (Inr c)
        with Pair Some assms True have "r = Inr c" "h' = h\<lparr>ho_world := w1\<rparr>"
          by (simp_all add: client_connect_def outside_def)
        with Pair Inr Some True read [of state "ho_world h" c w1] show ?thesis by auto
      qed
    qed
  qed
qed

definition demo_dialer :: "16 word dialer" where
  "demo_dialer =
     \<lparr>dl_connect = (\<lambda>p w. (if p = w then Inr () else Inl ''refused'', w)), dl_write = (\<lambda>_ w. (Inr (), w)),
      dl_read = (\<lambda>w. (Inr (Some (SM_HelloAck PROTOCOL_VERSION ''/w'')), w)), dl_debug = (\<lambda>_. []),
      dl_guest = (\<lambda>_ w. (Inr \<lparr>cr_success = True, cr_stdout = [], cr_stderr = []\<rparr>, w)),
      dl_from_slice = (\<lambda>_. Inr (JObject [(''port'', JNumber (PosInt 7)), (''token'', JString ''t'')]))\<rparr>"

definition demo_client_config :: client_config where
  "demo_client_config = \<lparr>cc_distribution = ''d'', cc_guest_program = ''p'', cc_workspace = ''/w''\<rparr>"

text \<open>The cached endpoint is stale: the daemon is found again at another port.\<close>

definition demo_host :: "16 word host" where
  "demo_host = \<lparr>ho_cache = [key_of_config demo_client_config \<mapsto> \<lparr>ep_port = 3, ep_token = ''old''\<rparr>], ho_world = 7\<rparr>"

lemma demo_connects: "fst (client_connect demo_dialer demo_client_config demo_host) = Inr WslClient_new"
  by (simp add: client_connect_def demo_client_config_def demo_host_def key_of_config_def outside_def client_dial_def bindI_def
      map_errI_def demo_dialer_def rediscover_def client_ensure_running_def liftE_def endpoint_of_def json_u64_def json_str_def
      handshake_accepted_def retI_def)

theorem connect_outcomes_witness:
  "ho_cache (snd (client_connect demo_dialer demo_client_config demo_host)) (key_of_config demo_client_config) \<noteq> None"
proof -
  obtain h' where h: "client_connect demo_dialer demo_client_config demo_host = (Inr WslClient_new, h')"
    using demo_connects by (cases "client_connect demo_dialer demo_client_config demo_host") auto
  have "take 1 (cc_workspace demo_client_config) = ''/''" by (simp add: demo_client_config_def)
  with connect_outcomes [OF h] h show ?thesis by auto
qed

end
