(* ===== verification/WebFetch.thy ===== *)
theory WebFetch
  imports FileShared
begin

text \<open>
  The \<^verbatim>\<open>WebFetch\<close> tool (\<^verbatim>\<open>executor-tools/src/web_fetch.rs\<close>): which address is requested, the
  reduction of HTML to text, and the cache of results. The parser of the \<^verbatim>\<open>url\<close> crate and the HTTP client are
  parameters. The loop over the characters is a function of the rest of the text, since it looks ahead to
  the end of a tag name.
\<close>

section \<open>Addresses\<close>

record parsed_url =
  pu_scheme :: string
  pu_host :: "string option"

definition ascii_lower :: "char \<Rightarrow> char" where
  "ascii_lower c = (if in_range 65 90 c then char_of (of_char c + 32 :: nat) else c)"

definition eq_ignore_ascii_case :: "string \<Rightarrow> string \<Rightarrow> bool" where
  "eq_ignore_ascii_case s t \<longleftrightarrow> map ascii_lower s = map ascii_lower t"

definition is_loopback_host :: "string \<Rightarrow> bool" where
  "is_loopback_host host \<longleftrightarrow> eq_ignore_ascii_case host ''localhost'' \<or> host = ''127.0.0.1'' \<or> host = ''::1''"

definition normalize_fetch_url :: "(string \<Rightarrow> parsed_url option) \<Rightarrow> string \<Rightarrow> string" where
  "normalize_fetch_url parse url =
     (case parse url of
        None \<Rightarrow> url
      | Some parsed \<Rightarrow>
          if pu_scheme parsed \<noteq> ''http'' then url
          else if (case pu_host parsed of None \<Rightarrow> False | Some host \<Rightarrow> is_loopback_host host) then url
          else str_replace_first url ''http://'' ''https://'')"


section \<open>From HTML to text\<close>

record strip_state =
  st_in_tag :: bool
  st_in_script :: bool
  st_in_style :: bool
  st_result :: "string list"

definition newline :: string where
  "newline = [CHR 0x0A]"

text \<open>What follows a \<^verbatim>\<open><\<close>, up to a \<^verbatim>\<open>></\<close> or a space, in lower case as far as ASCII goes.\<close>

definition tag_name :: "string list \<Rightarrow> string list" where
  "tag_name rest = map (map ascii_lower) (takeWhile (\<lambda>ch. ch \<noteq> ''>'' \<and> ch \<noteq> '' '') rest)"

definition block_tags :: "string list" where
  "block_tags =
     [''br'', ''p'', ''div'', ''tr'', ''li'', ''h1'', ''h2'', ''h3'', ''h4'', ''h5'', ''h6'', ''blockquote'', ''hr'', ''pre'',
      ''/p'', ''/div'', ''/tr'', ''/li'', ''/h1'', ''/h2'', ''/h3'', ''/h4'', ''/h5'', ''/h6'', ''/blockquote'', ''/pre'',
      ''table'', ''/table'', ''/ol'', ''/ul'', ''ol'', ''ul'', ''/title'', ''title'']"

text \<open>
  The names are compared after \<^verbatim>\<open>to_lowercase\<close>. Of the scalar values beyond ASCII only the Kelvin sign
  has a lower case within ASCII, the letter k; all others leave a name that is not in the list.
\<close>

definition KELVIN_SIGN :: string where
  "KELVIN_SIGN = [CHR 0xE2, CHR 0x84, CHR 0xAA]"

definition is_block_tag :: "string list \<Rightarrow> bool" where
  "is_block_tag tag \<longleftrightarrow> concat (map (\<lambda>ch. if ch = KELVIN_SIGN then ''k'' else ch) tag) \<in> set block_tags"

definition enter_tag :: "string list \<Rightarrow> strip_state \<Rightarrow> strip_state" where
  "enter_tag tag s =
     (let name = concat tag;
          s = (if name = ''script'' then s\<lparr>st_in_script := True\<rparr>
               else if name = ''style'' then s\<lparr>st_in_style := True\<rparr>
               else if prefix ''/script'' name then s\<lparr>st_in_script := False\<rparr>
               else if prefix ''/style'' name then s\<lparr>st_in_style := False\<rparr>
               else s);
          s = (if \<not> st_in_script s \<and> \<not> st_in_style s \<and> is_block_tag tag \<and> st_result s \<noteq> [] \<and> last (st_result s) \<noteq> newline
               then s\<lparr>st_result := st_result s @ [newline]\<rparr> else s) in
      s\<lparr>st_in_tag := True\<rparr>)"

fun strip_loop :: "string list \<Rightarrow> strip_state \<Rightarrow> strip_state" where
  "strip_loop [] s = s"
| "strip_loop (c # rest) s =
     strip_loop rest
       (if c = ''<'' then enter_tag (tag_name rest) s
        else if c = ''>'' then s\<lparr>st_in_tag := False\<rparr>
        else if \<not> st_in_tag s \<and> \<not> st_in_script s \<and> \<not> st_in_style s then s\<lparr>st_result := st_result s @ [c]\<rparr>
        else s)"

definition strip_initial :: strip_state where
  "strip_initial = \<lparr>st_in_tag = False, st_in_script = False, st_in_style = False, st_result = []\<rparr>"

fun collapse :: "bool \<Rightarrow> string list \<Rightarrow> string list" where
  "collapse prev_space [] = []"
| "collapse prev_space (c # cs) =
     (if is_whitespace c \<and> c \<noteq> newline then (if prev_space then collapse True cs else '' '' # collapse True cs)
      else c # collapse False cs)"

definition strip_html :: "string \<Rightarrow> string" where
  "strip_html html =
     join_with newline (filter (\<lambda>line. line \<noteq> [])
       (map trim (str_lines (concat (collapse False (st_result (strip_loop (chars html) strip_initial)))))))"


section \<open>The tool\<close>

text \<open>
  What the client does with an address: the error it fails with, or a response with its status as displayed and
  whether it is a success, and its text or the error of reading it; and when it is done.
\<close>

datatype http_outcome =
    ClientNotBuilt string
  | RequestFailed string
  | Responded bool string "string + string"

type_synonym fetch_cache = "string \<rightharpoonup> string \<times> instant"

text \<open>\<open>we_reduced body t\<close> is the instant at which the reduction of a body that came at \<open>t\<close> is done and the entry is made.\<close>

record web_env =
  we_parse :: "string \<Rightarrow> parsed_url option"
  we_get :: "string \<Rightarrow> instant \<Rightarrow> http_outcome \<times> instant"
  we_reduced :: "string \<Rightarrow> instant \<Rightarrow> instant"

definition web_failure :: "string \<Rightarrow> execution_error" where
  "web_failure message = ToolExecution ''WebFetch'' message"

definition fetch_url_text :: "web_env \<Rightarrow> string \<Rightarrow> instant \<Rightarrow> (execution_error + string) \<times> instant" where
  "fetch_url_text env url now =
     (case we_get env url now of
        (ClientNotBuilt e, t) \<Rightarrow> (Inl (web_failure (''failed to create HTTP client: '' @ e)), t)
      | (RequestFailed e, t) \<Rightarrow> (Inl (web_failure (''HTTP request failed: '' @ e)), t)
      | (Responded success status body, t) \<Rightarrow>
          if \<not> success then (Inl (web_failure (''HTTP request returned status '' @ status)), t)
          else (map_err (\<lambda>e. web_failure (''failed to read HTTP response body: '' @ e)) body, t))"

definition CACHE_SECONDS :: nat where
  "CACHE_SECONDS = 900"

definition MAX_CHARS :: nat where
  "MAX_CHARS = 50000"

definition web_text :: "string \<Rightarrow> string" where
  "web_text body = concat (take MAX_CHARS (chars (strip_html body)))"

definition cached_marker :: string where
  "cached_marker = ''[cached]'' @ newline"

definition lookup_cache :: "fetch_cache \<Rightarrow> string \<Rightarrow> instant \<Rightarrow> string option" where
  "lookup_cache cache url now =
     (case cache url of
        Some (content, time) \<Rightarrow> if now - time < from_secs CACHE_SECONDS then Some (cached_marker @ content) else None
      | None \<Rightarrow> None)"

text \<open>
  An invocation, with the cache it finds. It yields its result and the entry it inserts at the end, which other invocations
  may precede.
\<close>

definition webfetch_invoke ::
  "web_env \<Rightarrow> fetch_cache \<Rightarrow> instant \<Rightarrow> json \<Rightarrow> (execution_error + json) \<times> (string \<times> string \<times> instant) option"
where
  "webfetch_invoke env cache now arguments =
     (case json_str arguments ''url'' of
        None \<Rightarrow> (Inl (ToolValidation ''WebFetch'' ''missing `url`''), None)
      | Some url \<Rightarrow>
          (case lookup_cache cache url now of
             Some content \<Rightarrow> (Inr (JString content), None)
           | None \<Rightarrow>
               let url = normalize_fetch_url (we_parse env) url in
               (case fetch_url_text env url now of
                  (Inl e, _) \<Rightarrow> (Inl e, None)
                | (Inr body, t) \<Rightarrow>
                    (Inr (JString (web_text body)), Some (url, web_text body, we_reduced env body t)))))"

definition web_invocation_detail :: "json \<Rightarrow> string" where
  "web_invocation_detail arguments = (case json_str arguments ''url'' of None \<Rightarrow> [] | Some url \<Rightarrow> url)"

definition cache_insert :: "(string \<times> string \<times> instant) option \<Rightarrow> fetch_cache \<Rightarrow> fetch_cache" where
  "cache_insert entry cache =
     (case entry of None \<Rightarrow> cache | Some (url, content, time) \<Rightarrow> cache(url \<mapsto> (content, time)))"

text \<open>The caches of a session: every invocation looks at one of them and inserts into another, later one.\<close>

inductive web_cache_step :: "web_env \<Rightarrow> fetch_cache \<Rightarrow> fetch_cache \<Rightarrow> bool" for env where
  insert: "web_cache_step env cache (cache_insert (snd (webfetch_invoke env earlier now arguments)) cache)"

abbreviation web_cache_reach :: "web_env \<Rightarrow> fetch_cache \<Rightarrow> bool" where
  "web_cache_reach env \<equiv> reach (\<lambda>c. c = Map.empty) (web_cache_step env)"



section \<open>Texts as lists of scalar values\<close>

definition scalar :: "string \<Rightarrow> bool" where
  "scalar c \<longleftrightarrow> scalar_length c = Some (length c)"

lemma scalar_nonempty: "scalar c \<Longrightarrow> c \<noteq> []"
  by (auto simp: scalar_def)

lemma in_range_iff: "in_range lo hi c \<longleftrightarrow> lo \<le> (of_char c :: nat) \<and> (of_char c :: nat) \<le> hi"
  by (simp add: in_range_def)

lemma scalar_length_append: "scalar_length s = Some n \<Longrightarrow> scalar_length (s @ t) = Some n"
  by (cases s) (auto simp: Let_def split: if_splits list.splits)

lemma scalar_length_take: "scalar_length s = Some n \<Longrightarrow> scalar_length (take n s) = Some n"
  by (cases s) (auto simp: Let_def split: if_splits list.splits)

lemma utf8_chars_scalars: "utf8_chars s = Some cs \<Longrightarrow> list_all scalar cs"
proof (induction s arbitrary: cs rule: utf8_chars.induct)
  case (1 s)
  show ?case
  proof (cases "s = []")
    case True
    with 1 show ?thesis by (simp add: utf8_chars_Nil)
  next
    case False
    with "1.prems" obtain n ds where n: "scalar_length s = Some n" and ds: "utf8_chars (drop n s) = Some ds"
      and cs: "cs = take n s # ds"
      by (subst (asm) utf8_chars.simps) (auto split: option.splits)
    have "scalar (take n s)"
      using scalar_length_take [OF n] scalar_length_pos [OF n] by (simp add: scalar_def min_absorb2)
    with "1.IH" [OF False n ds] show ?thesis by (simp add: cs)
  qed
qed

lemma utf8_chars_concat_scalars: "list_all scalar cs \<Longrightarrow> utf8_chars (concat cs) = Some cs"
proof (induction cs)
  case Nil
  then show ?case by (simp add: utf8_chars_Nil)
next
  case (Cons c cs)
  then have "scalar_length (c @ concat cs) = Some (length c)" "c \<noteq> []"
    using scalar_length_append scalar_nonempty by (auto simp: scalar_def)
  with Cons show ?case by (subst utf8_chars.simps) simp
qed

lemma chars_concat: "list_all scalar cs \<Longrightarrow> chars (concat cs) = cs"
  by (simp add: chars_def utf8_chars_concat_scalars)

lemma scalars_chars: "list_all scalar (chars s)"
  by (auto simp: chars_def split: option.splits dest: utf8_chars_scalars)

lemma concat_chars: "valid_utf8 s \<Longrightarrow> concat (chars s) = s"
  by (auto simp: chars_def valid_utf8_def split: option.splits dest: utf8_chars_concat)

text \<open>An ASCII byte occurs in a text only as a scalar value of its own.\<close>

lemma scalar_ascii: "scalar c \<Longrightarrow> b \<in> set c \<Longrightarrow> in_range 0 127 b \<Longrightarrow> c = [b]"
proof -
  assume c: "scalar c" and b: "b \<in> set c" "in_range 0 127 b"
  show ?thesis
  proof (cases c)
    case (Cons a s)
    with c b show ?thesis
      by (auto simp: scalar_def Let_def in_range_iff split: if_splits list.splits)
  qed (use b in simp)
qed

lemma scalar_singleton: "in_range 0 127 b \<Longrightarrow> scalar [b]"
  by (simp add: scalar_def)


section \<open>The text of a page\<close>

text \<open>Settled text: no white space but single blanks and line feeds.\<close>

fun settled :: "bool \<Rightarrow> string list \<Rightarrow> bool" where
  "settled prev [] \<longleftrightarrow> True"
| "settled prev (c # cs) \<longleftrightarrow>
     (if is_whitespace c \<and> c \<noteq> newline then c = '' '' \<and> \<not> prev \<and> settled True cs else settled False cs)"

lemma blank_whitespace [simp]: "is_whitespace '' ''" "'' '' \<noteq> newline"
  by (simp_all add: is_whitespace_def newline_def)

lemma settled_collapse: "settled prev (collapse prev cs)"
  by (induction prev cs rule: collapse.induct) auto

lemma collapse_settled: "settled prev cs \<Longrightarrow> collapse prev cs = cs"
  by (induction prev cs rule: settled.induct) (auto split: if_splits)

lemma settled_weaken: "settled prev cs \<Longrightarrow> settled False cs"
  by (cases cs) auto

lemma settled_append: "settled prev (xs @ ys) \<Longrightarrow> settled prev xs \<and> settled False ys"
  by (induction prev xs rule: settled.induct) (auto intro: settled_weaken split: if_splits)

lemma settled_sublist: "settled prev cs \<Longrightarrow> sublist ds cs \<Longrightarrow> settled False ds"
  by (auto simp: sublist_def dest!: settled_append intro: settled_weaken)

lemma settled_join: "settled prev xs \<Longrightarrow> settled False ys \<Longrightarrow> settled prev (xs @ newline # ys)"
  by (induction prev xs rule: settled.induct) (auto simp: is_whitespace_def split: if_splits)

lemma set_collapse: "set (collapse prev cs) \<subseteq> insert '' '' (set cs)"
  by (induction prev cs rule: collapse.induct) auto

text \<open>Lines of a text, in scalar values: they are stretches of it without a line feed.\<close>

lemma newline_only: "scalar c \<Longrightarrow> c \<noteq> newline \<Longrightarrow> CHR 0x0A \<notin> set c"
  using scalar_ascii [of c "CHR 0x0A"] by (auto simp: newline_def in_range_def)

lemma line_pieces_block:
  "CHR 0x0A \<notin> set c \<Longrightarrow> c \<noteq> [] \<Longrightarrow> line_pieces (c @ s) =
     (case line_pieces s of [] \<Rightarrow> [(c, False)] | (p, t) # ps \<Rightarrow> (c @ p, t) # ps)"
proof (induction c)
  case (Cons a c)
  then show ?case by (cases "c = []") (auto split: list.splits prod.splits)
qed simp

definition stretch :: "string list \<Rightarrow> string \<Rightarrow> bool" where
  "stretch cs p \<longleftrightarrow> (\<exists>ds. sublist ds cs \<and> newline \<notin> set ds \<and> p = concat ds)"

definition front :: "string list \<Rightarrow> string \<Rightarrow> bool" where
  "front cs p \<longleftrightarrow> (\<exists>ds. prefix ds cs \<and> newline \<notin> set ds \<and> p = concat ds)"

lemma stretch_Cons: "stretch cs p \<Longrightarrow> stretch (c # cs) p"
  by (auto simp: stretch_def sublist_Cons_right)

lemma front_stretch: "front cs p \<Longrightarrow> stretch cs p"
  by (auto simp: stretch_def front_def intro: prefix_imp_sublist)

lemma front_Cons: "front cs p \<Longrightarrow> c \<noteq> newline \<Longrightarrow> front (c # cs) (c @ p)"
  unfolding front_def by (elim exE conjE) (rule_tac x = "c # ds" in exI, simp)

lemma front_Nil: "front cs []"
  unfolding front_def by (rule exI [of _ "[]"]) simp

lemma line_pieces_stretches:
  "list_all scalar cs \<Longrightarrow>
     (\<forall>e \<in> set (line_pieces (concat cs)). stretch cs (fst e)) \<and>
     (line_pieces (concat cs) \<noteq> [] \<longrightarrow> front cs (fst (hd (line_pieces (concat cs)))))"
proof (induction cs)
  case (Cons c cs)
  then have IH: "\<forall>e \<in> set (line_pieces (concat cs)). stretch (c # cs) (fst e)"
      "line_pieces (concat cs) \<noteq> [] \<Longrightarrow> front cs (fst (hd (line_pieces (concat cs))))"
    by (auto intro: stretch_Cons)
  show ?case
  proof (cases "c = newline")
    case True
    then have "line_pieces (concat (c # cs)) = ([], True) # line_pieces (concat cs)"
      by (simp add: newline_def)
    with IH front_Nil front_stretch [OF front_Nil] show ?thesis by simp
  next
    case False
    with Cons.prems have n: "CHR 0x0A \<notin> set c" "c \<noteq> []" by (auto simp: newline_only scalar_nonempty)
    show ?thesis
    proof (cases "line_pieces (concat cs)")
      case Nil
      then have "line_pieces (concat (c # cs)) = [(c, False)]"
        using line_pieces_block [OF n, of "concat cs"] by (simp del: line_pieces_Nil)
      moreover have "front (c # cs) c" using front_Cons [OF front_Nil False, of cs] by simp
      ultimately show ?thesis using front_stretch by simp
    next
      case (Cons e es)
      with n have "line_pieces (concat (c # cs)) = (c @ fst e, snd e) # es"
        by (simp add: line_pieces_block split: prod.split)
      moreover have "front (c # cs) (c @ fst e)" using front_Cons [OF _ False] IH(2) Cons by simp
      ultimately show ?thesis using front_stretch IH(1) Cons by simp
    qed
  qed
qed simp

text \<open>A text without carriage returns is the lines its pieces are.\<close>

lemma str_lines_stretches:
  assumes "list_all scalar cs" and "list_all (\<lambda>c. is_whitespace c \<longrightarrow> c = '' '' \<or> c = newline) cs" and "l \<in> set (str_lines (concat cs))"
  shows "stretch cs l"
proof -
  obtain e where e: "e \<in> set (line_pieces (concat cs))" "l = strip_cr e"
    using assms(3) by (auto simp: str_lines_def)
  then have st: "stretch cs (fst e)" using line_pieces_stretches [OF assms(1)] by blast
  then obtain ds where ds: "sublist ds cs" "fst e = concat ds" by (auto simp: stretch_def)
  have "CHR 0x0D \<notin> set (concat ds)"
  proof
    assume "CHR 0x0D \<in> set (concat ds)"
    then obtain d where d: "d \<in> set ds" "CHR 0x0D \<in> set d" by auto
    with ds(1) assms(1,2) have "scalar d" "is_whitespace d \<longrightarrow> d = '' '' \<or> d = newline"
      by (auto simp: list_all_iff dest!: set_mono_sublist)
    moreover from this(1) d(2) have "d = [CHR 0x0D]" by (rule scalar_ascii) (simp add: in_range_def)
    ultimately show False by (simp add: is_whitespace_def newline_def)
  qed
  then have "fst e \<noteq> [] \<Longrightarrow> last (fst e) \<noteq> CHR 0x0D" using ds last_in_set [of "fst e"] by metis
  then have "strip_cr e = fst e" by (auto simp: strip_cr_def split: prod.splits)
  with e st show ?thesis by simp
qed

text \<open>Trimming a stretch leaves a stretch that starts and ends in ink.\<close>

definition inked :: "string list \<Rightarrow> bool" where
  "inked ds \<longleftrightarrow> ds \<noteq> [] \<and> \<not> is_whitespace (hd ds) \<and> \<not> is_whitespace (last ds)"

definition trim_chars :: "string list \<Rightarrow> string list" where
  "trim_chars cs = rev (dropWhile is_whitespace (rev (dropWhile is_whitespace cs)))"

lemma trim_concat: "list_all scalar cs \<Longrightarrow> trim (concat cs) = concat (trim_chars cs)"
  by (simp add: trim_def trim_chars_def chars_concat)

lemma sublist_trim_chars: "sublist (trim_chars cs) cs"
proof -
  let ?d = "dropWhile is_whitespace cs"
  have "suffix (dropWhile is_whitespace (rev ?d)) (rev ?d)" by (rule suffix_dropWhile)
  then have "prefix (trim_chars cs) ?d"
    by (simp add: trim_chars_def suffix_to_prefix)
  moreover have "suffix ?d cs" by (rule suffix_dropWhile)
  ultimately show ?thesis 
    by (metis prefix_imp_sublist suffix_imp_sublist sublist_order.order_trans)
qed

lemma inked_trim_chars: "trim_chars cs \<noteq> [] \<Longrightarrow> inked (trim_chars cs)"
proof -
  let ?d = "dropWhile is_whitespace cs"
  assume ne: "trim_chars cs \<noteq> []"
  then have r: "dropWhile is_whitespace (rev ?d) \<noteq> []" unfolding trim_chars_def by blast
  then have d: "?d \<noteq> []" by (metis rev_is_Nil_conv dropWhile.simps(1))
  have last: "\<not> is_whitespace (last (trim_chars cs))"
    using hd_dropWhile [OF r] by (simp add: trim_chars_def last_rev)
  have pre: "prefix (trim_chars cs) ?d"
    using suffix_dropWhile [of is_whitespace "rev ?d"] by (simp add: trim_chars_def suffix_to_prefix)
  then have "hd (trim_chars cs) = hd ?d" using ne by (auto simp: prefix_def)
  then show ?thesis using hd_dropWhile [OF d] ne last by (simp add: inked_def)
qed

lemma trim_chars_inked: "inked cs \<Longrightarrow> trim_chars cs = cs"
proof -
  assume i: "inked cs"
  have keep: "dropWhile P xs = xs" if "xs \<noteq> []" "\<not> P (hd xs)" for P and xs :: "string list"
    using that by (cases xs) auto
  from i have "dropWhile is_whitespace cs = cs" by (auto simp: inked_def intro: keep)
  moreover from i have "dropWhile is_whitespace (rev cs) = rev cs" by (auto simp: inked_def hd_rev intro: keep)
  ultimately show ?thesis by (simp add: trim_chars_def)
qed


text \<open>
  The lines of the result: stretches of scalar values with ink at both ends, no white space but single blanks,
  and no angle brackets.
\<close>

definition clean_line :: "string list \<Rightarrow> bool" where
  "clean_line ds \<longleftrightarrow> list_all scalar ds \<and> inked ds \<and> settled False ds \<and> newline \<notin> set ds \<and> ''<'' \<notin> set ds \<and> ''>'' \<notin> set ds"

definition clean_text :: "string \<Rightarrow> bool" where
  "clean_text t \<longleftrightarrow> (\<exists>dss. list_all clean_line dss \<and> t = join_with newline (map concat dss))"

lemma settled_blanks: "settled prev cs \<Longrightarrow> list_all (\<lambda>c. is_whitespace c \<longrightarrow> c = '' '' \<or> c = newline) cs"
  by (induction prev cs rule: settled.induct) (auto split: if_splits)

lemma reduced_clean:
  assumes "list_all scalar cs" and "settled False cs" and "''<'' \<notin> set cs" and "''>'' \<notin> set cs"
  shows "clean_text (join_with newline (filter (\<lambda>line. line \<noteq> []) (map trim (str_lines (concat cs)))))"
proof -
  have line: "\<exists>ds. clean_line ds \<and> l = concat ds" if "l \<in> set (filter (\<lambda>line. line \<noteq> []) (map trim (str_lines (concat cs))))" for l
  proof -
    from that obtain k where k: "k \<in> set (str_lines (concat cs))" "l = trim k" "l \<noteq> []" by auto
    from str_lines_stretches [OF assms(1) settled_blanks [OF assms(2)] k(1)]
    obtain ds where ds: "sublist ds cs" "newline \<notin> set ds" "k = concat ds" by (auto simp: stretch_def)
    have sc: "list_all scalar ds" using assms(1) set_mono_sublist [OF ds(1)] by (auto simp: list_all_iff)
    with k ds have l: "l = concat (trim_chars ds)" by (simp add: trim_concat)
    then have "trim_chars ds \<noteq> []" using k(3) by auto
    note inked_trim_chars [OF this]
    moreover have sub: "sublist (trim_chars ds) cs"
      using sublist_trim_chars ds(1) sublist_order.order_trans by blast
    moreover have "set (trim_chars ds) \<subseteq> set ds" by (rule set_mono_sublist [OF sublist_trim_chars])
    ultimately have "clean_line (trim_chars ds)"
      using settled_sublist [OF assms(2) sub] set_mono_sublist [OF sub] assms(3,4) sc ds(2)
      by (auto simp: clean_line_def list_all_iff)
    with l show ?thesis by blast
  qed
  have all: "\<exists>dss. list_all clean_line dss \<and> ls = map concat dss"
    if "\<forall>l \<in> set ls. \<exists>ds. clean_line ds \<and> l = concat ds" for ls
    using that
  proof (induction ls)
    case (Cons l ls)
    then obtain ds dss where "clean_line ds" "l = concat ds" "list_all clean_line dss" "ls = map concat dss" by auto
    then show ?case by (intro exI [of _ "ds # dss"]) simp
  qed simp
  define ls where "ls = filter (\<lambda>line. line \<noteq> []) (map trim (str_lines (concat cs)))"
  obtain dss where "list_all clean_line dss" "ls = map concat dss"
    using all [OF ballI [OF line]] unfolding ls_def by blast
  then show ?thesis unfolding clean_text_def ls_def [symmetric] by (intro exI [of _ dss]) simp
qed

text \<open>What the loop keeps are characters of the page, without the brackets.\<close>

definition kept_ok :: "strip_state \<Rightarrow> bool" where
  "kept_ok s \<longleftrightarrow> list_all (\<lambda>c. scalar c \<and> c \<noteq> ''<'' \<and> c \<noteq> ''>'') (st_result s)"

lemma enter_tag_result:
  "st_result (enter_tag tag s) = st_result s \<or> st_result (enter_tag tag s) = st_result s @ [newline]"
  by (auto simp: enter_tag_def Let_def)

lemma kept_ok_enter: "kept_ok s \<Longrightarrow> kept_ok (enter_tag tag s)"
  using enter_tag_result [of tag s] scalar_singleton [of "CHR 0x0A"] by (auto simp: kept_ok_def newline_def in_range_def)

lemma kept_ok_loop: "list_all scalar cs \<Longrightarrow> kept_ok s \<Longrightarrow> kept_ok (strip_loop cs s)"
proof (induction cs arbitrary: s)
  case (Cons c cs)
  have "kept_ok (s\<lparr>st_in_tag := False\<rparr>)" "c \<noteq> ''<'' \<Longrightarrow> c \<noteq> ''>'' \<Longrightarrow> kept_ok (s\<lparr>st_result := st_result s @ [c]\<rparr>)"
    using Cons.prems by (auto simp: kept_ok_def)
  with Cons kept_ok_enter [of s] show ?case by simp
qed simp

lemma strip_html_clean: "clean_text (strip_html html)"
proof -
  let ?r = "st_result (strip_loop (chars html) strip_initial)"
  have "kept_ok strip_initial" by (simp add: kept_ok_def strip_initial_def)
  then have k: "list_all (\<lambda>c. scalar c \<and> c \<noteq> ''<'' \<and> c \<noteq> ''>'') ?r"
    using kept_ok_loop [OF scalars_chars] by (simp add: kept_ok_def)
  have "c = '' '' \<or> c \<in> set ?r" if "c \<in> set (collapse False ?r)" for c
    using set_collapse that by fastforce
  moreover have "scalar '' ''" using scalar_singleton [of "CHR '' ''"] by (simp add: in_range_def)
  ultimately have "list_all (\<lambda>c. scalar c \<and> c \<noteq> ''<'' \<and> c \<noteq> ''>'') (collapse False ?r)"
    using k by (auto simp: list_all_iff)
  then show ?thesis
    unfolding strip_html_def by (intro reduced_clean settled_collapse) (auto simp: list_all_iff)
qed

text \<open>Reducing a clean text changes nothing.\<close>

fun join_chars :: "string list list \<Rightarrow> string list" where
  "join_chars [] = []"
| "join_chars [ds] = ds"
| "join_chars (ds # dss) = ds @ newline # join_chars dss"

lemma concat_join_chars: "concat (join_chars dss) = join_with newline (map concat dss)"
  by (induction dss rule: join_chars.induct) auto

lemma newline_scalar: "scalar newline" "newline \<noteq> ''<''" "newline \<noteq> ''>''"
  using scalar_singleton [of "CHR 0x0A"] by (auto simp: newline_def in_range_def)

lemma join_chars_clean:
  "list_all clean_line dss \<Longrightarrow>
     list_all scalar (join_chars dss) \<and> settled False (join_chars dss) \<and> ''<'' \<notin> set (join_chars dss) \<and> ''>'' \<notin> set (join_chars dss)"
  using newline_scalar
  by (induction dss rule: join_chars.induct) (auto simp: clean_line_def settled_join)

lemma strip_loop_plain:
  "''<'' \<notin> set cs \<Longrightarrow> ''>'' \<notin> set cs \<Longrightarrow> \<not> st_in_tag s \<Longrightarrow> \<not> st_in_script s \<Longrightarrow> \<not> st_in_style s \<Longrightarrow>
     st_result (strip_loop cs s) = st_result s @ cs"
  by (induction cs arbitrary: s) auto

lemma line_pieces_joined:
  "list_all (\<lambda>l. l \<noteq> [] \<and> CHR 0x0A \<notin> set l) ls \<Longrightarrow> map fst (line_pieces (join_with newline ls)) = ls"
proof (induction ls rule: induct_list012)
  case (2 l)
  then show ?case using line_pieces_block [of l "[]"] by simp
next
  case (3 l k ls)
  then show ?case
    using line_pieces_block [of l "newline @ join_with newline (k # ls)"] by (simp add: newline_def)
qed simp

lemma str_lines_joined:
  assumes "list_all (\<lambda>l. l \<noteq> [] \<and> CHR 0x0A \<notin> set l \<and> CHR 0x0D \<notin> set l) ls"
  shows "str_lines (join_with newline ls) = ls"
proof -
  have m: "map fst (line_pieces (join_with newline ls)) = ls"
    using assms by (intro line_pieces_joined) (auto simp: list_all_iff)
  have "strip_cr e = fst e" if "e \<in> set (line_pieces (join_with newline ls))" for e
  proof -
    have "fst e \<in> set ls" using that m by (metis image_eqI set_map)
    with assms have "CHR 0x0D \<notin> set (fst e)" by (auto simp: list_all_iff)
    then have "fst e \<noteq> [] \<Longrightarrow> last (fst e) \<noteq> CHR 0x0D" using last_in_set by metis
    then show ?thesis by (auto simp: strip_cr_def split: prod.splits)
  qed
  then have "map strip_cr (line_pieces (join_with newline ls)) = map fst (line_pieces (join_with newline ls))"
    by (intro map_cong) auto
  with m show ?thesis by (simp add: str_lines_def)
qed

lemma clean_line_bytes:
  assumes "clean_line ds"
  shows "concat ds \<noteq> []" "CHR 0x0A \<notin> set (concat ds)" "CHR 0x0D \<notin> set (concat ds)" "trim (concat ds) = concat ds"
proof -
  have sc: "list_all scalar ds" and i: "inked ds" and n: "newline \<notin> set ds"
    and b: "list_all (\<lambda>c. is_whitespace c \<longrightarrow> c = '' '' \<or> c = newline) ds"
    using assms settled_blanks by (auto simp: clean_line_def)
  show "concat ds \<noteq> []" using sc i scalar_nonempty by (cases ds) (auto simp: inked_def)
  have only: "[x] \<in> set ds" if "x \<in> set (concat ds)" "in_range 0 127 x" for x
    using that sc scalar_ascii by (fastforce simp: list_all_iff)
  show "CHR 0x0A \<notin> set (concat ds)" using only [of "CHR 0x0A"] n by (auto simp: newline_def in_range_def)
  show "CHR 0x0D \<notin> set (concat ds)"
  proof
    assume "CHR 0x0D \<in> set (concat ds)"
    with only [of "CHR 0x0D"] have "[CHR 0x0D] \<in> set ds" by (simp add: in_range_def)
    moreover have "is_whitespace [CHR 0x0D]" by (simp add: is_whitespace_def)
    ultimately show False using b by (auto simp: list_all_iff newline_def)
  qed
  show "trim (concat ds) = concat ds" using sc i by (simp add: trim_concat trim_chars_inked)
qed

lemma strip_html_clean_id:
  assumes "clean_text t"
  shows "strip_html t = t"
proof -
  obtain dss where dss: "list_all clean_line dss" and t: "t = join_with newline (map concat dss)"
    using assms by (auto simp: clean_text_def)
  note j = join_chars_clean [OF dss]
  have "chars t = join_chars dss" using chars_concat j by (simp add: t flip: concat_join_chars)
  moreover have "st_result (strip_loop (join_chars dss) strip_initial) = join_chars dss"
    using j strip_loop_plain [of "join_chars dss" strip_initial] by (simp add: strip_initial_def)
  ultimately have "strip_html t =
      join_with newline (filter (\<lambda>line. line \<noteq> []) (map trim (str_lines (join_with newline (map concat dss)))))"
    using collapse_settled j by (simp add: strip_html_def concat_join_chars)
  moreover have "str_lines (join_with newline (map concat dss)) = map concat dss"
    using dss clean_line_bytes by (intro str_lines_joined) (auto simp: list_all_iff)
  moreover have "map trim (map concat dss) = map concat dss"
    using dss clean_line_bytes(4) by (auto simp: list_all_iff)
  moreover have "filter (\<lambda>line. line \<noteq> []) (map concat dss) = map concat dss"
    using dss clean_line_bytes(1) by (auto simp: list_all_iff filter_id_conv)
  ultimately show ?thesis by (simp add: t del: map_map)
qed


text \<open>
  (C35) What the model reads of a page. The text is made of lines that start and end in ink, without
  empty ones, without angle brackets, without white space other than single blanks and the line feeds
  between the lines; and reducing it again changes nothing.
\<close>

theorem strip_html_normal_form:
  "clean_text (strip_html html) \<and> strip_html (strip_html html) = strip_html html"
  using strip_html_clean strip_html_clean_id by blast

text \<open>A script is dropped as a whole when its tag is written plainly; a line break after the name defeats the test.\<close>

lemma strip_loop_in_script:
  "''<'' \<notin> set body \<Longrightarrow> st_in_script s \<Longrightarrow> \<exists>b. strip_loop (body @ rest) s = strip_loop rest (s\<lparr>st_in_tag := b\<rparr>)"
proof (induction body arbitrary: s)
  case Nil
  show ?case by (intro exI [of _ "st_in_tag s"]) simp
next
  case (Cons c body)
  then show ?case
    using Cons.IH [of "s\<lparr>st_in_tag := False\<rparr>"] Cons.IH [of s] by auto
qed

lemma enter_tag_in_tag: "enter_tag tag (s\<lparr>st_in_tag := b\<rparr>) = enter_tag tag s"
  by (auto simp: enter_tag_def Let_def)

lemma script_body_dropped:
  assumes "''<'' \<notin> set body" and "st_in_script s"
  shows "strip_loop (body @ ''<'' # rest) s = strip_loop (''<'' # rest) s"
  using strip_loop_in_script [OF assms, of "''<'' # rest"] by (auto simp: enter_tag_in_tag)

lemma script_with_line_break_shown:
  "strip_html (''<script'' @ newline @ ''async>var x</script>'') = ''var x''"
  by code_simp


section \<open>The cache\<close>

text \<open>Every entry is the reduced text of a body that was served for its address, with the instant at which the text was ready.\<close>

definition cache_served :: "web_env \<Rightarrow> fetch_cache \<Rightarrow> bool" where
  "cache_served env cache \<longleftrightarrow>
     (\<forall>url content t. cache url = Some (content, t) \<longrightarrow>
        (\<exists>now body served. fetch_url_text env url now = (Inr body, served) \<and> content = web_text body \<and>
           t = we_reduced env body served))"

lemma webfetch_entry:
  "snd (webfetch_invoke env cache now arguments) = Some (url, content, t) \<Longrightarrow>
     \<exists>u body served. json_str arguments ''url'' = Some u \<and> url = normalize_fetch_url (we_parse env) u \<and>
       fetch_url_text env url now = (Inr body, served) \<and> content = web_text body \<and> t = we_reduced env body served"
  by (auto simp: webfetch_invoke_def Let_def split: option.splits prod.splits sum.splits)

interpretation web: step_invariant "\<lambda>c. c = Map.empty" "web_cache_step env" "cache_served env"
  for env
proof unfold_locales
  show "cache_served env c" if "c = Map.empty" for c using that by (simp add: cache_served_def)
  fix c d assume "cache_served env c" and step: "web_cache_step env c d"
  from step show "cache_served env d"
  proof (cases rule: web_cache_step.cases)
    case (insert earlier now arguments)
    show ?thesis
    proof (cases "snd (webfetch_invoke env earlier now arguments)")
      case None
      with insert \<open>cache_served env c\<close> show ?thesis by (simp add: cache_insert_def)
    next
      case (Some entry)
      obtain url content t where e: "entry = (url, content, t)" by (cases entry)
      with Some webfetch_entry [of env earlier now arguments url content t]
      have "\<exists>body served. fetch_url_text env url now = (Inr body, served) \<and> content = web_text body \<and>
          t = we_reduced env body served" by auto
      with insert Some e \<open>cache_served env c\<close> show ?thesis
        by (auto simp: cache_insert_def cache_served_def split: if_splits)
    qed
  qed
qed

text \<open>
  (C34) What an invocation returns. Whatever other invocations do to the cache in between, a result is either the reduced
  text of the body just served for the upgraded address, or, marked as cached, the reduced text of a body that
  was served for exactly the address given, the text being ready less than fifteen minutes before; nothing else is returned, a missing address
  or a failed request is an error, and an entry is written only for a body just served.
\<close>

theorem webfetch_outcome:
  assumes "web_cache_reach env cache"
  shows "case webfetch_invoke env cache now arguments of
      (Inl e, entry) \<Rightarrow> entry = None \<and>
        (json_str arguments ''url'' = None \<or>
         (\<exists>url t. json_str arguments ''url'' = Some url \<and>
            fetch_url_text env (normalize_fetch_url (we_parse env) url) now = (Inl e, t)))
    | (Inr v, entry) \<Rightarrow> (\<exists>url body t. json_str arguments ''url'' = Some url \<and>
        (let served = normalize_fetch_url (we_parse env) url in
         fetch_url_text env served now = (Inr body, t) \<and> v = JString (web_text body) \<and> entry = Some (served, web_text body, we_reduced env body t) \<or>
         (\<exists>start. fetch_url_text env url start = (Inr body, t)) \<and> now - we_reduced env body t < from_secs 900 \<and>
           v = JString (cached_marker @ web_text body) \<and> entry = None))"
proof (cases "json_str arguments ''url''")
  case None
  then show ?thesis by (simp add: webfetch_invoke_def)
next
  case (Some url)
  show ?thesis
  proof (cases "lookup_cache cache url now")
    case None
    with Some show ?thesis
      by (simp add: webfetch_invoke_def Let_def split: prod.split sum.split)
  next
    case hit: (Some shown)
    then obtain content t where c: "cache url = Some (content, t)" "now - t < from_secs 900" "shown = cached_marker @ content"
      by (auto simp: lookup_cache_def CACHE_SECONDS_def split: option.splits if_splits)
    with web.reach_inv [OF assms] obtain start body served where
      "fetch_url_text env url start = (Inr body, served)" "content = web_text body" "t = we_reduced env body served"
      unfolding cache_served_def by blast
    with Some hit c show ?thesis by (auto simp: webfetch_invoke_def Let_def)
  qed
qed

definition demo_web :: web_env where
  "demo_web =
     \<lparr>we_parse = (\<lambda>u. if prefix ''http://'' u then Some \<lparr>pu_scheme = ''http'', pu_host = Some ''e.org''\<rparr> else None),
      we_get = (\<lambda>_ now. (Responded True ''200 OK'' (Inr ''<p>a <b>b</b></p>''), now + 1)),
      we_reduced = (\<lambda>_ t. t + 1)\<rparr>"

definition demo_fetch :: "string \<Rightarrow> json" where
  "demo_fetch url = JObject [(''url'', JString url)]"

definition demo_cache :: fetch_cache where
  "demo_cache = cache_insert (snd (webfetch_invoke demo_web Map.empty 0 (demo_fetch ''https://e.org''))) Map.empty"

lemma demo_cache_reach: "web_cache_reach demo_web demo_cache"
  unfolding demo_cache_def by (rule reach_step, rule reach_start) (auto intro: insert)

lemma web_text_demo: "web_text ''<p>a <b>b</b></p>'' = ''a b''"
proof -
  have "chars (strip_html ''<p>a <b>b</b></p>'') = [''a'', '' '', ''b'']" by code_simp
  then show ?thesis by (simp add: web_text_def MAX_CHARS_def)
qed

lemma demo_cache_hit: "webfetch_invoke demo_web demo_cache 5 (demo_fetch ''https://e.org'') = (Inr (JString (cached_marker @ ''a b'')), None)"
  by (simp add: demo_cache_def webfetch_invoke_def demo_fetch_def json_str_def demo_web_def lookup_cache_def cache_insert_def
      normalize_fetch_url_def fetch_url_text_def web_text_demo from_secs_def CACHE_SECONDS_def Let_def)

theorem webfetch_outcome_witness:
  "\<exists>body t. fetch_url_text demo_web ''https://e.org'' 0 = (Inr body, t) \<and> ''a b'' = web_text body"
  using webfetch_outcome [OF demo_cache_reach, where now = 5 and arguments = "demo_fetch ''https://e.org''"] demo_cache_hit
  by (auto simp: demo_fetch_def json_str_def fetch_url_text_def demo_web_def Let_def web_text_demo)

text \<open>An address that is upgraded never finds its own entry: it is looked up as given and stored as upgraded.\<close>

lemma upgraded_address_not_cached:
  assumes "web_cache_reach env cache" and "\<And>u. normalize_fetch_url (we_parse env) u \<noteq> url"
  shows "lookup_cache cache url now = None"
proof -
  have "cache url = None"
    using assms(1)
  proof (induction rule: reach.induct)
    case (reach_step c d)
    then obtain earlier now arguments where d: "d = cache_insert (snd (webfetch_invoke env earlier now arguments)) c"
      by (auto elim: web_cache_step.cases)
    show ?case
    proof (cases "snd (webfetch_invoke env earlier now arguments)")
      case (Some entry)
      obtain u content t where "entry = (u, content, t)" by (cases entry)
      with Some webfetch_entry [of env earlier now arguments u content t] assms(2) have "u \<noteq> url" by auto
      with Some \<open>entry = _\<close> reach_step show ?thesis by (simp add: d cache_insert_def)
    qed (use reach_step in \<open>simp add: d cache_insert_def\<close>)
  qed simp
  then show ?thesis by (simp add: lookup_cache_def)
qed

text \<open>The host of an IPv6 address is written in brackets, so the loopback address of version 6 is not recognised.\<close>

lemma ipv6_loopback_upgraded:
  "normalize_fetch_url (\<lambda>_. Some \<lparr>pu_scheme = ''http'', pu_host = Some ''[::1]''\<rparr>) ''http://[::1]/x'' = ''https://[::1]/x''"
  by code_simp

text \<open>Schemes are parsed in lower case but replaced as written: an upper-case one is not upgraded.\<close>

lemma upper_case_scheme_not_upgraded:
  "normalize_fetch_url (\<lambda>_. Some \<lparr>pu_scheme = ''http'', pu_host = Some ''e.org''\<rparr>) ''HTTP://e.org/?u=http://x'' =
     ''HTTP://e.org/?u=https://x''"
  by code_simp

end
