(* ===== verification/SearchTools.thy ===== *)
theory SearchTools
  imports FileTools
begin

text \<open>
  The \<^verbatim>\<open>Glob\<close> and \<^verbatim>\<open>Grep\<close> tools (\<^verbatim>\<open>executor-tools/src/glob.rs\<close>, \<^verbatim>\<open>grep.rs\<close>). The \<^verbatim>\<open>glob\<close> crate is a parameter: for a
  pattern it yields an error or the entries of its iterator, each a path or an error. The file system is that of the
  theory \<open>FileShared\<close>, with \<^verbatim>\<open>Path::is_file\<close> beside it.
\<close>

section \<open>Patterns\<close>

record ('w, 'p) search_os = "('w, 'p) os" +
  so_glob :: "string \<Rightarrow> ('w, string, (string + path) list) io"
  so_is_file :: "path \<Rightarrow> 'w \<Rightarrow> bool \<times> 'w"

definition has_meta :: "string \<Rightarrow> bool" where
  "has_meta s \<longleftrightarrow> CHR ''*'' \<in> set s \<or> CHR ''?'' \<in> set s \<or> CHR ''['' \<in> set s"

definition absolute_glob_anchor :: "string \<Rightarrow> path" where
  "absolute_glob_anchor pattern = takeWhile (\<lambda>c. \<not> has_meta (component_text c)) (path_components pattern)"

text \<open>\<^verbatim>\<open>PathBuf::join\<close> of a relative text, which keeps the text as it is.\<close>

definition join_text :: "path \<Rightarrow> string \<Rightarrow> string" where
  "join_text cwd pattern =
     (let base = path_display cwd in
      if base = [] \<or> last base = CHR ''/'' then base @ pattern else base @ ''/'' @ pattern)"

definition max_results_of :: "json \<Rightarrow> nat" where
  "max_results_of arguments = (case json_u64 arguments ''max_results'' of None \<Rightarrow> 200 | Some n \<Rightarrow> unat n)"

definition full_pattern ::
  "('w, 'p, 'x) os_scheme \<Rightarrow> path \<Rightarrow> string \<Rightarrow> ('w session, execution_error, string) io"
where
  "full_pattern os cwd pattern =
     (if is_absolute (path_components pattern) then
        (\<lambda>s. case canonicalize_within_cwd os cwd (absolute_glob_anchor pattern) s of
           (Inl _, s') \<Rightarrow> (Inl (execution_error_of (''absolute glob pattern must stay under cwd: '' @ pattern)), s')
         | (Inr _, s') \<Rightarrow> (Inr pattern, s'))
      else retI (utf8_lossy (join_text cwd pattern)))"

text \<open>A call whose failure the caller skips over.\<close>

definition attempt :: "('s, 'e, 'a) io \<Rightarrow> ('s, 'f, 'a option) io" where
  "attempt m s = (case m s of (Inl _, s') \<Rightarrow> (Inr None, s') | (Inr a, s') \<Rightarrow> (Inr (Some a), s'))"

definition look :: "('w \<Rightarrow> 'a \<times> 'w) \<Rightarrow> ('w session, 'e, 'a) io" where
  "look m s = (case m (ss_world s) of (a, w) \<Rightarrow> (Inr a, s\<lparr>ss_world := w\<rparr>))"


section \<open>Glob\<close>

fun glob_loop ::
  "('w, 'p, 'x) search_os_scheme \<Rightarrow> path \<Rightarrow> nat \<Rightarrow> (string + path) list \<Rightarrow> string list \<Rightarrow>
     ('w session, execution_error, string list) io"
where
  "glob_loop os cwd max_results [] matches = retI matches"
| "glob_loop os cwd max_results (entry # entries) matches =
     (if max_results \<le> length matches then retI matches
      else case entry of
             Inl _ \<Rightarrow> glob_loop os cwd max_results entries matches
           | Inr p \<Rightarrow>
               bindI (attempt (canonicalize_within_cwd os cwd p)) (\<lambda>canonical.
                 if canonical = None then glob_loop os cwd max_results entries matches
                 else glob_loop os cwd max_results entries (matches @ [display_relative cwd p])))"

definition glob_invoke ::
  "('w, 'p, 'x) search_os_scheme \<Rightarrow> json \<Rightarrow> tool_context \<Rightarrow> ('w session, execution_error, json) io"
where
  "glob_invoke os arguments ctx =
     bindI (liftE (required_string arguments ''pattern'')) (\<lambda>pattern.
     bindI (full_pattern os (tc_cwd ctx) pattern) (\<lambda>full.
     bindI (look (so_glob os full)) (\<lambda>found.
     bindI (liftE (map_err (ToolValidation ''Glob'') found)) (\<lambda>entries.
     bindI (glob_loop os (tc_cwd ctx) (max_results_of arguments) entries []) (\<lambda>matches.
       retI (json_object [(''matches'', JArray (map JString matches))]))))))"

definition search_invocation_detail :: "json \<Rightarrow> string" where
  "search_invocation_detail arguments =
     (case required_string arguments ''pattern'' of Inl _ \<Rightarrow> [] | Inr pattern \<Rightarrow> pattern)"

definition search_validate :: "json \<Rightarrow> execution_error + unit" where
  "search_validate arguments = bindE (required_string arguments ''pattern'') (\<lambda>_. Inr ())"


section \<open>Grep\<close>

record grep_match =
  gm_path :: string
  gm_line :: nat
  gm_text :: string

definition match_json :: "grep_match \<Rightarrow> json" where
  "match_json m =
     json_object [(''path'', JString (gm_path m)), (''line'', json_usize (gm_line m)), (''text'', JString (gm_text m))]"

text \<open>The lines of one file, from the line with index \<open>idx\<close> on.\<close>

fun grep_lines :: "string \<Rightarrow> string \<Rightarrow> nat \<Rightarrow> nat \<Rightarrow> string list \<Rightarrow> grep_match list \<Rightarrow> grep_match list" where
  "grep_lines pattern shown max_results idx [] results = results"
| "grep_lines pattern shown max_results idx (line # lines) results =
     (if sublist pattern line then
        let results = results @ [\<lparr>gm_path = shown, gm_line = idx + 1, gm_text = line\<rparr>] in
        if max_results \<le> length results then results
        else grep_lines pattern shown max_results (idx + 1) lines results
      else grep_lines pattern shown max_results (idx + 1) lines results)"

fun grep_loop ::
  "('w, 'p, 'x) search_os_scheme \<Rightarrow> nat \<Rightarrow> path \<Rightarrow> string \<Rightarrow> nat \<Rightarrow> (string + path) list \<Rightarrow> grep_match list \<Rightarrow>
     ('w session, execution_error, grep_match list) io"
where
  "grep_loop os budget cwd pattern max_results [] results = retI results"
| "grep_loop os budget cwd pattern max_results (entry # entries) results =
     (if max_results \<le> length results then retI results
      else case entry of
             Inl _ \<Rightarrow> grep_loop os budget cwd pattern max_results entries results
           | Inr p \<Rightarrow>
               bindI (look (so_is_file os p)) (\<lambda>is_file.
               if \<not> is_file then grep_loop os budget cwd pattern max_results entries results
               else
               bindI (attempt (canonicalize_within_cwd os cwd p)) (\<lambda>canonical.
               case canonical of
                 None \<Rightarrow> grep_loop os budget cwd pattern max_results entries results
               | Some canonical_path \<Rightarrow>
                   bindI (try_sys (os_metadata os canonical_path)) (\<lambda>metadata.
                   if (case metadata of Inl _ \<Rightarrow> False | Inr md \<Rightarrow> budget < md_len md)
                   then grep_loop os budget cwd pattern max_results entries results
                   else
                   bindI (try_sys (os_read_to_string os canonical_path)) (\<lambda>content.
                   case content of
                     Inl _ \<Rightarrow> grep_loop os budget cwd pattern max_results entries results
                   | Inr c \<Rightarrow>
                       grep_loop os budget cwd pattern max_results entries
                         (grep_lines pattern (display_relative cwd p) max_results 0 (str_lines c) results))))))"

definition grep_invoke ::
  "('w, 'p, 'x) search_os_scheme \<Rightarrow> nat \<Rightarrow> json \<Rightarrow> tool_context \<Rightarrow> ('w session, execution_error, json) io"
where
  "grep_invoke os budget arguments ctx =
     bindI (liftE (required_string arguments ''pattern'')) (\<lambda>pattern.
     let file_glob = (case json_str arguments ''glob'' of None \<Rightarrow> ''**/*'' | Some g \<Rightarrow> g) in
     bindI (full_pattern os (tc_cwd ctx) file_glob) (\<lambda>full.
     bindI (look (so_glob os full)) (\<lambda>found.
     bindI (liftE (map_err (ToolValidation ''Grep'') found)) (\<lambda>entries.
     bindI (grep_loop os budget (tc_cwd ctx) pattern (max_results_of arguments) entries []) (\<lambda>results.
       retI (json_object [(''matches'', JArray (map match_json results))]))))))"


section \<open>What the loops compute\<close>

text \<open>A file system that nobody changes while it is looked at: it stays as it is.\<close>

definition quiet :: "('w, 'p, 'x) search_os_scheme \<Rightarrow> 'w \<Rightarrow> bool" where
  "quiet os w \<longleftrightarrow> (\<forall>p. snd (os_canonicalize os p w) = w \<and> snd (os_metadata os p w) = w \<and> snd (os_read os p w) = w \<and>
     snd (so_is_file os p w) = w)"

definition leaves :: "'s \<Rightarrow> ('s, 'e, 'a) io \<Rightarrow> bool" where
  "leaves s m \<longleftrightarrow> snd (m s) = s"

lemma keeps_leaves: "keeps (\<lambda>s. s = s0) m Q \<Longrightarrow> leaves s0 m"
  by (cases "m s0") (auto simp: keeps_def leaves_def)

lemma leaves_eq: "leaves s m \<Longrightarrow> m s = (fst (m s), s)"
  by (cases "m s") (simp add: leaves_def)

lemma keeps_still [keeps_rules]:
  "snd (m (ss_world s0)) = ss_world s0 \<Longrightarrow> keeps (\<lambda>s. s = s0) (sys f m) (\<lambda>_. True)"
  "snd (m (ss_world s0)) = ss_world s0 \<Longrightarrow> keeps (\<lambda>s. s = s0) (try_sys m) (\<lambda>_. True)"
  by (auto simp: keeps_def sys_def try_sys_def split: prod.splits)

lemma keeps_canonicalize_still:
  assumes "quiet os (ss_world s)"
  shows "keeps (\<lambda>t. t = s) (canonicalize_within_cwd os cwd p)
    (\<lambda>q. \<exists>ccwd. fst (os_canonicalize os cwd (ss_world s)) = Inr ccwd \<and> prefix ccwd q)"
  unfolding canonicalize_within_cwd_def
proof (rule keeps_bind [where P = "\<lambda>ccwd. fst (os_canonicalize os cwd (ss_world s)) = Inr ccwd"])
  have q: "snd (os_canonicalize os x (ss_world s)) = ss_world s" "snd (os_metadata os x (ss_world s)) = ss_world s" for x
    using assms by (auto simp: quiet_def)
  show "keeps (\<lambda>t. t = s) (sys f (os_canonicalize os cwd)) (\<lambda>ccwd. fst (os_canonicalize os cwd (ss_world s)) = Inr ccwd)" for f
    using q(1) [of cwd] by (auto simp: keeps_def sys_def result_simps split: prod.splits)
  fix ccwd assume c: "fst (os_canonicalize os cwd (ss_world s)) = Inr ccwd"
  have check: "keeps (\<lambda>t. t = s) (liftE (check_cwd_prefix x ccwd p))
      (\<lambda>q. \<exists>ccwd. fst (os_canonicalize os cwd (ss_world s)) = Inr ccwd \<and> prefix ccwd q)" for x
    using c by (intro keeps_base(3)) (auto simp: check_cwd_prefix_Inr path_starts_with_def)
  show "keeps (\<lambda>t. t = s)
      (bindI (try_sys (os_canonicalize os p)) (\<lambda>r. case r of
         Inl _ \<Rightarrow> bindI (walk_up os cwd p []) (\<lambda>(existing_ancestor, rest).
           bindI (sys g (os_canonicalize os existing_ancestor)) (\<lambda>canonical_ancestor.
             let canonical_path = (if rest = [] then canonical_ancestor
                                   else path_join canonical_ancestor rest) in
             liftE (check_cwd_prefix canonical_path ccwd p)))
       | Inr canonical_path \<Rightarrow> liftE (check_cwd_prefix canonical_path ccwd p)))
      (\<lambda>q. \<exists>ccwd. fst (os_canonicalize os cwd (ss_world s)) = Inr ccwd \<and> prefix ccwd q)" for g
    using q by (auto simp: Let_def split: sum.split prod.split intro!: keeps_bind_any keeps_still keeps_walk_up check)
qed

lemma canonicalize_leaves: "quiet os (ss_world s) \<Longrightarrow> leaves s (canonicalize_within_cwd os cwd p)"
  by (rule keeps_leaves [OF keeps_canonicalize_still])

text \<open>The files a search accepts, in a quiet state.\<close>

definition accepted :: "('w, 'p, 'x) search_os_scheme \<Rightarrow> path \<Rightarrow> 'w session \<Rightarrow> path \<Rightarrow> path option" where
  "accepted os cwd s p = (case fst (canonicalize_within_cwd os cwd p s) of Inl _ \<Rightarrow> None | Inr q \<Rightarrow> Some q)"

definition entry_paths :: "(string + path) list \<Rightarrow> path list" where
  "entry_paths entries = concat (map (case_sum (\<lambda>_. []) (\<lambda>p. [p])) entries)"

lemma entry_paths_simps [simp]:
  "entry_paths [] = []" "entry_paths (Inl e # es) = entry_paths es" "entry_paths (Inr p # es) = p # entry_paths es"
  by (simp_all add: entry_paths_def)

lemma attempt_accepted:
  "quiet os (ss_world s) \<Longrightarrow> attempt (canonicalize_within_cwd os cwd p) s = (Inr (accepted os cwd s p), s)"
  using leaves_eq [OF canonicalize_leaves, of os s cwd p]
  by (cases "fst (canonicalize_within_cwd os cwd p s)") (auto simp: attempt_def accepted_def split: prod.splits)

lemma glob_loop_spec:
  assumes "quiet os (ss_world s)" and "length matches \<le> n"
  shows "glob_loop os cwd n entries matches s =
    (Inr (take n (matches @ map (display_relative cwd) (filter (\<lambda>p. accepted os cwd s p \<noteq> None) (entry_paths entries)))), s)"
  using assms(2)
proof (induction entries arbitrary: matches)
  case Nil
  then show ?case by (simp add: retI_def)
next
  case (Cons entry entries)
  then show ?case
    by (cases entry) (auto simp: retI_def bindI_def attempt_accepted [OF assms(1)] take_Cons')
qed

text \<open>The matching lines of a file, and of one entry.\<close>

definition line_hits :: "string \<Rightarrow> string \<Rightarrow> nat \<Rightarrow> string list \<Rightarrow> grep_match list" where
  "line_hits pattern shown idx lines =
     map (\<lambda>(i, line). \<lparr>gm_path = shown, gm_line = i + 1, gm_text = line\<rparr>)
       (filter (\<lambda>(i, line). sublist pattern line) (enumerate idx lines))"

lemma line_hits_simps [simp]:
  "line_hits pattern shown idx [] = []"
  "line_hits pattern shown idx (l # ls) =
     (if sublist pattern l then [\<lparr>gm_path = shown, gm_line = idx + 1, gm_text = l\<rparr>] else []) @ line_hits pattern shown (Suc idx) ls"
  by (simp_all add: line_hits_def)

lemma grep_lines_spec:
  "length results < n \<Longrightarrow> grep_lines pattern shown n idx lines results = take n (results @ line_hits pattern shown idx lines)"
  by (induction pattern shown n idx lines results rule: grep_lines.induct) (auto simp: Let_def take_Cons')

definition file_hits :: "('w, 'p, 'x) search_os_scheme \<Rightarrow> nat \<Rightarrow> path \<Rightarrow> string \<Rightarrow> 'w session \<Rightarrow> path \<Rightarrow> grep_match list" where
  "file_hits os budget cwd pattern s p =
     (if \<not> fst (so_is_file os p (ss_world s)) then []
      else case accepted os cwd s p of
             None \<Rightarrow> []
           | Some q \<Rightarrow>
               if (case fst (os_metadata os q (ss_world s)) of Inl _ \<Rightarrow> False | Inr md \<Rightarrow> budget < md_len md) then []
               else (case fst (os_read os q (ss_world s)) of
                       Inl _ \<Rightarrow> []
                     | Inr c \<Rightarrow> if valid_utf8 c then line_hits pattern (display_relative cwd p) 0 (str_lines c) else []))"

lemma quiet_calls:
  assumes "quiet os (ss_world s)"
  shows "look (so_is_file os p) s = (Inr (fst (so_is_file os p (ss_world s))), s)"
    and "try_sys (os_metadata os p) s = (Inr (fst (os_metadata os p (ss_world s))), s)"
    and "try_sys (os_read_to_string os p) s =
      (Inr (case fst (os_read os p (ss_world s)) of
         Inl e \<Rightarrow> Inl e
       | Inr c \<Rightarrow> if valid_utf8 c then Inr c
                 else Inl \<lparr>fe_not_found = False, fe_text = ''stream did not contain valid UTF-8''\<rparr>), s)"
proof -
  have "snd (so_is_file os p (ss_world s)) = ss_world s" "snd (os_metadata os p (ss_world s)) = ss_world s"
    "snd (os_read os p (ss_world s)) = ss_world s" using assms by (auto simp: quiet_def)
  then show "look (so_is_file os p) s = (Inr (fst (so_is_file os p (ss_world s))), s)"
    "try_sys (os_metadata os p) s = (Inr (fst (os_metadata os p (ss_world s))), s)"
    "try_sys (os_read_to_string os p) s =
      (Inr (case fst (os_read os p (ss_world s)) of
         Inl e \<Rightarrow> Inl e
       | Inr c \<Rightarrow> if valid_utf8 c then Inr c
                 else Inl \<lparr>fe_not_found = False, fe_text = ''stream did not contain valid UTF-8''\<rparr>), s)"
    by (auto simp: look_def try_sys_def os_read_to_string_def bindI_def retI_def failI_def split: prod.splits sum.splits)
qed


lemma grep_loop_spec:
  assumes "quiet os (ss_world s)" and "length results \<le> n"
  shows "grep_loop os budget cwd pattern n entries results s =
    (Inr (take n (results @ concat (map (file_hits os budget cwd pattern s) (entry_paths entries)))), s)"
  using assms(2)
proof (induction entries arbitrary: results)
  case Nil
  then show ?case by (simp add: retI_def)
next
  case (Cons entry entries)
  show ?case
  proof (cases "n \<le> length results")
    case True
    with Cons.prems show ?thesis by (simp add: retI_def)
  next
    case False
    then have lines: "grep_lines pattern shown n 0 ls results = take n (results @ line_hits pattern shown 0 ls)" for shown ls
      by (simp add: grep_lines_spec)
    have step: "grep_loop os budget cwd pattern n entries (take n (results @ hits)) s =
        (Inr (take n (results @ hits @ concat (map (file_hits os budget cwd pattern s) (entry_paths entries)))), s)" for hits
    proof (cases "n \<le> length (results @ hits)")
      case True
      with \<open>\<not> n \<le> length results\<close> show ?thesis
        using Cons.IH [of "take n (results @ hits)"] by (simp add: min_absorb1)
    next
      case False
      then show ?thesis using Cons.IH [of "results @ hits"] by simp
    qed
    show ?thesis
    proof (cases entry)
      case (Inl e)
      with False Cons.IH Cons.prems show ?thesis by simp
    next
      case (Inr p)
      show ?thesis
      proof (cases "accepted os cwd s p")
        case None
        with False Inr step [of "[]"] show ?thesis
          by (simp add: bindI_def quiet_calls [OF assms(1)] attempt_accepted [OF assms(1)] file_hits_def [of _ _ _ _ _ p])
      next
        case (Some q)
        with False Inr step [of "[]"] step [of "line_hits pattern (display_relative cwd p) 0 ls" for ls] show ?thesis
          by (simp add: bindI_def quiet_calls [OF assms(1)] attempt_accepted [OF assms(1)] file_hits_def [of _ _ _ _ _ p] lines
              split: sum.split)
      qed
    qed
  qed
qed

text \<open>Acceptance means a canonical place below the canonical working directory.\<close>

lemma accepted_contained:
  assumes "quiet os (ss_world s)" and "accepted os cwd s p = Some q"
  shows "\<exists>ccwd. fst (os_canonicalize os cwd (ss_world s)) = Inr ccwd \<and> prefix ccwd q"
  using keeps_canonicalize_still [OF assms(1), of cwd p] assms(2)
  by (cases "canonicalize_within_cwd os cwd p s") (auto simp: keeps_def accepted_def split: sum.splits)

text \<open>An absolute pattern is used as given once its anchor is accepted; a relative one is put under the working directory.\<close>

lemma full_pattern_quiet:
  assumes "quiet os (ss_world s)"
  shows "full_pattern os cwd pattern s =
    (if is_absolute (path_components pattern)
     then (if accepted os cwd s (absolute_glob_anchor pattern) = None
           then Inl (execution_error_of (''absolute glob pattern must stay under cwd: '' @ pattern)) else Inr pattern)
     else Inr (utf8_lossy (join_text cwd pattern)), s)"
proof -
  have "canonicalize_within_cwd os cwd (absolute_glob_anchor pattern) s =
      (fst (canonicalize_within_cwd os cwd (absolute_glob_anchor pattern) s), s)"
    by (rule leaves_eq [OF canonicalize_leaves [OF assms]])
  then show ?thesis
    by (cases "fst (canonicalize_within_cwd os cwd (absolute_glob_anchor pattern) s)")
      (auto simp: full_pattern_def accepted_def retI_def split: prod.splits)
qed

text \<open>
  What Glob lists, on a file system nobody changes meanwhile and for a pattern the crate accepts: the first
  \<open>max_results\<close> (200 when not given) of the paths the crate finds whose canonical place lies below the canonical
  working directory, in the order found, shown relative to the working directory; the state of the tools and the
  files are as before.
\<close>

theorem glob_lists:
  assumes "quiet os (ss_world s)" and "required_string arguments ''pattern'' = Inr pattern"
    and "full_pattern os (tc_cwd ctx) pattern s = (Inr full, s)" and "so_glob os full (ss_world s) = (Inr entries, ss_world s)"
  shows "\<exists>ps. glob_invoke os arguments ctx s =
      (Inr (json_object [(''matches'', JArray (map (\<lambda>p. JString (display_relative (tc_cwd ctx) p)) ps))]), s) \<and>
    ps = take (max_results_of arguments) (filter (\<lambda>p. accepted os (tc_cwd ctx) s p \<noteq> None) (entry_paths entries)) \<and>
    list_all (\<lambda>p. \<exists>q ccwd. accepted os (tc_cwd ctx) s p = Some q \<and>
      fst (os_canonicalize os (tc_cwd ctx) (ss_world s)) = Inr ccwd \<and> prefix ccwd q) ps"
proof -
  define ps where "ps = take (max_results_of arguments) (filter (\<lambda>p. accepted os (tc_cwd ctx) s p \<noteq> None) (entry_paths entries))"
  have loop: "glob_loop os (tc_cwd ctx) (max_results_of arguments) entries [] s = (Inr (map (display_relative (tc_cwd ctx)) ps), s)"
    using glob_loop_spec [OF assms(1), of "[]"] by (simp add: ps_def take_map)
  then have "glob_invoke os arguments ctx s =
      (Inr (json_object [(''matches'', JArray (map (\<lambda>p. JString (display_relative (tc_cwd ctx) p)) ps))]), s)"
    by (simp add: glob_invoke_def bindI_def liftE_def assms(2-4) retI_def comp_def look_def)
  moreover have "list_all (\<lambda>p. \<exists>q ccwd. accepted os (tc_cwd ctx) s p = Some q \<and>
      fst (os_canonicalize os (tc_cwd ctx) (ss_world s)) = Inr ccwd \<and> prefix ccwd q) ps"
    using accepted_contained [OF assms(1)] by (fastforce simp: ps_def list_all_iff dest: in_set_takeD)
  ultimately show ?thesis using ps_def by blast
qed

text \<open>
  The specification of Grep for one path, in terms of the file system alone: a file whose canonical path lies below that of the
  working directory, within the budget, with its lines when it is UTF-8.
\<close>

definition grep_file ::
  "('w, 'p, 'x) search_os_scheme \<Rightarrow> nat \<Rightarrow> path \<Rightarrow> string \<Rightarrow> 'w \<Rightarrow> path \<Rightarrow> grep_match list"
where
  "grep_file os budget cwd pattern w p =
     (case (fst (so_is_file os p w), fst (os_canonicalize os cwd w), fst (os_canonicalize os p w)) of
        (True, Inr canonical_cwd, Inr q) \<Rightarrow>
          if prefix canonical_cwd q \<and> (\<forall>md. fst (os_metadata os q w) = Inr md \<longrightarrow> md_len md \<le> budget)
          then (case fst (os_read os q w) of
                  Inr c \<Rightarrow> if valid_utf8 c then line_hits pattern (display_relative cwd p) 0 (str_lines c) else []
                | Inl _ \<Rightarrow> [])
          else []
      | _ \<Rightarrow> [])"

text \<open>A path that exists is accepted exactly when it leads below the working directory.\<close>

lemma accepted_existing:
  assumes "quiet os (ss_world s)" and "fst (os_canonicalize os p (ss_world s)) = Inr q"
  shows "accepted os cwd s p =
    (case fst (os_canonicalize os cwd (ss_world s)) of
       Inl _ \<Rightarrow> None | Inr canonical_cwd \<Rightarrow> if prefix canonical_cwd q then Some q else None)"
proof -
  have still: "os_canonicalize os x (ss_world s) = (fst (os_canonicalize os x (ss_world s)), ss_world s)" for x
    using assms(1) by (metis prod.collapse quiet_def)
  from still [of cwd] still [of p] assms(2) show ?thesis
    by (cases "fst (os_canonicalize os cwd (ss_world s))")
      (auto simp: accepted_def canonicalize_within_cwd_def bindI_def sys_def try_sys_def liftE_def map_err_def
        check_cwd_prefix_def path_starts_with_def split: prod.splits)
qed

lemma file_hits_existing:
  assumes "quiet os (ss_world s)"
    and "fst (so_is_file os p (ss_world s)) \<Longrightarrow> \<exists>q. fst (os_canonicalize os p (ss_world s)) = Inr q"
  shows "file_hits os budget cwd pattern s p = grep_file os budget cwd pattern (ss_world s) p"
proof (cases "fst (so_is_file os p (ss_world s))")
  case False
  then show ?thesis by (simp add: file_hits_def grep_file_def)
next
  case True
  with assms(2) obtain q where q: "fst (os_canonicalize os p (ss_world s)) = Inr q" by blast
  have over: "(case fst (os_metadata os q (ss_world s)) of Inl _ \<Rightarrow> False | Inr md \<Rightarrow> budget < md_len md) \<longleftrightarrow>
      \<not> (\<forall>md. fst (os_metadata os q (ss_world s)) = Inr md \<longrightarrow> md_len md \<le> budget)"
    by (auto simp: not_le split: sum.split)
  show ?thesis
    using True q accepted_existing [OF assms(1) q, of cwd]
    by (cases "fst (os_canonicalize os cwd (ss_world s))")
      (simp_all add: file_hits_def grep_file_def over split: sum.split)
qed

text \<open>
  (C36) What Grep reports, on a file system nobody changes meanwhile, on which a path that is a file can be canonicalised: the
  first \<open>max_results\<close> of the lines that contain the pattern literally, path by path in the order the glob crate yields them for
  the given glob (all files below the working directory when there is none) and line by line, each with the number of the line counted
  from one. A path counts only when it is a file, its canonical path lies below the canonical working
  directory, it is within the size budget and it is UTF-8; others are passed over without an error.
\<close>

theorem grep_reports:
  assumes "quiet os (ss_world s)" and "required_string arguments ''pattern'' = Inr pattern"
    and "full_pattern os (tc_cwd ctx) (case json_str arguments ''glob'' of None \<Rightarrow> ''**/*'' | Some g \<Rightarrow> g) s = (Inr full, s)"
    and "so_glob os full (ss_world s) = (Inr entries, ss_world s)"
    and "\<forall>p \<in> set (entry_paths entries). fst (so_is_file os p (ss_world s)) \<longrightarrow>
      (\<exists>q. fst (os_canonicalize os p (ss_world s)) = Inr q)"
  shows "grep_invoke os budget arguments ctx s =
    (Inr (json_object [(''matches'', JArray (map match_json
       (take (max_results_of arguments)
         (concat (map (grep_file os budget (tc_cwd ctx) pattern (ss_world s)) (entry_paths entries))))))]), s)"
proof -
  have hits: "map (file_hits os budget (tc_cwd ctx) pattern s) (entry_paths entries) =
      map (grep_file os budget (tc_cwd ctx) pattern (ss_world s)) (entry_paths entries)"
    using assms(5) file_hits_existing [OF assms(1)] by simp
  have loop: "grep_loop os budget (tc_cwd ctx) pattern (max_results_of arguments) entries [] s =
      (Inr (take (max_results_of arguments)
        (concat (map (grep_file os budget (tc_cwd ctx) pattern (ss_world s)) (entry_paths entries)))), s)"
    using grep_loop_spec [OF assms(1), of "[]"] by (simp add: hits)
  then show ?thesis
    by (simp add: grep_invoke_def bindI_def liftE_def assms(2-4) retI_def look_def)
qed



section \<open>Concrete searches\<close>

text \<open>A file below the workspace, a broken entry, and a file outside that is not there.\<close>

definition demo_search :: "((path \<times> string) list, unit) search_os" where
  "demo_search = os.extend mem_os
     (search_os.fields (\<lambda>_ w. (Inr [Inr (ws_dir @ [Normal ''a.txt'']), Inl ''broken'', Inr [RootDir, Normal ''etc'']], w))
        (\<lambda>p w. (map_of w p \<noteq> None, w)))"

definition demo_pattern :: json where
  "demo_pattern = JObject [(''pattern'', JString ''one'')]"

lemma demo_search_fields [simp]:
  "os_canonicalize demo_search = os_canonicalize mem_os" "os_metadata demo_search = os_metadata mem_os"
  "os_read demo_search = os_read mem_os" "so_is_file demo_search = (\<lambda>p w. (map_of w p \<noteq> None, w))"
  "so_glob demo_search = (\<lambda>_ w. (Inr [Inr (ws_dir @ [Normal ''a.txt'']), Inl ''broken'', Inr [RootDir, Normal ''etc'']], w))"
  by (simp_all add: demo_search_def os.extend_def search_os.fields_def mem_os_def)

lemma demo_quiet: "quiet demo_search (ss_world ws_session)"
  by (simp add: quiet_def mem_os_def)

lemma demo_required: "required_string demo_pattern ''pattern'' = Inr ''one''"
  by (simp add: required_string_def demo_pattern_def json_str_def)

lemma demo_accepted:
  "accepted demo_search ws_dir ws_session (ws_dir @ [Normal ''a.txt'']) = Some (ws_dir @ [Normal ''a.txt''])"
  by (simp add: accepted_def canonicalize_within_cwd_def mem_defs bindI_def try_sys_def sys_def liftE_def
      check_cwd_prefix_def path_starts_with_def)

lemma relative_pattern:
  "\<not> is_absolute (path_components pattern) \<Longrightarrow> full_pattern os cwd pattern s = (Inr (utf8_lossy (join_text cwd pattern)), s)"
  by (simp add: full_pattern_def retI_def)

lemma relative_demo: "\<not> is_absolute (path_components ''one'')" "\<not> is_absolute (path_components ''**/*'')"
  by (simp_all add: path_components_def inner_components_def segment_component_def is_absolute_def)

lemma demo_max: "max_results_of demo_pattern = 200"
  by (simp add: max_results_of_def demo_pattern_def json_u64_def)

theorem glob_lists_witness:
  "\<exists>ps. ps = take 200 (filter (\<lambda>p. accepted demo_search ws_dir ws_session p \<noteq> None)
      [ws_dir @ [Normal ''a.txt''], [RootDir, Normal ''etc'']]) \<and>
    ws_dir @ [Normal ''a.txt''] \<in> set ps"
proof -
  have g: "so_glob demo_search (utf8_lossy (join_text (tc_cwd ws_context) ''one'')) (ss_world ws_session) =
      (Inr [Inr (ws_dir @ [Normal ''a.txt'']), Inl ''broken'', Inr [RootDir, Normal ''etc'']], ss_world ws_session)"
    by simp
  from glob_lists [OF demo_quiet demo_required relative_pattern [OF relative_demo(1)] g] show ?thesis
    using demo_accepted demo_max by auto
qed

lemma demo_file_hits:
  "file_hits demo_search 100 ws_dir ''one'' ws_session (ws_dir @ [Normal ''a.txt'']) =
     [\<lparr>gm_path = ''a.txt'', gm_line = 1, gm_text = ''one two''\<rparr>]"
proof -
  have v: "valid_utf8 ''one two''" and l: "str_lines ''one two'' = [''one two'']" and m: "sublist ''one'' ''one two''"
    by code_simp+
  have d: "display_relative ws_dir (ws_dir @ [Normal ''a.txt'']) = ''a.txt''" by code_simp
  from demo_accepted v l m d show ?thesis
    by (simp add: file_hits_def) (simp add: mem_defs)
qed

lemma demo_no_file_hits: "file_hits demo_search 100 ws_dir ''one'' ws_session [RootDir, Normal ''etc''] = []"
  by (simp add: file_hits_def mem_defs)

theorem grep_reports_witness:
  "fst (grep_invoke demo_search 100 demo_pattern ws_context ws_session) =
     Inr (json_object [(''matches'', JArray [match_json \<lparr>gm_path = ''a.txt'', gm_line = 1, gm_text = ''one two''\<rparr>])])"
proof -
  have g: "so_glob demo_search (utf8_lossy (join_text (tc_cwd ws_context) ''**/*'')) (ss_world ws_session) =
      (Inr [Inr (ws_dir @ [Normal ''a.txt'']), Inl ''broken'', Inr [RootDir, Normal ''etc'']], ss_world ws_session)"
    by simp
  have "full_pattern demo_search (tc_cwd ws_context)
      (case json_str demo_pattern ''glob'' of None \<Rightarrow> ''**/*'' | Some g \<Rightarrow> g) ws_session =
      (Inr (utf8_lossy (join_text (tc_cwd ws_context) ''**/*'')), ws_session)"
    using relative_pattern [OF relative_demo(2)] by (simp add: demo_pattern_def json_str_def)
  moreover have files: "\<forall>p \<in> set (entry_paths [Inr (ws_dir @ [Normal ''a.txt'']), Inl ''broken'', Inr [RootDir, Normal ''etc'']]).
      fst (so_is_file demo_search p (ss_world ws_session)) \<longrightarrow>
      (\<exists>q. fst (os_canonicalize demo_search p (ss_world ws_session)) = Inr q)"
    by (simp add: mem_defs)
  moreover have "grep_file demo_search 100 ws_dir ''one'' (ss_world ws_session) p = file_hits demo_search 100 ws_dir ''one'' ws_session p"
    if "p \<in> {ws_dir @ [Normal ''a.txt''], [RootDir, Normal ''etc'']}" for p
    using file_hits_existing [OF demo_quiet, of p] files that by auto
  ultimately show ?thesis
    using grep_reports [OF demo_quiet demo_required _ g, where budget = 100] demo_file_hits demo_no_file_hits demo_max by simp
qed

text \<open>
  The working directory is put in front of a relative pattern as it is: one whose name contains \<^verbatim>\<open>[\<close>, \<^verbatim>\<open>*\<close> or \<^verbatim>\<open>?\<close> becomes
  part of the pattern instead of a place.
\<close>

lemma working_directory_not_escaped:
  "join_text [RootDir, Normal ''a[b]''] ''*.txt'' = ''/a[b]/*.txt''"
  by code_simp

end
