(* ===== verification/Lifecycle.thy ===== *)
theory Lifecycle
  imports Daemon
begin

text \<open>
  How a daemon process is started, found and stopped (the second half of \<^verbatim>\<open>wsl-executor-daemon/src/daemon.rs\<close>): a step
  relation on the machine, with daemon processes (\<^verbatim>\<open>run_tcp\<close>), the callers of \<^verbatim>\<open>ensure_running\<close> and \<^verbatim>\<open>stop\<close>,
  the state file, and the two advisory locks. Calls of the operating system are the steps, so everything
  interleaves between them; a process may end at any moment, which also covers every failing call of its start. Other
  processes of the same program and other listeners come and go freely.
\<close>

section \<open>Tokens and paths\<close>

definition hex_digit :: "nat \<Rightarrow> char" where
  "hex_digit d = (if d < 10 then char_of (48 + d) else char_of (87 + d))"

definition hex_byte :: "byte \<Rightarrow> string" where
  "hex_byte b = [hex_digit (unat b div 16), hex_digit (unat b mod 16)]"

text \<open>The token made of the 32 bytes read from \<^verbatim>\<open>/dev/urandom\<close>.\<close>

definition token_of :: "byte list \<Rightarrow> string" where
  "token_of bytes = concat (map hex_byte bytes)"

definition random_token :: "string + byte list \<Rightarrow> string + string" where
  "random_token urandom = bindE urandom (\<lambda>bytes. Inr (token_of bytes))"

definition state_path :: "path option \<Rightarrow> string + path" where
  "state_path home =
     bindE (ok_or ''HOME is unavailable'' home) (\<lambda>h. Inr (path_join h (path_components ''.local/state/ate/daemon.json'')))"


section \<open>The machine\<close>

type_synonym pid = "32 word"
type_synonym port = "16 word"

record daemon_state =
  dst_port :: port
  dst_pid :: pid
  dst_protocol_version :: "32 word"
  dst_token :: string

text \<open>
  A daemon process: before the service lock, with it, listening with its token, and after its state is written.
\<close>

datatype daemon_phase = Starting | Owning | Listening port string | Serving port string

text \<open>
  A call of \<^verbatim>\<open>ensure_running\<close> or \<^verbatim>\<open>stop\<close>. \<open>Looking a\<close> is before \<^verbatim>\<open>read_healthy_state\<close>, where \<open>a\<close> is \<open>None\<close> for the look before
  the spawn and the index of the attempt afterwards; \<open>Read\<close> and \<open>Alive\<close> are inside it.
\<close>

datatype caller =
    AwaitLock
  | Looking "nat option"
  | Read daemon_state "nat option"
  | Alive daemon_state "nat option"
  | Spawning
  | Finished "string + daemon_state"
  | StopAwait
  | StopHolding
  | StopRead daemon_state
  | StopDone bool
  | StopFailed

record machine =
  mc_file :: "daemon_state option"
  mc_service :: "pid option"
  mc_lock :: "nat option"
  mc_daemons :: "pid \<rightharpoonup> daemon_phase"
  mc_callers :: "caller list"
  mc_others :: "pid set"
  mc_ports :: "port set"
  mc_published :: "daemon_state list"

definition set_daemon :: "pid \<Rightarrow> daemon_phase option \<Rightarrow> machine \<Rightarrow> machine" where
  "set_daemon p ph m = m\<lparr>mc_daemons := (mc_daemons m)(p := ph)\<rparr>"

definition set_caller :: "nat \<Rightarrow> caller \<Rightarrow> machine \<Rightarrow> machine" where
  "set_caller n c m = m\<lparr>mc_callers := (mc_callers m)[n := c]\<rparr>"

text \<open>\<^verbatim>\<open>ServiceLock::acquire\<close> does not wait: a second instance ends.\<close>

definition daemon_acquire :: "pid \<Rightarrow> machine \<Rightarrow> machine" where
  "daemon_acquire p m =
     (if mc_service m = None then set_daemon p (Some Owning) (m\<lparr>mc_service := Some p\<rparr>)
      else set_daemon p None m)"

definition daemon_listen :: "pid \<Rightarrow> port \<Rightarrow> byte list \<Rightarrow> machine \<Rightarrow> machine" where
  "daemon_listen p port bytes m = set_daemon p (Some (Listening port (token_of bytes))) m"

definition state_of :: "pid \<Rightarrow> port \<Rightarrow> string \<Rightarrow> daemon_state" where
  "state_of p port token =
     \<lparr>dst_port = port, dst_pid = p, dst_protocol_version = PROTOCOL_VERSION, dst_token = token\<rparr>"

text \<open>\<^verbatim>\<open>write_state\<close>: the file is replaced by a rename, so a reader finds the old state or the new one.\<close>

definition daemon_publish :: "pid \<Rightarrow> port \<Rightarrow> string \<Rightarrow> machine \<Rightarrow> machine" where
  "daemon_publish p port token m =
     set_daemon p (Some (Serving port token))
       (m\<lparr>mc_file := Some (state_of p port token), mc_published := mc_published m @ [state_of p port token]\<rparr>)"

definition daemon_exit :: "pid \<Rightarrow> machine \<Rightarrow> machine" where
  "daemon_exit p m =
     set_daemon p None (m\<lparr>mc_service := (if mc_service m = Some p then None else mc_service m)\<rparr>)"

definition process_is_daemon :: "machine \<Rightarrow> pid \<Rightarrow> bool" where
  "process_is_daemon m p \<longleftrightarrow> mc_daemons m p \<noteq> None \<or> p \<in> mc_others m"

definition listens_on :: "port \<Rightarrow> daemon_phase \<Rightarrow> bool" where
  "listens_on port ph \<longleftrightarrow> (case ph of Listening q _ \<Rightarrow> q = port | Serving q _ \<Rightarrow> q = port | _ \<Rightarrow> False)"

definition connectable :: "machine \<Rightarrow> port \<Rightarrow> bool" where
  "connectable m port \<longleftrightarrow> port \<in> mc_ports m \<or> (\<exists>p ph. mc_daemons m p = Some ph \<and> listens_on port ph)"

definition ATTEMPTS :: nat where
  "ATTEMPTS = 100"

text \<open>What a caller does when a look has failed, and how it ends; ending releases the lock.\<close>

definition end_caller :: "nat \<Rightarrow> caller \<Rightarrow> machine \<Rightarrow> machine" where
  "end_caller n c m = (set_caller n c m)\<lparr>mc_lock := None\<rparr>"

definition look_failed :: "nat \<Rightarrow> nat option \<Rightarrow> machine \<Rightarrow> machine" where
  "look_failed n a m =
     (case a of
        None \<Rightarrow> set_caller n Spawning m
      | Some k \<Rightarrow>
          if k + 1 < ATTEMPTS then set_caller n (Looking (Some (k + 1))) m
          else end_caller n (Finished (Inl ''daemon did not become ready'')) m)"

text \<open>\<^verbatim>\<open>read_healthy_state\<close>: the file, then the version and the process, then the port.\<close>

definition look_read :: "nat \<Rightarrow> nat option \<Rightarrow> machine \<Rightarrow> machine" where
  "look_read n a m =
     (case mc_file m of None \<Rightarrow> look_failed n a m | Some st \<Rightarrow> set_caller n (Read st a) m)"

definition look_process :: "nat \<Rightarrow> daemon_state \<Rightarrow> nat option \<Rightarrow> machine \<Rightarrow> machine" where
  "look_process n st a m =
     (if dst_protocol_version st \<noteq> PROTOCOL_VERSION \<or> \<not> process_is_daemon m (dst_pid st) then look_failed n a m
      else set_caller n (Alive st a) m)"

definition look_connect :: "nat \<Rightarrow> daemon_state \<Rightarrow> nat option \<Rightarrow> machine \<Rightarrow> machine" where
  "look_connect n st a m =
     (if connectable m (dst_port st) then end_caller n (Finished (Inr st)) m else look_failed n a m)"

text \<open>The spawned process is a daemon that starts; a spawn that fails ends the call.\<close>

definition ensure_spawn :: "nat \<Rightarrow> pid \<Rightarrow> machine \<Rightarrow> machine" where
  "ensure_spawn n p m = set_caller n (Looking (Some 0)) (set_daemon p (Some Starting) m)"

definition stop_read :: "nat \<Rightarrow> machine \<Rightarrow> machine" where
  "stop_read n m =
     (case mc_file m of
        None \<Rightarrow> end_caller n (StopDone False) m
      | Some st \<Rightarrow> set_caller n (StopRead st) m)"

text \<open>
  The signal only makes the process end some time later; the file is removed in either case, if the system lets it. The look at the
  process, the signal and the removal are one step here.
\<close>

definition stop_remove :: "nat \<Rightarrow> daemon_state \<Rightarrow> machine \<Rightarrow> machine" where
  "stop_remove n st m = (end_caller n (StopDone (process_is_daemon m (dst_pid st))) m)\<lparr>mc_file := None\<rparr>"

definition free_pid :: "machine \<Rightarrow> pid \<Rightarrow> bool" where
  "free_pid m p \<longleftrightarrow> mc_daemons m p = None \<and> p \<notin> mc_others m"

definition caller_at :: "machine \<Rightarrow> nat \<Rightarrow> caller \<Rightarrow> bool" where
  "caller_at m n c \<longleftrightarrow> n < length (mc_callers m) \<and> mc_callers m ! n = c"

inductive machine_step :: "machine \<Rightarrow> machine \<Rightarrow> bool" where
  serve: "free_pid m p \<Longrightarrow> machine_step m (set_daemon p (Some Starting) m)"
| acquire: "mc_daemons m p = Some Starting \<Longrightarrow> machine_step m (daemon_acquire p m)"
| listen:
    "mc_daemons m p = Some Owning \<Longrightarrow> length bytes = 32 \<Longrightarrow> \<not> connectable m port \<Longrightarrow>
     machine_step m (daemon_listen p port bytes m)"
| publish: "mc_daemons m p = Some (Listening port token) \<Longrightarrow> machine_step m (daemon_publish p port token m)"
| exits: "mc_daemons m p \<noteq> None \<Longrightarrow> machine_step m (daemon_exit p m)"
| ensure: "machine_step m (m\<lparr>mc_callers := mc_callers m @ [AwaitLock]\<rparr>)"
| ensure_lock:
    "caller_at m n AwaitLock \<Longrightarrow> mc_lock m = None \<Longrightarrow> machine_step m (set_caller n (Looking None) (m\<lparr>mc_lock := Some n\<rparr>))"
| lock_error: "caller_at m n AwaitLock \<Longrightarrow> machine_step m (set_caller n (Finished (Inl e)) m)"
| reads: "caller_at m n (Looking a) \<Longrightarrow> machine_step m (look_read n a m)"
| unreadable: "caller_at m n (Looking a) \<Longrightarrow> machine_step m (look_failed n a m)"
| checks: "caller_at m n (Read st a) \<Longrightarrow> machine_step m (look_process n st a m)"
| connects: "caller_at m n (Alive st a) \<Longrightarrow> machine_step m (look_connect n st a m)"
| spawns: "caller_at m n Spawning \<Longrightarrow> free_pid m p \<Longrightarrow> machine_step m (ensure_spawn n p m)"
| spawn_error: "caller_at m n Spawning \<Longrightarrow> machine_step m (end_caller n (Finished (Inl e)) m)"
| stop: "machine_step m (m\<lparr>mc_callers := mc_callers m @ [StopAwait]\<rparr>)"
| stop_lock:
    "caller_at m n StopAwait \<Longrightarrow> mc_lock m = None \<Longrightarrow> machine_step m (set_caller n StopHolding (m\<lparr>mc_lock := Some n\<rparr>))"
| stop_lock_error: "caller_at m n StopAwait \<Longrightarrow> machine_step m (set_caller n StopFailed m)"
| stop_reads: "caller_at m n StopHolding \<Longrightarrow> machine_step m (stop_read n m)"
| stop_removes: "caller_at m n (StopRead st) \<Longrightarrow> machine_step m (stop_remove n st m)"
| stop_keeps:
    "caller_at m n (StopRead st) \<Longrightarrow> machine_step m (end_caller n (StopDone (process_is_daemon m (dst_pid st))) m)"
| stop_error: "caller_at m n StopHolding \<Longrightarrow> machine_step m (end_caller n StopFailed m)"
| killed: "mc_lock m = Some n \<Longrightarrow> machine_step m (end_caller n (Finished (Inl ''killed'')) m)"
| environment:
    "others \<inter> dom (mc_daemons m) = {} \<Longrightarrow>
     \<forall>p ph port. mc_daemons m p = Some ph \<longrightarrow> listens_on port ph \<longrightarrow> port \<notin> ports \<Longrightarrow>
     machine_step m (m\<lparr>mc_others := others, mc_ports := ports\<rparr>)"

definition boot :: machine where
  "boot = \<lparr>mc_file = None, mc_service = None, mc_lock = None, mc_daemons = Map.empty, mc_callers = [],
           mc_others = {}, mc_ports = {}, mc_published = []\<rparr>"

abbreviation machine_reach :: "machine \<Rightarrow> bool" where
  "machine_reach \<equiv> reach (\<lambda>m. m = boot) machine_step"

lemma machine_reach_step: "machine_reach m \<Longrightarrow> machine_step m m' \<Longrightarrow> machine_reach m'"
  by (rule reach.reach_step)


section \<open>One daemon at a time\<close>

definition owns :: "daemon_phase \<Rightarrow> bool" where
  "owns ph \<longleftrightarrow> ph \<noteq> Starting"

definition service_exact :: "machine \<Rightarrow> bool" where
  "service_exact m \<longleftrightarrow>
     (\<forall>p. mc_service m = Some p \<longleftrightarrow> (case mc_daemons m p of None \<Rightarrow> False | Some ph \<Rightarrow> owns ph))"

definition file_current :: "machine \<Rightarrow> bool" where
  "file_current m \<longleftrightarrow>
     (\<forall>p port token. mc_daemons m p = Some (Serving port token) \<longrightarrow>
        mc_file m = None \<or> mc_file m = Some (state_of p port token))"

definition token_ok :: "string \<Rightarrow> bool" where
  "token_ok token \<longleftrightarrow> (\<exists>bytes. length bytes = 32 \<and> token = token_of bytes)"

definition tokens_fresh :: "machine \<Rightarrow> bool" where
  "tokens_fresh m \<longleftrightarrow>
     (\<forall>p port token. mc_daemons m p = Some (Listening port token) \<or> mc_daemons m p = Some (Serving port token) \<longrightarrow> token_ok token)"

definition published_ok :: "machine \<Rightarrow> bool" where
  "published_ok m \<longleftrightarrow> list_all (\<lambda>st. dst_protocol_version st = PROTOCOL_VERSION \<and> token_ok (dst_token st)) (mc_published m) \<and>
     set_option (mc_file m) \<subseteq> set (mc_published m)"

text \<open>The state a caller has in hand.\<close>

fun in_hand :: "caller \<Rightarrow> daemon_state option" where
  "in_hand (Read st _) = Some st"
| "in_hand (Alive st _) = Some st"
| "in_hand (Finished (Inr st)) = Some st"
| "in_hand (StopRead st) = Some st"
| "in_hand _ = None"

definition hands_ok :: "machine \<Rightarrow> bool" where
  "hands_ok m \<longleftrightarrow> list_all (\<lambda>c. set_option (in_hand c) \<subseteq> set (mc_published m)) (mc_callers m)"

fun holds_lock :: "caller \<Rightarrow> bool" where
  "holds_lock AwaitLock \<longleftrightarrow> False"
| "holds_lock (Finished _) \<longleftrightarrow> False"
| "holds_lock StopAwait \<longleftrightarrow> False"
| "holds_lock (StopDone _) \<longleftrightarrow> False"
| "holds_lock StopFailed \<longleftrightarrow> False"
| "holds_lock _ \<longleftrightarrow> True"

definition lock_exact :: "machine \<Rightarrow> bool" where
  "lock_exact m \<longleftrightarrow> (\<forall>n. mc_lock m = Some n \<longleftrightarrow> n < length (mc_callers m) \<and> holds_lock (mc_callers m ! n))"

lemmas machine_ops = set_daemon_def set_caller_def daemon_acquire_def daemon_listen_def daemon_publish_def daemon_exit_def
  end_caller_def look_failed_def look_read_def look_process_def look_connect_def ensure_spawn_def stop_read_def stop_remove_def
  caller_at_def free_pid_def

lemma service_exact_one:
  "service_exact m \<Longrightarrow> mc_daemons m p = Some ph \<Longrightarrow> owns ph \<Longrightarrow> mc_service m = Some p"
  by (auto simp: service_exact_def)

lemma service_exact_step: "machine_step m m' \<Longrightarrow> service_exact m \<Longrightarrow> service_exact m'"
proof (induction rule: machine_step.induct)
  case (acquire m p)
  show ?case
  proof (cases "mc_service m")
    case None
    with acquire show ?thesis by (auto simp: machine_ops service_exact_def owns_def split: option.splits)
  next
    case (Some q)
    with acquire show ?thesis by (auto simp: machine_ops service_exact_def owns_def)
  qed
next
  case (exits m p)
  then show ?case
    by (auto simp: machine_ops service_exact_def owns_def split: option.splits) (metis option.inject)+
qed (auto simp: machine_ops service_exact_def owns_def split: option.splits)

lemma file_current_step: "machine_step m m' \<Longrightarrow> service_exact m \<Longrightarrow> file_current m \<Longrightarrow> file_current m'"
proof (induction rule: machine_step.induct)
  case (publish m p port token)
  have "mc_service m = Some p" using publish by (auto intro: service_exact_one simp: owns_def)
  then have "q = p" if "mc_daemons m q = Some (Serving port' token')" for q port' token'
    using service_exact_one [OF publish(2) that] by (simp add: owns_def)
  then show ?case by (auto simp: daemon_publish_def set_daemon_def file_current_def)
qed (auto simp: machine_ops file_current_def split: option.splits if_splits)

lemma tokens_fresh_step: "machine_step m m' \<Longrightarrow> tokens_fresh m \<Longrightarrow> tokens_fresh m'"
proof (induction rule: machine_step.induct)
  case (listen m p bytes port)
  then show ?case by (auto simp: machine_ops tokens_fresh_def token_ok_def)
next
  case (publish m p port token)
  then show ?case by (auto simp: machine_ops tokens_fresh_def)
qed (auto simp: machine_ops tokens_fresh_def split: option.splits if_splits)

lemma published_ok_step: "machine_step m m' \<Longrightarrow> tokens_fresh m \<Longrightarrow> published_ok m \<Longrightarrow> published_ok m'"
proof (induction rule: machine_step.induct)
  case (publish m p port token)
  then show ?case by (auto simp: machine_ops published_ok_def tokens_fresh_def state_of_def)
qed (auto simp: machine_ops published_ok_def split: option.splits if_splits)


lemma list_all_set_caller:
  "list_all P cs \<Longrightarrow> P c \<Longrightarrow> list_all P (cs[n := c])"
  by (metis list_all_iff set_update_subset_insert insertE subsetD)

lemma hands_ok_set:
  "hands_ok m \<Longrightarrow> set_option (in_hand c) \<subseteq> set (mc_published m) \<Longrightarrow> hands_ok (set_caller n c m)"
  by (simp add: hands_ok_def set_caller_def list_all_set_caller)

lemma hands_ok_caller: "hands_ok m \<Longrightarrow> caller_at m n c \<Longrightarrow> set_option (in_hand c) \<subseteq> set (mc_published m)"
  by (auto simp: hands_ok_def caller_at_def list_all_length)

lemma hands_ok_cong: "mc_callers m' = mc_callers m \<Longrightarrow> mc_published m' = mc_published m \<Longrightarrow> hands_ok m' = hands_ok m"
  by (simp add: hands_ok_def)

lemma hands_ok_end: "hands_ok m \<Longrightarrow> set_option (in_hand c) \<subseteq> set (mc_published m) \<Longrightarrow> hands_ok (end_caller n c m)"
  using hands_ok_set [of m c n] by (simp add: end_caller_def hands_ok_def)

lemma hands_ok_failed: "hands_ok m \<Longrightarrow> hands_ok (look_failed n a m)"
  by (auto simp: look_failed_def intro: hands_ok_set hands_ok_end split: option.split)

lemma hands_ok_step: "machine_step m m' \<Longrightarrow> published_ok m \<Longrightarrow> hands_ok m \<Longrightarrow> hands_ok m'"
proof (induction rule: machine_step.induct)
  case (publish m p port token)
  then show ?case by (auto simp: daemon_publish_def set_daemon_def hands_ok_def list_all_iff)
next
  case (reads m n a)
  then show ?case by (auto simp: look_read_def published_ok_def intro!: hands_ok_failed hands_ok_set split: option.split)
next
  case (checks m n st a)
  then have "st \<in> set (mc_published m)" using hands_ok_caller by fastforce
  with checks show ?case by (auto simp: look_process_def intro!: hands_ok_failed hands_ok_set)
next
  case (connects m n st a)
  then have "st \<in> set (mc_published m)" using hands_ok_caller by fastforce
  with connects show ?case by (auto simp: look_connect_def intro!: hands_ok_failed hands_ok_end)
next
  case (spawns m n p)
  then show ?case by (simp add: ensure_spawn_def hands_ok_set hands_ok_def set_daemon_def set_caller_def list_all_set_caller)
next
  case (stop_reads m n)
  then show ?case by (auto simp: stop_read_def published_ok_def intro!: hands_ok_end hands_ok_set split: option.split)
next
  case (stop_removes m n st)
  then show ?case
    using hands_ok_end [of m "StopDone (process_is_daemon m (dst_pid st))" n] by (simp add: stop_remove_def hands_ok_def)
qed (simp_all add: hands_ok_failed hands_ok_end,
    simp_all add: set_daemon_def daemon_acquire_def daemon_listen_def daemon_exit_def set_caller_def hands_ok_def list_all_set_caller)

text \<open>The state lock is held by exactly the caller that is between acquiring it and its end.\<close>

lemma lock_exact_acquire:
  "lock_exact m \<Longrightarrow> caller_at m n c \<Longrightarrow> mc_lock m = None \<Longrightarrow> holds_lock d \<Longrightarrow>
     lock_exact (set_caller n d (m\<lparr>mc_lock := Some n\<rparr>))"
proof -
  assume e: "lock_exact m" and a: "caller_at m n c" and free: "mc_lock m = None" and d: "holds_lock d"
  have "\<not> holds_lock (mc_callers m ! k)" if "k < length (mc_callers m)" for k
    using e free that by (simp add: lock_exact_def)
  with a d show ?thesis by (auto simp: lock_exact_def set_caller_def caller_at_def nth_list_update)
qed

lemma lock_exact_keep:
  "lock_exact m \<Longrightarrow> caller_at m n c \<Longrightarrow> holds_lock c \<Longrightarrow> holds_lock d \<Longrightarrow> lock_exact (set_caller n d m)"
  by (auto simp: lock_exact_def set_caller_def caller_at_def nth_list_update)

lemma lock_exact_release:
  "lock_exact m \<Longrightarrow> mc_lock m = Some n \<Longrightarrow> \<not> holds_lock d \<Longrightarrow> lock_exact (end_caller n d m)"
proof -
  assume e: "lock_exact m" and n: "mc_lock m = Some n" and d: "\<not> holds_lock d"
  have "\<not> holds_lock (mc_callers m ! k)" if "k < length (mc_callers m)" "k \<noteq> n" for k
  proof
    assume "holds_lock (mc_callers m ! k)"
    with e that(1) have "mc_lock m = Some k" by (simp add: lock_exact_def)
    with n that(2) show False by simp
  qed
  with d have "\<not> holds_lock ((mc_callers m)[n := d] ! k)" if "k < length (mc_callers m)" for k
    using that by (cases "k = n") simp_all
  then show ?thesis by (simp add: lock_exact_def end_caller_def set_caller_def)
qed

lemma lock_exact_idle:
  "lock_exact m \<Longrightarrow> caller_at m n c \<Longrightarrow> \<not> holds_lock c \<Longrightarrow> \<not> holds_lock d \<Longrightarrow> lock_exact (set_caller n d m)"
  by (auto simp: lock_exact_def set_caller_def caller_at_def nth_list_update)

lemma lock_exact_holder: "lock_exact m \<Longrightarrow> caller_at m n c \<Longrightarrow> holds_lock c \<Longrightarrow> mc_lock m = Some n"
  by (auto simp: lock_exact_def caller_at_def)

lemma lock_exact_finish:
  "lock_exact m \<Longrightarrow> caller_at m n c \<Longrightarrow> holds_lock c \<Longrightarrow> \<not> holds_lock d \<Longrightarrow> lock_exact (end_caller n d m)"
  using lock_exact_release lock_exact_holder by blast

lemma lock_exact_cong: "mc_callers m' = mc_callers m \<Longrightarrow> mc_lock m' = mc_lock m \<Longrightarrow> lock_exact m' = lock_exact m"
  by (simp add: lock_exact_def)

lemma lock_exact_failed:
  assumes "lock_exact m" and "caller_at m n c" and "holds_lock c"
  shows "lock_exact (look_failed n a m)"
  using lock_exact_keep [OF assms] lock_exact_release [OF assms(1) lock_exact_holder [OF assms]]
  by (auto simp: look_failed_def split: option.split)

lemma lock_exact_step: "machine_step m m' \<Longrightarrow> lock_exact m \<Longrightarrow> lock_exact m'"
proof (induction rule: machine_step.induct)
  case (ensure m)
  then show ?case by (auto simp: lock_exact_def nth_append less_Suc_eq)
next
  case (stop m)
  then show ?case by (auto simp: lock_exact_def nth_append less_Suc_eq)
next
  case (ensure_lock m n)
  then show ?case by (simp add: lock_exact_acquire)
next
  case (stop_lock m n)
  then show ?case by (simp add: lock_exact_acquire)
next
  case (reads m n a)
  then show ?case
    by (auto simp: look_read_def intro: lock_exact_failed lock_exact_keep split: option.split)
next
  case (unreadable m n a)
  then show ?case by (auto intro: lock_exact_failed)
next
  case (checks m n st a)
  then show ?case by (auto simp: look_process_def intro: lock_exact_failed lock_exact_keep)
next
  case (connects m n st a)
  then show ?case by (auto simp: look_connect_def intro: lock_exact_failed lock_exact_finish)
next
  case (lock_error m n e)
  then show ?case by (auto intro: lock_exact_idle)
next
  case (stop_lock_error m n)
  then show ?case by (auto intro: lock_exact_idle)
next
  case (spawns m n p)
  then have "lock_exact (set_caller n (Looking (Some 0)) m)" by (auto intro: lock_exact_keep)
  then show ?case by (simp add: ensure_spawn_def set_daemon_def set_caller_def lock_exact_def)
next
  case (spawn_error m n e)
  then show ?case by (auto intro: lock_exact_finish)
next
  case (stop_reads m n)
  then show ?case
    by (auto simp: stop_read_def intro: lock_exact_finish lock_exact_keep split: option.split)
next
  case (stop_removes m n st)
  then have "lock_exact (end_caller n (StopDone (process_is_daemon m (dst_pid st))) m)"
    by (auto intro: lock_exact_finish)
  then show ?case by (simp add: stop_remove_def lock_exact_def)
next
  case (stop_keeps m n st)
  then show ?case by (auto intro: lock_exact_finish)
next
  case (stop_error m n)
  then show ?case by (auto intro: lock_exact_finish)
next
  case (killed m n)
  then show ?case by (auto intro: lock_exact_release)
qed (auto simp: set_daemon_def daemon_acquire_def daemon_listen_def daemon_publish_def daemon_exit_def lock_exact_def)

definition machine_inv :: "machine \<Rightarrow> bool" where
  "machine_inv m \<longleftrightarrow> service_exact m \<and> file_current m \<and> tokens_fresh m \<and> published_ok m \<and> hands_ok m \<and> lock_exact m"

interpretation machine: step_invariant "\<lambda>m. m = boot" machine_step machine_inv
proof unfold_locales
  show "machine_inv m" if "m = boot" for m
    using that by (simp add: boot_def machine_inv_def service_exact_def file_current_def tokens_fresh_def published_ok_def
        hands_ok_def lock_exact_def)
  show "machine_inv m'" if "machine_inv m" "machine_step m m'" for m m'
    using that service_exact_step file_current_step tokens_fresh_step published_ok_step hands_ok_step lock_exact_step
    unfolding machine_inv_def by blast
qed

text \<open>
  (C31) One daemon at a time. Whatever starts, stops, crashes and looks happen in whatever order, at most one
  process is past the service lock, and at most one call of \<^verbatim>\<open>ensure_running\<close> or \<^verbatim>\<open>stop\<close> is past the state lock; when a daemon
  serves, the state file is its own or has been removed, so a caller that reads the file then is led to no other daemon.
\<close>

theorem one_daemon:
  assumes "machine_reach m" and "mc_daemons m p = Some ph" and "ph \<noteq> Starting"
  shows "(\<forall>q. mc_daemons m q \<noteq> None \<longrightarrow> mc_daemons m q \<noteq> Some Starting \<longrightarrow> q = p) \<and>
    (\<forall>n k. n < length (mc_callers m) \<longrightarrow> k < length (mc_callers m) \<longrightarrow> holds_lock (mc_callers m ! n) \<longrightarrow>
       holds_lock (mc_callers m ! k) \<longrightarrow> n = k) \<and>
    (\<forall>port token. ph = Serving port token \<longrightarrow> mc_file m = None \<or> mc_file m = Some (state_of p port token))"
proof -
  note i = machine.reach_inv [OF assms(1), unfolded machine_inv_def]
  have "mc_service m = Some q" if "mc_daemons m q = Some x" "x \<noteq> Starting" for q x
    using service_exact_one [of m q x] i that by (simp add: owns_def)
  from this [OF assms(2,3)] this
  have one: "q = p" if "mc_daemons m q \<noteq> None" "mc_daemons m q \<noteq> Some Starting" for q
    using that by (cases "mc_daemons m q") auto
  have lock: "n = k" if "n < length (mc_callers m)" "k < length (mc_callers m)" "holds_lock (mc_callers m ! n)"
      "holds_lock (mc_callers m ! k)" for n k
    using i that unfolding lock_exact_def by (metis option.inject)
  have "mc_file m = None \<or> mc_file m = Some (state_of p port token)" if "ph = Serving port token" for port token
    using i assms(2) that unfolding file_current_def by blast
  with one lock show ?thesis by simp
qed


subsection \<open>A concrete start\<close>

definition demo_token :: string where
  "demo_token = token_of (replicate 32 171)"

definition serving_machine :: machine where
  "serving_machine =
     boot\<lparr>mc_file := Some (state_of 7 4000 demo_token), mc_service := Some 7,
          mc_daemons := [7 \<mapsto> Serving 4000 demo_token], mc_published := [state_of 7 4000 demo_token]\<rparr>"

lemma serving_reach: "machine_reach serving_machine"
proof -
  let ?a = "boot\<lparr>mc_daemons := [7 \<mapsto> Starting]\<rparr>"
  let ?b = "boot\<lparr>mc_service := Some 7, mc_daemons := [7 \<mapsto> Owning]\<rparr>"
  let ?c = "boot\<lparr>mc_service := Some 7, mc_daemons := [7 \<mapsto> Listening 4000 demo_token]\<rparr>"
  have "machine_step boot ?a"
    using machine_step.serve [of boot 7] by (simp add: free_pid_def set_daemon_def boot_def)
  moreover have "machine_step ?a ?b"
    using machine_step.acquire [of ?a 7] by (simp add: daemon_acquire_def set_daemon_def boot_def)
  moreover have "\<not> connectable ?b 4000"
    by (auto simp: connectable_def listens_on_def boot_def split: if_splits)
  then have "machine_step ?b ?c"
    using machine_step.listen [of ?b 7 "replicate 32 171" 4000]
    by (simp add: daemon_listen_def set_daemon_def demo_token_def)
  moreover have "machine_step ?c serving_machine"
    using machine_step.publish [of ?c 7 4000 demo_token]
    by (simp add: daemon_publish_def set_daemon_def serving_machine_def boot_def)
  moreover have "machine_reach boot" by (simp add: reach.reach_start)
  ultimately show ?thesis by (blast intro: machine_reach_step)
qed

lemma serving_state:
  "mc_daemons serving_machine = [7 \<mapsto> Serving 4000 demo_token]" "mc_callers serving_machine = []"
  "mc_file serving_machine = Some (state_of 7 4000 demo_token)" "mc_lock serving_machine = None"
  by (simp_all add: serving_machine_def boot_def)

theorem one_daemon_witness:
  "mc_daemons serving_machine 7 = Some (Serving 4000 demo_token) \<and>
   mc_file serving_machine = Some (state_of 7 4000 demo_token)"
  using one_daemon [OF serving_reach, of 7 "Serving 4000 demo_token"] by (simp add: serving_state)



section \<open>What the callers get\<close>

text \<open>The number of steps of its own a caller has left at most.\<close>

fun caller_rank :: "caller \<Rightarrow> nat" where
  "caller_rank AwaitLock = 3 * ATTEMPTS + 8"
| "caller_rank (Looking None) = 3 * ATTEMPTS + 7"
| "caller_rank (Read _ None) = 3 * ATTEMPTS + 6"
| "caller_rank (Alive _ None) = 3 * ATTEMPTS + 5"
| "caller_rank Spawning = 3 * ATTEMPTS + 4"
| "caller_rank (Looking (Some k)) = 3 * (ATTEMPTS - k) + 3"
| "caller_rank (Read _ (Some k)) = 3 * (ATTEMPTS - k) + 2"
| "caller_rank (Alive _ (Some k)) = 3 * (ATTEMPTS - k) + 1"
| "caller_rank (Finished _) = 0"
| "caller_rank StopAwait = 3"
| "caller_rank StopHolding = 2"
| "caller_rank (StopRead _) = 1"
| "caller_rank (StopDone _) = 0"
| "caller_rank StopFailed = 0"

definition ended :: "caller \<Rightarrow> bool" where
  "ended c \<longleftrightarrow> caller_rank c = 0"

text \<open>\<open>moved n m m'\<close>: the caller \<open>n\<close> has come closer to its end, and the others are where they were.\<close>

definition moved :: "nat \<Rightarrow> machine \<Rightarrow> machine \<Rightarrow> bool" where
  "moved n m m' \<longleftrightarrow> (\<exists>c. mc_callers m' = (mc_callers m)[n := c] \<and> caller_rank c < caller_rank (mc_callers m ! n))"

lemma moved_set: "caller_at m n c \<Longrightarrow> caller_rank d < caller_rank c \<Longrightarrow> moved n m (set_caller n d m)"
  by (auto simp: moved_def set_caller_def caller_at_def)

lemma moved_end: "caller_at m n c \<Longrightarrow> caller_rank d < caller_rank c \<Longrightarrow> moved n m (end_caller n d m)"
  by (auto simp: moved_def set_caller_def end_caller_def caller_at_def)

lemma holds_lock_rank: "holds_lock c \<Longrightarrow> 0 < caller_rank c"
  by (cases c rule: caller_rank.cases) auto

lemma rank_read: "caller_rank (Read st a) < caller_rank (Looking a)" "caller_rank (Alive st a) < caller_rank (Read st a)"
  by (cases a; simp)+

lemma rank_positive: "0 < caller_rank (Looking a)" "0 < caller_rank (Read st a)" "0 < caller_rank (Alive st a)"
  by (cases a; simp)+

lemma moved_failed:
  assumes at: "caller_at m n c" and "caller_rank (Alive st a) \<le> caller_rank c"
  shows "moved n m (look_failed n a m)"
proof (cases a)
  case None
  with assms show ?thesis by (auto simp: look_failed_def intro!: moved_set)
next
  case (Some k)
  with assms show ?thesis
    by (auto simp: look_failed_def ATTEMPTS_def intro!: moved_set [OF at] moved_end [OF at])
qed

lemmas moved_failed_rules =
  moved_failed [OF _ order.refl] moved_failed [OF _ less_imp_le [OF rank_read(2)]]
  moved_failed [OF _ less_imp_le [OF less_trans [OF rank_read(2) rank_read(1)]]]

lemma moves:
  "caller_at m n c \<Longrightarrow> caller_rank d < caller_rank c \<Longrightarrow> mc_callers m' = (mc_callers m)[n := d] \<Longrightarrow>
     \<exists>n. n < length (mc_callers m) \<and> moved n m m'"
  by (auto simp: moved_def caller_at_def)

text \<open>A step leaves every caller where it is, adds one, or brings one of them closer to its end.\<close>

lemma caller_step:
  "machine_step m m' \<Longrightarrow> lock_exact m \<Longrightarrow>
     mc_callers m' = mc_callers m \<or> (\<exists>c. mc_callers m' = mc_callers m @ [c]) \<or>
     (\<exists>n. n < length (mc_callers m) \<and> moved n m m')"
proof (induction rule: machine_step.induct)
  case (reads m n a)
  then have "moved n m (look_read n a m)"
    by (auto simp: look_read_def intro: moved_failed_rules moved_set rank_read split: option.split)
  with reads show ?case by (auto simp: caller_at_def)
next
  case (unreadable m n a)
  then have "moved n m (look_failed n a m)" by (auto intro: moved_failed_rules)
  with unreadable show ?case by (auto simp: caller_at_def)
next
  case (checks m n st a)
  then have "moved n m (look_process n st a m)" by (auto simp: look_process_def intro: moved_failed_rules moved_set rank_read)
  with checks show ?case by (auto simp: caller_at_def)
next
  case (connects m n st a)
  then have "moved n m (look_connect n st a m)"
    using moved_end [OF connects(1), of "Finished (Inr st)"] rank_positive(3) [of st a]
    by (auto simp: look_connect_def intro: moved_failed_rules)
  with connects show ?case by (auto simp: caller_at_def)
next
  case (killed m n)
  then have "n < length (mc_callers m)" "0 < caller_rank (mc_callers m ! n)"
    using holds_lock_rank by (auto simp: lock_exact_def)
  then have "moved n m (end_caller n (Finished (Inl ''killed'')) m)"
    by (auto simp: moved_def end_caller_def set_caller_def)
  with killed show ?case by (auto simp: lock_exact_def)
next
  case (ensure_lock m n)
  then show ?case using moves [of m n "AwaitLock" "Looking None"]
    by (simp add: set_caller_def end_caller_def ATTEMPTS_def)
next
  case (lock_error m n e)
  then show ?case using moves [of m n AwaitLock "Finished (Inl e)"] by (simp add: set_caller_def)
next
  case (stop_lock_error m n)
  then show ?case using moves [of m n StopAwait StopFailed] by (simp add: set_caller_def)
next
  case (spawns m n p)
  then show ?case using moves [of m n "Spawning" "Looking (Some 0)"]
    by (simp add: set_caller_def end_caller_def ensure_spawn_def set_daemon_def ATTEMPTS_def)
next
  case (spawn_error m n e)
  then show ?case using moves [of m n "Spawning" "Finished (Inl e)"]
    by (simp add: set_caller_def end_caller_def ATTEMPTS_def)
next
  case (stop_lock m n)
  then show ?case using moves [of m n "StopAwait" "StopHolding"]
    by (simp add: set_caller_def end_caller_def ATTEMPTS_def)
next
  case (stop_reads m n)
  then show ?case
    using moves [of m n StopHolding "StopDone False"] moves [of m n StopHolding "StopRead (the (mc_file m))"]
    by (simp add: stop_read_def set_caller_def end_caller_def split: option.split)
next
  case (stop_removes m n st)
  then show ?case using moves [of m n "StopRead st" "StopDone (process_is_daemon m (dst_pid st))"]
    by (simp add: set_caller_def end_caller_def stop_remove_def ATTEMPTS_def)
next
  case (stop_keeps m n st)
  then show ?case using moves [of m n "StopRead st" "StopDone (process_is_daemon m (dst_pid st))"]
    by (simp add: set_caller_def end_caller_def ATTEMPTS_def)
next
  case (stop_error m n)
  then show ?case using moves [of m n "StopHolding" "StopFailed"]
    by (simp add: set_caller_def end_caller_def ATTEMPTS_def)
qed (auto simp: machine_ops)

text \<open>What the first look of a call finds at a machine whose daemon serves.\<close>

definition alive_machine :: machine where
  "alive_machine = serving_machine\<lparr>mc_lock := Some 0, mc_callers := [Alive (state_of 7 4000 demo_token) None]\<rparr>"

lemma alive_reach: "machine_reach alive_machine"
proof -
  let ?st = "state_of 7 4000 demo_token"
  let ?a = "serving_machine\<lparr>mc_callers := [AwaitLock]\<rparr>"
  let ?b = "serving_machine\<lparr>mc_lock := Some 0, mc_callers := [Looking None]\<rparr>"
  let ?c = "serving_machine\<lparr>mc_lock := Some 0, mc_callers := [Read ?st None]\<rparr>"
  have "machine_step serving_machine ?a"
    using machine_step.ensure [of serving_machine] by (simp add: serving_state)
  moreover have "machine_step ?a ?b"
    using machine_step.ensure_lock [of ?a 0] by (simp add: caller_at_def serving_state set_caller_def)
  moreover have "machine_step ?b ?c"
    using machine_step.reads [of ?b 0 None] by (simp add: caller_at_def serving_state set_caller_def look_read_def)
  moreover have "machine_step ?c alive_machine"
    using machine_step.checks [of ?c 0 ?st None]
    by (simp add: caller_at_def serving_state set_caller_def look_process_def process_is_daemon_def alive_machine_def
        state_of_def)
  ultimately show ?thesis using serving_reach by (blast intro: machine_reach_step)
qed

lemma result_from_alive:
  "machine_step m m' \<Longrightarrow> caller_at m' n (Finished (Inr st)) \<Longrightarrow> \<not> caller_at m n (Finished (Inr st)) \<Longrightarrow>
     (\<exists>a. caller_at m n (Alive st a)) \<and> connectable m (dst_port st) \<and> mc_lock m' = None"
proof (induction rule: machine_step.induct)
  case (killed m k)
  then show ?case by (cases "k = n") (auto simp: end_caller_def set_caller_def caller_at_def)
qed (auto simp: machine_ops nth_append nth_list_update split: if_splits option.splits)

text \<open>
  What \<^verbatim>\<open>ensure_running\<close> returns. A state it returns was written by a daemon of this program that held the service
  lock, with the protocol version of the client and a token of 32 random bytes, and something listens on its port when the
  call returns; the state lock is free again.
\<close>

theorem ensure_running_result:
  assumes "machine_reach m" and "machine_step m m'"
    and "caller_at m' n (Finished (Inr st))" and "\<not> caller_at m n (Finished (Inr st))"
  shows "st \<in> set (mc_published m) \<and> dst_protocol_version st = PROTOCOL_VERSION \<and> token_ok (dst_token st) \<and>
    connectable m (dst_port st) \<and> mc_lock m' = None"
proof -
  note i = machine.reach_inv [OF assms(1), unfolded machine_inv_def]
  from result_from_alive [OF assms(2,3,4)] obtain a
    where at: "caller_at m n (Alive st a)" and "connectable m (dst_port st)" "mc_lock m' = None" by blast
  moreover have "st \<in> set (mc_published m)" using i hands_ok_caller [OF _ at] by simp
  moreover have "dst_protocol_version st = PROTOCOL_VERSION \<and> token_ok (dst_token st)"
    using i \<open>st \<in> set (mc_published m)\<close> by (auto simp: published_ok_def list_all_iff)
  ultimately show ?thesis by blast
qed

theorem ensure_running_result_witness:
  "state_of 7 4000 demo_token \<in> set (mc_published alive_machine) \<and> connectable alive_machine 4000"
proof -
  let ?st = "state_of 7 4000 demo_token"
  have at: "caller_at alive_machine 0 (Alive ?st None)" by (simp add: caller_at_def alive_machine_def)
  have "connectable alive_machine (dst_port ?st)"
    by (auto simp: connectable_def listens_on_def alive_machine_def serving_state state_of_def)
  then have "caller_at (look_connect 0 ?st None alive_machine) 0 (Finished (Inr ?st))"
    using at by (simp add: look_connect_def end_caller_def set_caller_def caller_at_def)
  with ensure_running_result [OF alive_reach machine_step.connects [OF at], of 0 ?st] at
  show ?thesis by (simp add: caller_at_def state_of_def)
qed

text \<open>A caller that holds the lock can always take a step of its own.\<close>

lemma holder_moves:
  assumes at: "caller_at m n c" and "holds_lock c"
  shows "\<exists>m'. machine_step m m' \<and> moved n m m'"
proof (cases c)
  case (Looking a)
  with at have "moved n m (look_read n a m)"
    by (auto simp: look_read_def intro: moved_failed_rules moved_set rank_read split: option.split)
  with at Looking machine_step.reads show ?thesis by blast
next
  case (Read st a)
  with at have "moved n m (look_process n st a m)"
    by (auto simp: look_process_def intro: moved_failed_rules moved_set rank_read)
  with at Read machine_step.checks show ?thesis by blast
next
  case (Alive st a)
  with at have "moved n m (look_connect n st a m)"
    using moved_end [of m n c "Finished (Inr st)"] rank_positive(3) [of st a]
    by (auto simp: look_connect_def intro: moved_failed_rules)
  with at Alive machine_step.connects show ?thesis by blast
next
  case Spawning
  with at have "moved n m (end_caller n (Finished (Inl [])) m)" by (auto intro: moved_end)
  with at Spawning machine_step.spawn_error show ?thesis by blast
next
  case StopHolding
  with at have "moved n m (stop_read n m)"
    by (auto simp: stop_read_def intro: moved_end moved_set split: option.split)
  with at StopHolding machine_step.stop_reads show ?thesis by blast
next
  case (StopRead st)
  with at have "moved n m (end_caller n (StopDone (process_is_daemon m (dst_pid st))) m)" by (auto intro: moved_end)
  with at StopRead machine_step.stop_keeps show ?thesis by blast
qed (use assms(2) in simp_all)

lemma waiter_moves:
  assumes at: "caller_at m n c" and "mc_lock m = None" and "c = AwaitLock \<or> c = StopAwait"
  shows "\<exists>m'. machine_step m m' \<and> moved n m m'"
proof -
  have "moved n m (set_caller n d (m\<lparr>mc_lock := Some n\<rparr>))" if "caller_rank d < caller_rank c" for d
    using at that by (auto simp: moved_def set_caller_def caller_at_def)
  note this [of "Looking None"] this [of StopHolding]
  then have look: "c = AwaitLock \<Longrightarrow> moved n m (set_caller n (Looking None) (m\<lparr>mc_lock := Some n\<rparr>))"
    and hold: "c = StopAwait \<Longrightarrow> moved n m (set_caller n StopHolding (m\<lparr>mc_lock := Some n\<rparr>))"
    by simp_all
  from assms(3) show ?thesis
  proof
    assume "c = AwaitLock"
    with look machine_step.ensure_lock [of m n] at assms(2) show ?thesis by blast
  next
    assume "c = StopAwait"
    with hold machine_step.stop_lock [of m n] at assms(2) show ?thesis by blast
  qed
qed

lemma rank_zero: "0 < caller_rank c \<Longrightarrow> \<not> holds_lock c \<Longrightarrow> c = AwaitLock \<or> c = StopAwait"
  by (cases c) auto

text \<open>
  (C33) Every call of \<^verbatim>\<open>ensure_running\<close> and \<^verbatim>\<open>stop\<close> ends. While a call has not ended, it or the call that holds the state
  lock can take a step, and no step takes a call back: a step leaves the call where it is or lowers the number of steps it
  has left, which is 308 when \<^verbatim>\<open>ensure_running\<close> begins (one look before the spawn and a hundred after it) and 3 for \<^verbatim>\<open>stop\<close>.
\<close>

theorem callers_end:
  assumes "machine_reach m" and "n < length (mc_callers m)"
  shows "(0 < caller_rank (mc_callers m ! n) \<longrightarrow> (\<exists>k m'. machine_step m m' \<and> moved k m m' \<and> (k = n \<or> mc_lock m = Some k))) \<and>
    (\<forall>m'. machine_step m m' \<longrightarrow> n < length (mc_callers m') \<and>
       (mc_callers m' ! n = mc_callers m ! n \<or> caller_rank (mc_callers m' ! n) < caller_rank (mc_callers m ! n)))"
proof (intro conjI allI impI)
  from machine.reach_inv [OF assms(1)] have lock: "lock_exact m" by (simp add: machine_inv_def)
  show "\<exists>k m'. machine_step m m' \<and> moved k m m' \<and> (k = n \<or> mc_lock m = Some k)"
    if "0 < caller_rank (mc_callers m ! n)"
  proof (cases "mc_lock m")
    case (Some k)
    with lock have "caller_at m k (mc_callers m ! k)" "holds_lock (mc_callers m ! k)" by (auto simp: lock_exact_def caller_at_def)
    with holder_moves Some show ?thesis by blast
  next
    case None
    with lock assms(2) have "\<not> holds_lock (mc_callers m ! n)" by (simp add: lock_exact_def)
    with waiter_moves [of m n "mc_callers m ! n"] rank_zero None that assms(2)
    show ?thesis by (auto simp: caller_at_def)
  qed
  fix m' assume step: "machine_step m m'"
  from caller_step [OF step lock]
  show "mc_callers m' ! n = mc_callers m ! n \<or> caller_rank (mc_callers m' ! n) < caller_rank (mc_callers m ! n)"
    using assms(2) by (auto simp: moved_def nth_append nth_list_update)
  from caller_step [OF step lock] show "n < length (mc_callers m')" using assms(2) by (auto simp: moved_def)
qed

theorem callers_end_witness:
  "\<exists>k m'. machine_step alive_machine m' \<and> moved k alive_machine m' \<and> k = 0"
  using callers_end [OF alive_reach, of 0] by (auto simp: alive_machine_def)


section \<open>A daemon without a state file\<close>

text \<open>
  \<^verbatim>\<open>stop\<close> removes the file without looking whether it is still the one it read. A daemon that was started by hand in
  between loses its file, and while it lives nothing brings it back: every \<^verbatim>\<open>ensure_running\<close> fails, because it finds no
  state and the daemon it spawns is refused by the service lock.
\<close>

lemma orphan_stays:
  assumes "machine_reach m" and "machine_step m m'" and "mc_file m = None"
    and "mc_daemons m p = Some (Serving port token)" and "mc_daemons m' p = Some (Serving port token)"
  shows "mc_file m' = None"
proof -
  have one: "q = p" if "mc_daemons m q = Some ph" "owns ph" for q ph
    using machine.reach_inv [OF assms(1), unfolded machine_inv_def] service_exact_one that assms(4) owns_def
    by (metis daemon_phase.distinct(5) option.inject)
  from assms(2,3) one [unfolded owns_def] assms(4) show ?thesis
    by (induction rule: machine_step.induct) (auto simp: machine_ops split: option.splits if_splits)
qed

text \<open>How that comes about: the daemon 7 ends and the daemon 8 starts while a \<^verbatim>\<open>stop\<close> has read the state of 7.\<close>

definition late_machine :: machine where
  "late_machine =
     serving_machine\<lparr>mc_lock := Some 0, mc_callers := [StopRead (state_of 7 4000 demo_token)], mc_service := Some 8,
       mc_file := Some (state_of 8 4001 demo_token),
       mc_published := [state_of 7 4000 demo_token, state_of 8 4001 demo_token],
       mc_daemons := [8 \<mapsto> Serving 4001 demo_token]\<rparr>"

definition orphan_machine :: machine where
  "orphan_machine = stop_remove 0 (state_of 7 4000 demo_token) late_machine"

lemma late_reach: "machine_reach late_machine"
proof -
  let ?st = "state_of 7 4000 demo_token"
  let ?a = "serving_machine\<lparr>mc_callers := [StopAwait]\<rparr>"
  let ?b = "serving_machine\<lparr>mc_lock := Some 0, mc_callers := [StopHolding]\<rparr>"
  let ?c = "serving_machine\<lparr>mc_lock := Some 0, mc_callers := [StopRead ?st]\<rparr>"
  let ?d = "?c\<lparr>mc_service := None, mc_daemons := Map.empty\<rparr>"
  let ?e = "?d\<lparr>mc_daemons := [8 \<mapsto> Starting]\<rparr>"
  let ?f = "?d\<lparr>mc_service := Some 8, mc_daemons := [8 \<mapsto> Owning]\<rparr>"
  let ?g = "?f\<lparr>mc_daemons := [8 \<mapsto> Listening 4001 demo_token]\<rparr>"
  note s = serving_state caller_at_def set_caller_def set_daemon_def
  have p: "mc_service serving_machine = Some 7" "mc_others serving_machine = {}" "mc_ports serving_machine = {}"
    "mc_published serving_machine = [?st]"
    by (simp_all add: serving_machine_def boot_def)
  have s1: "machine_step serving_machine ?a" using machine_step.stop [of serving_machine] by (simp add: s)
  have s2: "machine_step ?a ?b" using machine_step.stop_lock [of ?a 0] by (simp add: s)
  have s3: "machine_step ?b ?c" using machine_step.stop_reads [of ?b 0] by (simp add: s stop_read_def)
  have s4: "machine_step ?c ?d" using machine_step.exits [of ?c 7] by (simp add: s p daemon_exit_def)
  have s5: "machine_step ?d ?e" using machine_step.serve [of ?d 8] by (simp add: s p free_pid_def)
  have s6: "machine_step ?e ?f" using machine_step.acquire [of ?e 8] by (simp add: s p daemon_acquire_def)
  have c: "\<not> connectable ?f 4001" by (auto simp: connectable_def listens_on_def p split: if_splits)
  have s7: "machine_step ?f ?g"
    using machine_step.listen [of ?f 8 "replicate 32 171" 4001] c by (simp add: s daemon_listen_def demo_token_def)
  have s8: "machine_step ?g late_machine"
    using machine_step.publish [of ?g 8 4001 demo_token] by (simp add: s p daemon_publish_def late_machine_def)
  note machine_reach_step [OF machine_reach_step [OF machine_reach_step [OF machine_reach_step [OF serving_reach s1] s2] s3] s4]
  from machine_reach_step [OF machine_reach_step [OF machine_reach_step [OF machine_reach_step [OF this s5] s6] s7] s8]
  show ?thesis .
qed

lemma orphan_reach:
  "machine_reach orphan_machine \<and> mc_daemons orphan_machine = [8 \<mapsto> Serving 4001 demo_token] \<and> mc_file orphan_machine = None"
proof -
  have "caller_at late_machine 0 (StopRead (state_of 7 4000 demo_token))" by (simp add: caller_at_def late_machine_def)
  from machine_reach_step [OF late_reach machine_step.stop_removes [OF this]]
  show ?thesis unfolding orphan_machine_def
    by (simp add: stop_remove_def end_caller_def set_caller_def) (simp add: late_machine_def)
qed


section \<open>Tokens\<close>

lemma hex_digit_inj: "a < 16 \<Longrightarrow> b < 16 \<Longrightarrow> hex_digit a = hex_digit b \<Longrightarrow> a = b"
  by (auto simp: hex_digit_def split: if_splits dest!: arg_cong [where f = of_char])

lemma hex_byte_inj: "hex_byte a = hex_byte b \<longleftrightarrow> a = b"
proof
  assume e: "hex_byte a = hex_byte b"
  have d: "unat x div 16 < 16" for x :: byte
  proof -
    have "unat x < 2 ^ LENGTH(8)" by (rule unsigned_less)
    then show ?thesis by simp
  qed
  have "unat a div 16 = unat b div 16" "unat a mod 16 = unat b mod 16"
    using e d by (auto simp: hex_byte_def intro: hex_digit_inj)
  then have "unat a = unat b" by (metis div_mult_mod_eq)
  then show "a = b" by (rule unsigned_word_eqI)
qed simp

text \<open>A token has two characters for each byte, and two different draws never give one token.\<close>

lemma token_of_inj: "token_of xs = token_of ys \<longleftrightarrow> xs = ys"
proof (induction xs arbitrary: ys)
  case Nil
  then show ?case by (cases ys) (auto simp: token_of_def hex_byte_def)
next
  case (Cons x xs)
  have e: "token_of (z # zs) = hex_byte z @ token_of zs" for z zs by (simp add: token_of_def)
  show ?case
  proof (cases ys)
    case Nil
    then show ?thesis by (simp add: token_of_def hex_byte_def)
  next
    case (Cons y zs)
    with Cons.IH show ?thesis using hex_byte_inj [of x y] by (auto simp: e hex_byte_def)
  qed
qed

lemma token_of_length: "length (token_of xs) = 2 * length xs"
  by (induction xs) (auto simp: token_of_def hex_byte_def)

end
