(* ===== verification/Discovery.thy ===== *)
theory Discovery
  imports Lifecycle Client
begin

text \<open>
  A client that finds and reaches a daemon: what \<^verbatim>\<open>ate-daemon ensure-running\<close> prints
  (\<^verbatim>\<open>wsl-executor-daemon/src/main.rs\<close>) is what the client parses (\<^verbatim>\<open>windows-agent-client/src/wsl.rs\<close>), and the
  connection it then opens is the read loop of the daemon (\<^verbatim>\<open>server.rs\<close>) with the sessions of its runtime
  (\<^verbatim>\<open>daemon.rs\<close>), or, when the cached port is no longer the daemon's, whatever listens there. The theories \<open>Lifecycle\<close>, \<open>Client\<close>, \<open>Server\<close> and \<open>Daemon\<close> meet here.
\<close>

section \<open>What the guest prints\<close>

text \<open>The derived serialization of the daemon's state, and the output of the command.\<close>

definition daemon_state_json :: "daemon_state \<Rightarrow> json" where
  "daemon_state_json st =
     json_object
       [(''port'', JNumber (PosInt (ucast (dst_port st)))),
        (''pid'', JNumber (PosInt (ucast (dst_pid st)))),
        (''protocol_version'', JNumber (PosInt (ucast (dst_protocol_version st)))),
        (''token'', JString (dst_token st))]"

definition ensure_running_output :: "(json \<Rightarrow> string) \<Rightarrow> (string \<Rightarrow> string) \<Rightarrow> string + daemon_state \<Rightarrow> command_result" where
  "ensure_running_output to_string debug r =
     (case r of
        Inr st \<Rightarrow> \<lparr>cr_success = True, cr_stdout = to_string (daemon_state_json st) @ [CHR 0x0A], cr_stderr = []\<rparr>
      | Inl e \<Rightarrow> \<lparr>cr_success = False, cr_stdout = [], cr_stderr = ''Error: '' @ debug e @ [CHR 0x0A]\<rparr>)"

text \<open>What the client relies on: the JSON library reads a document back from the line the guest printed.\<close>

definition read_back :: "(string \<Rightarrow> string + json) \<Rightarrow> (json \<Rightarrow> string) \<Rightarrow> daemon_state \<Rightarrow> bool" where
  "read_back parse to_string st \<longleftrightarrow>
     parse (to_string (daemon_state_json st) @ [CHR 0x0A]) = Inr (daemon_state_json st)"

lemma port_width: "unat (ucast (p :: 16 word) :: 64 word) < 65536" "ucast (ucast p :: 64 word) = p"
proof -
  have "unat p < 2 ^ LENGTH(16)" by (rule unsigned_less)
  then have small: "unat p < 65536" by simp
  then have "unat (ucast p :: 64 word) = unat p" by (simp add: unsigned_ucast_eq take_bit_nat_eq_self)
  with small show "unat (ucast p :: 64 word) < 65536" by simp
  show "ucast (ucast p :: 64 word) = p" by (rule bit_word_eqI) (simp add: bit_simps)
qed

text \<open>Parsing and serializing agree on the endpoint.\<close>

lemma endpoint_of_state [simp]:
  "endpoint_of (daemon_state_json st) = Inr \<lparr>ep_port = dst_port st, ep_token = dst_token st\<rparr>"
  by (simp add: endpoint_of_def daemon_state_json_def json_u64_def json_str_def port_width)


section \<open>Connections on the machine\<close>

text \<open>
  The world of the client is its latest connection: to the process \<open>p\<close> of the machine \<open>m\<close>, with the server state of
  the daemon's read loop, or to another listener. Connecting succeeds where something listens on the port; a message written to the daemon
  is handled, and what is read from it is its first response; another listener, once it has been written to, answers what
  \<open>others\<close> says, or closes the connection. \<open>cs\<close> is the session factory of the connections of the daemon.
\<close>

datatype peer = NoPeer | DaemonPeer | OtherPeer port

record link =
  lk_peer :: peer
  lk_server :: server_state

definition listens_at :: "machine \<Rightarrow> pid \<Rightarrow> port \<Rightarrow> bool" where
  "listens_at m p q \<longleftrightarrow> (case mc_daemons m p of None \<Rightarrow> False | Some ph \<Rightarrow> listens_on q ph)"

definition dial_port :: "machine \<Rightarrow> pid \<Rightarrow> nat \<Rightarrow> string \<Rightarrow> port \<Rightarrow> (link, string, unit) io" where
  "dial_port m p permits refused q w =
     (if listens_at m p q then (Inr (), \<lparr>lk_peer = DaemonPeer, lk_server = serve_initial permits\<rparr>)
      else if connectable m q then (Inr (), w\<lparr>lk_peer := OtherPeer q\<rparr>)
      else (Inl refused, w))"

definition daemon_dialer ::
  "(string \<Rightarrow> string \<Rightarrow> protocol_failure + daemon_session) \<Rightarrow> machine \<Rightarrow> pid \<Rightarrow> nat \<Rightarrow> string \<Rightarrow>
     (port \<Rightarrow> server_message option) \<Rightarrow> (server_message option \<Rightarrow> string) \<Rightarrow> (string \<Rightarrow> string + json) \<Rightarrow>
     command_result \<Rightarrow> link dialer"
where
  "daemon_dialer cs m p permits refused others debug parse output =
     \<lparr>dl_connect = dial_port m p permits refused,
      dl_write = (\<lambda>msg w. (Inr (), if lk_peer w = DaemonPeer then w\<lparr>lk_server := handle_message cs msg (lk_server w)\<rparr> else w)),
      dl_read = (\<lambda>w. (Inr (case lk_peer w of
         DaemonPeer \<Rightarrow> (case sv_sent (lk_server w) of [] \<Rightarrow> None | msg # _ \<Rightarrow> Some msg)
       | OtherPeer q \<Rightarrow> others q
       | NoPeer \<Rightarrow> None), w)),
      dl_debug = debug,
      dl_guest = (\<lambda>_ w. (Inr output, w)),
      dl_from_slice = parse\<rparr>"

lemma daemon_dialer_simps [simp]:
  "dl_connect (daemon_dialer cs m p n refused others debug parse out) = dial_port m p n refused"
  "dl_write (daemon_dialer cs m p n refused others debug parse out) msg w =
     (Inr (), if lk_peer w = DaemonPeer then w\<lparr>lk_server := handle_message cs msg (lk_server w)\<rparr> else w)"
  "dl_read (daemon_dialer cs m p n refused others debug parse out) w =
     (Inr (case lk_peer w of
         DaemonPeer \<Rightarrow> (case sv_sent (lk_server w) of [] \<Rightarrow> None | msg # _ \<Rightarrow> Some msg)
       | OtherPeer q \<Rightarrow> others q
       | NoPeer \<Rightarrow> None), w)"
  "dl_debug (daemon_dialer cs m p n refused others debug parse out) = debug"
  "dl_guest (daemon_dialer cs m p n refused others debug parse out) c w = (Inr out, w)"
  "dl_from_slice (daemon_dialer cs m p n refused others debug parse out) = parse"
  by (simp_all add: daemon_dialer_def)

text \<open>What the first message of a new connection leads to.\<close>

lemma serve_initial_simps [simp]:
  "sv_session (serve_initial n) = None" "sv_factory (serve_initial n)" "sv_sent (serve_initial n) = []"
  "sv_mode (serve_initial n) = server_mode.Serving"
  by (simp_all add: serve_initial_def)

lemma hello_fresh:
  "handle_message cs (CM_Hello PROTOCOL_VERSION token ws) (serve_initial n) =
     (case cs token ws of
        Inr ds \<Rightarrow>
          respond (SM_HelloAck PROTOCOL_VERSION (path_display (ds_workspace ds)))
            ((serve_initial n)\<lparr>sv_factory := False,
               sv_session := Some (ds\<lparr>ds_runtime := runtime_with_observer wire_observer (ds_runtime ds)\<rparr>)\<rparr>)
      | Inl e \<Rightarrow> leave_loop (respond (SM_Failed None e) ((serve_initial n)\<lparr>sv_factory := False\<rparr>)))"
  by (cases "cs token ws") (simp_all add: handle_message_def is_hello_def handle_hello_def)

lemma first_hello:
  assumes "w = handle_message cs (CM_Hello PROTOCOL_VERSION token ws) (serve_initial n)"
  shows "cs token ws = Inr ds \<Longrightarrow> sv_sent w = [SM_HelloAck PROTOCOL_VERSION (path_display (ds_workspace ds))] \<and>
      sv_session w = Some (ds\<lparr>ds_runtime := runtime_with_observer wire_observer (ds_runtime ds)\<rparr>) \<and>
      sv_mode w = server_mode.Serving"
    and "cs token ws = Inl e \<Longrightarrow> sv_sent w = [SM_Failed None e] \<and> sv_session w = None \<and> sv_mode w = Draining"
  unfolding assms hello_fresh by (simp_all add: respond_def leave_loop_def)

definition unexpected :: "(server_message option \<Rightarrow> string) \<Rightarrow> server_message option \<Rightarrow> client_error" where
  "unexpected debug got = Handshake (''unexpected guest response: '' @ debug got)"

text \<open>Dialing the daemon, and dialing another port.\<close>

lemma dial_daemon:
  assumes "listens_at m p q"
  shows "client_dial (daemon_dialer cs m p n refused others debug parse out) config \<lparr>ep_port = q, ep_token = token\<rparr> w =
    ((case cs token (cc_workspace config) of
        Inr ds \<Rightarrow> Inr WslClient_new | Inl e \<Rightarrow> Inl (unexpected debug (Some (SM_Failed None e)))),
     \<lparr>lk_peer = DaemonPeer,
      lk_server = handle_message cs (CM_Hello PROTOCOL_VERSION token (cc_workspace config)) (serve_initial n)\<rparr>)"
proof -
  let ?w = "handle_message cs (CM_Hello PROTOCOL_VERSION token (cc_workspace config)) (serve_initial n)"
  show ?thesis
  proof (cases "cs token (cc_workspace config)")
    case (Inl e)
    then have "sv_sent ?w = [SM_Failed None e]" using first_hello(2) [OF refl] by blast
    with assms Inl show ?thesis
      by (simp add: client_dial_def bindI_def map_errI_def failI_def unexpected_def handshake_accepted_def dial_port_def)
  next
    case (Inr ds)
    then have "sv_sent ?w = [SM_HelloAck PROTOCOL_VERSION (path_display (ds_workspace ds))]"
      using first_hello(1) [OF refl] by blast
    with assms Inr show ?thesis
      by (simp add: client_dial_def bindI_def map_errI_def retI_def handshake_accepted_def dial_port_def)
  qed
qed

lemma dial_elsewhere:
  assumes "\<not> listens_at m p q"
  shows "client_dial (daemon_dialer cs m p n refused others debug parse out) config \<lparr>ep_port = q, ep_token = token\<rparr> w =
    (if \<not> connectable m q then (Inl (Spawn (''cannot connect to WSL daemon: '' @ refused)), w)
     else (if handshake_accepted (others q) then Inr WslClient_new else Inl (unexpected debug (others q)),
           w\<lparr>lk_peer := OtherPeer q\<rparr>))"
  using assms by (simp add: client_dial_def bindI_def map_errI_def retI_def failI_def unexpected_def dial_port_def)

lemma ensure_daemon:
  assumes "read_back parse to_string st"
  shows "client_ensure_running (daemon_dialer cs m p n refused others debug parse
      (ensure_running_output to_string dbg (Inr st))) config w =
    (Inr \<lparr>ep_port = dst_port st, ep_token = dst_token st\<rparr>, w)"
  using assms by (simp add: read_back_def client_ensure_running_def bindI_def map_errI_def ensure_running_output_def liftE_def)

text \<open>What finding the daemon again leads to, whatever was cached.\<close>

lemma rediscover_daemon:
  assumes "read_back parse to_string st" and "listens_at m p (dst_port st)"
  shows "rediscover (daemon_dialer cs m p n refused others debug parse
      (ensure_running_output to_string dbg (Inr st))) config h =
    (let w = \<lparr>lk_peer = DaemonPeer, lk_server =
           handle_message cs (CM_Hello PROTOCOL_VERSION (dst_token st) (cc_workspace config)) (serve_initial n)\<rparr> in
     case cs (dst_token st) (cc_workspace config) of
       Inr ds \<Rightarrow> (Inr WslClient_new, update_cache (key_of_config config)
         (Some \<lparr>ep_port = dst_port st, ep_token = dst_token st\<rparr>) (h\<lparr>ho_world := w\<rparr>))
     | Inl e \<Rightarrow> (Inl (unexpected debug (Some (SM_Failed None e))), h\<lparr>ho_world := w\<rparr>))"
  by (cases "cs (dst_token st) (cc_workspace config)")
    (simp_all add: rediscover_def bindI_def outside_def ensure_daemon [OF assms(1)] dial_daemon [OF assms(2)] Let_def)

text \<open>
  The cached endpoint names the port of another listener, which acknowledges the handshake.
\<close>

definition misled :: "machine \<Rightarrow> pid \<Rightarrow> (port \<Rightarrow> server_message option) \<Rightarrow> endpoint option \<Rightarrow> bool" where
  "misled m p others cached \<longleftrightarrow>
     (case cached of
        None \<Rightarrow> False
      | Some e \<Rightarrow> \<not> listens_at m p (ep_port e) \<and> connectable m (ep_port e) \<and> handshake_accepted (others (ep_port e)))"

text \<open>
  Connecting, when the daemon listens on its port only and refuses every other token: otherwise the cached endpoint
  is used only when it is the daemon's own.
\<close>

lemma connect_daemon:
  assumes "read_back parse to_string st"
    and "\<And>q. listens_at m p q \<longleftrightarrow> q = dst_port st"
    and "\<And>t. t \<noteq> dst_token st \<Longrightarrow> \<exists>e. cs t (cc_workspace config) = Inl e"
    and "take 1 (cc_workspace config) = ''/''"
    and "client_connect (daemon_dialer cs m p n refused others debug parse
      (ensure_running_output to_string dbg (Inr st))) config h = (r, h')"
    and "\<not> misled m p others (ho_cache h (key_of_config config))"
  shows "ho_world h' = \<lparr>lk_peer = DaemonPeer, lk_server =
      handle_message cs (CM_Hello PROTOCOL_VERSION (dst_token st) (cc_workspace config)) (serve_initial n)\<rparr> \<and>
    (case cs (dst_token st) (cc_workspace config) of
       Inr ds \<Rightarrow> r = Inr WslClient_new \<and>
         ho_cache h' (key_of_config config) = Some \<lparr>ep_port = dst_port st, ep_token = dst_token st\<rparr>
     | Inl e \<Rightarrow> r = Inl (unexpected debug (Some (SM_Failed None e))) \<and> ho_cache h' (key_of_config config) = None)"
proof -
  let ?d = "daemon_dialer cs m p n refused others debug parse (ensure_running_output to_string dbg (Inr st))"
  let ?key = "key_of_config config"
  have here: "listens_at m p (dst_port st)" by (simp add: assms(2))
  have again: ?thesis if "rediscover ?d config g = (r, h')" "ho_cache g ?key = None" for g
    using that by (auto simp: rediscover_daemon [OF assms(1) here] Let_def split: sum.splits)
  show ?thesis
  proof (cases "ho_cache h ?key")
    case None
    with assms(4,5) show ?thesis by (intro again [of h]) (simp_all add: client_connect_def)
  next
    case (Some e)
    obtain q t where e: "e = \<lparr>ep_port = q, ep_token = t\<rparr>" by (cases e) auto
    obtain x w where dial: "client_dial ?d config e (ho_world h) = (x, w)" by fastforce
    show ?thesis
    proof (cases x)
      case (Inl f)
      with Some dial assms(4,5) show ?thesis
        by (intro again [of "update_cache ?key None (h\<lparr>ho_world := w\<rparr>)"]) (simp_all add: client_connect_def outside_def)
    next
      case (Inr c)
      have q: "q = dst_port st"
      proof (rule ccontr)
        assume "q \<noteq> dst_port st"
        with assms(2) have "\<not> listens_at m p q" by simp
        with assms(6) Some e dial Inr show False by (auto simp: dial_elsewhere misled_def split: if_splits)
      qed
      moreover from this Inr dial e assms(3) [of t] here have "t = dst_token st" by (auto simp: dial_daemon split: sum.splits)
      ultimately show ?thesis
        using Some dial Inr e assms(4,5) here by (auto simp: client_connect_def outside_def dial_daemon split: sum.splits)
    qed
  qed
qed

text \<open>A client that is misled keeps its endpoint and takes the other listener for the daemon.\<close>

lemma connect_misled:
  assumes "take 1 (cc_workspace config) = ''/''"
    and "client_connect (daemon_dialer cs m p n refused others debug parse out) config h = (r, h')"
    and "misled m p others (ho_cache h (key_of_config config))"
  shows "r = Inr WslClient_new \<and> ho_cache h' = ho_cache h \<and> (\<exists>q. lk_peer (ho_world h') = OtherPeer q)"
proof -
  obtain e where e: "ho_cache h (key_of_config config) = Some e" "\<not> listens_at m p (ep_port e)"
      "connectable m (ep_port e)" "handshake_accepted (others (ep_port e))"
    using assms(3) by (auto simp: misled_def split: option.splits)
  obtain q t where "e = \<lparr>ep_port = q, ep_token = t\<rparr>" by (cases e) auto
  with e assms(1,2) show ?thesis by (auto simp: client_connect_def outside_def dial_elsewhere)
qed


section \<open>Finding and reaching the daemon\<close>

text \<open>
  (C32) A client that is told of a daemon reaches it. Let \<^verbatim>\<open>ensure_running\<close> have returned a state, at any reachable machine, on
  which the process of that state serves with the token and on the port of the state, with a session factory that does
  not panic; and let every listener answer or close what is opened to it. Then the state was published with the client's
  protocol version and a token of 32 random bytes, and the client reads the daemon's port and token out of what the guest
  prints. Connecting with an absolute workspace ends as the daemon decides, whatever endpoint was cached before, be it none, one of an
  earlier daemon on the same port, or one of a port that is closed or where something else listens: either the client is
  connected, the endpoint is cached, and the connection serves the session of the runtime, acknowledged once;
  or the error is the daemon's refusal, nothing is cached and the connection has no session. The one exception is a
  cached port on which another listener acknowledges the handshake: the client then takes it for the daemon.
\<close>

theorem client_reaches_daemon:
  assumes "machine_reach m" and "caller_at m k (Finished (Inr st))"
    and "mc_daemons m (dst_pid st) = Some (Serving (dst_port st) (dst_token st))"
    and "read_back parse to_string st"
    and "dr_token rt = dst_token st"
    and "\<forall>t. runtime_session env rt t (cc_workspace config) = Returned (cs t (cc_workspace config))"
    and "take 1 (cc_workspace config) = ''/''"
    and "client_connect (daemon_dialer cs m (dst_pid st) n refused others debug parse
      (ensure_running_output to_string dbg (Inr st))) config h = (r, h')"
  shows "st \<in> set (mc_published m) \<and> dst_protocol_version st = PROTOCOL_VERSION \<and> token_ok (dst_token st) \<and>
    (if misled m (dst_pid st) others (ho_cache h (key_of_config config)) then
       r = Inr WslClient_new \<and> ho_cache h' = ho_cache h \<and> (\<exists>q. lk_peer (ho_world h') = OtherPeer q)
     else
       lk_peer (ho_world h') = DaemonPeer \<and>
       (case cs (dst_token st) (cc_workspace config) of
          Inr ds \<Rightarrow> r = Inr WslClient_new \<and>
            ho_cache h' (key_of_config config) = Some \<lparr>ep_port = dst_port st, ep_token = dst_token st\<rparr> \<and>
            sv_session (lk_server (ho_world h')) =
              Some (ds\<lparr>ds_runtime := runtime_with_observer wire_observer (ds_runtime ds)\<rparr>) \<and>
            sv_sent (lk_server (ho_world h')) = [SM_HelloAck PROTOCOL_VERSION (path_display (ds_workspace ds))]
        | Inl e \<Rightarrow> r = Inl (unexpected debug (Some (SM_Failed None e))) \<and>
            ho_cache h' (key_of_config config) = None \<and> sv_session (lk_server (ho_world h')) = None))"
proof -
  note i = machine.reach_inv [OF assms(1), unfolded machine_inv_def]
  from i hands_ok_caller [OF _ assms(2)] have "st \<in> set (mc_published m)" by simp
  with i have pub: "st \<in> set (mc_published m) \<and> dst_protocol_version st = PROTOCOL_VERSION \<and> token_ok (dst_token st)"
    by (auto simp: published_ok_def list_all_iff)
  show ?thesis
  proof (cases "misled m (dst_pid st) others (ho_cache h (key_of_config config))")
    case True
    with pub connect_misled [OF assms(7,8)] show ?thesis by simp
  next
    case False
    have at: "listens_at m (dst_pid st) q \<longleftrightarrow> q = dst_port st" for q
      using assms(3) by (auto simp: listens_at_def listens_on_def)
    have other: "\<exists>e. cs t (cc_workspace config) = Inl e" if "t \<noteq> dst_token st" for t
      using assms(5) assms(6) [rule_format, of t] that by (simp add: runtime_session_def) (metis)
    show ?thesis
      using False pub connect_daemon [OF assms(4) at other assms(7,8) False]
        first_hello [OF refl, of cs "dst_token st" "cc_workspace config" _ n]
      by (auto split: sum.splits)
  qed
qed


subsection \<open>A concrete connection\<close>

text \<open>A daemon that serves the port of an earlier one; the client still has the earlier token cached.\<close>

abbreviation demo_state :: daemon_state where
  "demo_state \<equiv> state_of 7 4000 demo_token"

definition found_machine :: machine where
  "found_machine = look_connect 0 demo_state None alive_machine"

lemma found_caller: "caller_at found_machine 0 (Finished (Inr demo_state))"
proof -
  have "connectable alive_machine (dst_port demo_state)"
    by (auto simp: connectable_def listens_on_def alive_machine_def serving_state state_of_def)
  then show ?thesis
    by (simp add: found_machine_def look_connect_def end_caller_def set_caller_def caller_at_def alive_machine_def)
qed

lemma found_reach: "machine_reach found_machine"
  unfolding found_machine_def
  by (rule machine_reach_step [OF alive_reach machine_step.connects]) (simp add: caller_at_def alive_machine_def)

definition demo_found_runtime :: daemon_runtime where
  "demo_found_runtime = demo_daemon_runtime\<lparr>dr_token := demo_token\<rparr>"

lemma found_runtime_simps:
  "dr_token demo_found_runtime = demo_token" "dr_token demo_daemon_runtime = ''t''"
  "dr_config demo_found_runtime = dr_config demo_daemon_runtime"
  "dr_workspace_root demo_found_runtime = dr_workspace_root demo_daemon_runtime"
  by (simp_all add: demo_found_runtime_def demo_daemon_runtime_def)

lemma found_session: "\<exists>ds. runtime_session demo_daemon demo_found_runtime demo_token ''/h/w'' = Returned (Inr ds)"
proof -
  have "runtime_session demo_daemon demo_found_runtime demo_token ''/h/w'' =
      runtime_session demo_daemon demo_daemon_runtime ''t'' ''/h/w''"
    by (simp only: runtime_session_def found_runtime_simps simp_thms if_False)
  with demo_session show ?thesis by simp
qed

definition found_sessions :: "string \<Rightarrow> string \<Rightarrow> protocol_failure + daemon_session" where
  "found_sessions t w =
     (case runtime_session demo_daemon demo_found_runtime t w of
        Returned r \<Rightarrow> r | Panic _ \<Rightarrow> Inl (ProtocolFailure_new ''panic'' []))"

lemma found_sessions_exact:
  "\<forall>t. runtime_session demo_daemon demo_found_runtime t ''/h/w'' = Returned (found_sessions t ''/h/w'')"
proof
  fix t
  show "runtime_session demo_daemon demo_found_runtime t ''/h/w'' = Returned (found_sessions t ''/h/w'')"
  proof (cases "t = demo_token")
    case True
    with found_session show ?thesis by (auto simp: found_sessions_def)
  next
    case False
    then show ?thesis by (simp add: found_sessions_def runtime_session_def demo_found_runtime_def)
  qed
qed

definition found_config :: client_config where
  "found_config = \<lparr>cc_distribution = ''d'', cc_guest_program = ''p'', cc_workspace = ''/h/w''\<rparr>"

definition found_result :: "(client_error + client_state) \<times> link host" where
  "found_result =
     client_connect
       (daemon_dialer found_sessions found_machine (dst_pid demo_state) 8 ''refused'' (\<lambda>_. None) (\<lambda>_. [])
         (\<lambda>_. Inr (daemon_state_json demo_state))
         (ensure_running_output (\<lambda>_. ''{}'') id (Inr demo_state)))
       found_config
       \<lparr>ho_cache = [key_of_config found_config \<mapsto> \<lparr>ep_port = 4000, ep_token = ''old''\<rparr>], 
        ho_world = \<lparr>lk_peer = NoPeer, lk_server = serve_initial 0\<rparr>\<rparr>"

theorem client_reaches_daemon_witness:
  "fst found_result = Inr WslClient_new \<and>
   ho_cache (snd found_result) (key_of_config found_config) = Some \<lparr>ep_port = 4000, ep_token = demo_token\<rparr>"
proof -
  obtain r h' where res: "found_result = (r, h')" by fastforce
  have ws: "cc_workspace found_config = ''/h/w''" by (simp add: found_config_def)
  have serves: "mc_daemons found_machine (dst_pid demo_state) = Some (Serving (dst_port demo_state) (dst_token demo_state))"
    by (simp add: found_machine_def look_connect_def end_caller_def set_caller_def look_failed_def alive_machine_def serving_state
        state_of_def)
  have at: "listens_at found_machine (dst_pid demo_state) 4000"
    using serves by (simp add: listens_at_def listens_on_def state_of_def)
  have reads: "read_back (\<lambda>_. Inr (daemon_state_json demo_state)) (\<lambda>_. ''{}'') demo_state"
    by (simp add: read_back_def)
  have token: "dr_token demo_found_runtime = dst_token demo_state"
    by (simp add: demo_found_runtime_def state_of_def)
  have absolute: "take 1 (cc_workspace found_config) = ''/''" by (simp add: ws)
  obtain ds where "found_sessions demo_token ''/h/w'' = Inr ds"
    using found_session found_sessions_exact by (metis outcome.inject(1))
  with client_reaches_daemon [OF found_reach found_caller serves reads token
      found_sessions_exact [folded ws] absolute res [unfolded found_result_def]]
  have "r = Inr WslClient_new \<and>
      ho_cache h' (key_of_config found_config) = Some \<lparr>ep_port = 4000, ep_token = demo_token\<rparr>"
    using at by (simp add: ws misled_def state_of_def)
  then show ?thesis unfolding res fst_conv snd_conv .
qed

end
