(* ===== verification/Mcp.thy ===== *)
theory Mcp
  imports Client
begin

text \<open>
  The MCP server (\<^verbatim>\<open>ate-mcp/src/main.rs\<close>): JSON-RPC messages, one per line of the standard input, are answered one by one on
  the standard output, and the calls of tools go to the daemon through the client. The messages are handled strictly
  one after the other, so the client appears as the trait \<^verbatim>\<open>ExecutionClient\<close> (\<^verbatim>\<open>windows-agent-client/src/api.rs\<close>): calls on a
  state that includes whatever else happens to the connection (the theory \<open>Client\<close> has its steps). Parsing and
  rendering of JSON are parameters.
\<close>

section \<open>The client as the server sees it\<close>

record 'c execution_client =
  xc_execute :: "execution_request \<Rightarrow> duration option \<Rightarrow> ('c, client_error, execution_result) io"
  xc_list_tools :: "('c, client_error, tool_descriptor list) io"

fun client_error_text :: "client_error \<Rightarrow> string" where
  "client_error_text UnsupportedPlatform = ''this client is only available on Windows''"
| "client_error_text (Spawn e) = ''failed to start WSL executor: '' @ e"
| "client_error_text (InvalidWorkspace e) = ''invalid WSL workspace: '' @ e"
| "client_error_text (Handshake e) = ''protocol handshake failed: '' @ e"
| "client_error_text Disconnected = ''transport disconnected''"
| "client_error_text (DuplicateExecutionId i) = ''execution id `'' @ i @ ''` is already pending''"
| "client_error_text (Remote code message) = ''guest rejected the request ('' @ code @ ''): '' @ message"


section \<open>Messages\<close>

record rpc_message =
  rm_id :: "json option"
  rm_method :: string
  rm_params :: json

record rpc_response =
  rr_id :: json
  rr_result :: "json option"
  rr_error :: "json option"

definition rpc_ok :: "json \<Rightarrow> json \<Rightarrow> rpc_response" where
  "rpc_ok i result = \<lparr>rr_id = i, rr_result = Some result, rr_error = None\<rparr>"

text \<open>\<^verbatim>\<open>json!\<close> of an \<^verbatim>\<open>i64\<close>.\<close>

definition json_i64 :: "int \<Rightarrow> json" where
  "json_i64 n = JNumber (if n < 0 then NegInt n else PosInt (word_of_int n))"

definition rpc_err :: "json \<Rightarrow> int \<Rightarrow> string \<Rightarrow> rpc_response" where
  "rpc_err i code message =
     \<lparr>rr_id = i, rr_result = None, rr_error = Some (json_object [(''code'', json_i64 code), (''message'', JString message)])\<rparr>"

definition MCP_PROTOCOL_VERSION :: string where
  "MCP_PROTOCOL_VERSION = ''2025-06-18''"

definition MCP_VERSION :: string where
  "MCP_VERSION = ''0.1.0''"

text \<open>
  \<^verbatim>\<open>serde_json\<close>: parsing a line as a message, rendering a value for a reader, and a response as bytes.
\<close>

record mcp_codec =
  mx_from_str :: "string \<Rightarrow> string + rpc_message"
  mx_pretty :: "json \<Rightarrow> string option"
  mx_to_vec :: "rpc_response \<Rightarrow> string + byte list"

record 'c mcp_state =
  mp_client :: 'c
  mp_next_id :: "64 word"
  mp_stdout :: writer

definition on_client :: "('c, client_error, 'a) io \<Rightarrow> ('c mcp_state, client_error, 'a) io" where
  "on_client m s = (case m (mp_client s) of (r, c) \<Rightarrow> (r, s\<lparr>mp_client := c\<rparr>))"

text \<open>A tool result as text: the field \<^verbatim>\<open>content\<close> when it is a string, the whole value otherwise.\<close>

definition to_text :: "mcp_codec \<Rightarrow> json \<Rightarrow> string" where
  "to_text cx content =
     (case json_str content ''content'' of
        Some t \<Rightarrow> t
      | None \<Rightarrow> (case mx_pretty cx content of Some t \<Rightarrow> t | None \<Rightarrow> ''failed to serialize tool output''))"

definition to_mcp_tool :: "tool_descriptor \<Rightarrow> json" where
  "to_mcp_tool tool =
     json_object [(''name'', JString (td_name tool)), (''description'', JString (td_description tool)),
                  (''inputSchema'', td_input_schema tool)]"

definition tools_list :: "'c execution_client \<Rightarrow> ('c mcp_state, client_error, json) io" where
  "tools_list xc =
     bindI (on_client (xc_list_tools xc)) (\<lambda>tools.
       retI (json_object [(''tools'', JArray (map to_mcp_tool tools))]))"

definition mcp_execution_id :: "64 word \<Rightarrow> string" where
  "mcp_execution_id n = ''mcp-'' @ show_nat (unat n)"

definition tools_call ::
  "mcp_codec \<Rightarrow> 'c execution_client \<Rightarrow> string \<Rightarrow> json \<Rightarrow> ('c mcp_state, client_error, json) io"
where
  "tools_call cx xc name arguments s =
     (let request = \<lparr>er_id = mcp_execution_id (mp_next_id s), er_tool = name, er_arguments = arguments\<rparr> in
      bindI (on_client (xc_execute xc request None)) (\<lambda>result.
        retI (json_object
          [(''content'', JArray [json_object [(''type'', JString ''text''), (''text'', JString (to_text cx (res_content result)))]]),
           (''isError'', JBool (res_is_error result))]))
      (s\<lparr>mp_next_id := mp_next_id s + 1\<rparr>))"


section \<open>One message\<close>

definition initialize_result :: json where
  "initialize_result =
     json_object
       [(''protocolVersion'', JString MCP_PROTOCOL_VERSION),
        (''capabilities'', json_object [(''tools'', json_object [(''listChanged'', JBool False)])]),
        (''serverInfo'', json_object [(''name'', JString ''ate-mcp''), (''version'', JString MCP_VERSION)])]"

definition rpc_call ::
  "mcp_codec \<Rightarrow> 'c execution_client \<Rightarrow> json \<Rightarrow> ('c mcp_state, string, json) io"
where
  "rpc_call cx xc params =
     (case json_str params ''name'' of
        None \<Rightarrow> failI ''tools/call requires a `name`''
      | Some name \<Rightarrow>
          map_errI client_error_text
            (tools_call cx xc name (case json_get params ''arguments'' of None \<Rightarrow> JObject [] | Some a \<Rightarrow> a)))"

definition quiet_methods :: "string list" where
  "quiet_methods = [''notifications/initialized'', ''notifications/cancelled'']"

definition rpc_result ::
  "mcp_codec \<Rightarrow> 'c execution_client \<Rightarrow> string \<Rightarrow> json \<Rightarrow> ('c mcp_state, string, json) io"
where
  "rpc_result cx xc rpc_method params =
     (if rpc_method = ''initialize'' then retI initialize_result
      else if rpc_method \<in> set quiet_methods then retI JNull
      else if rpc_method = ''ping'' then retI (JObject [])
      else if rpc_method = ''tools/list'' then map_errI client_error_text (tools_list xc)
      else if rpc_method = ''tools/call'' then rpc_call cx xc params
      else failI (''method not found: '' @ rpc_method))"

definition handle ::
  "mcp_codec \<Rightarrow> 'c execution_client \<Rightarrow> rpc_message \<Rightarrow> 'c mcp_state \<Rightarrow> rpc_response option \<times> 'c mcp_state"
where
  "handle cx xc message s =
     (case rm_id message of
        None \<Rightarrow> (None, s)
      | Some i \<Rightarrow>
          (case rpc_result cx xc (rm_method message) (rm_params message) s of
             (Inr value, s') \<Rightarrow> (if value = JNull then None else Some (rpc_ok i value), s')
           | (Inl error, s') \<Rightarrow> (Some (rpc_err i (-32603) error), s')))"


section \<open>The loop\<close>

datatype mcp_error = ME_Var string | ME_Client client_error | ME_Json string | ME_Io io_error

text \<open>A response is a line of its own; \<^verbatim>\<open>flush\<close> fails with the write.\<close>

definition send_response :: "mcp_codec \<Rightarrow> rpc_response \<Rightarrow> ('c mcp_state, mcp_error, unit) io" where
  "send_response cx response s =
     (case mx_to_vec cx response of
        Inl e \<Rightarrow> (Inl (ME_Json e), s)
      | Inr payload \<Rightarrow>
          (case write_all (payload @ [10]) (mp_stdout s) of
             (r, w) \<Rightarrow> (map_err ME_Io r, s\<lparr>mp_stdout := w\<rparr>)))"

fun mcp_loop :: "mcp_codec \<Rightarrow> 'c execution_client \<Rightarrow> string list \<Rightarrow> ('c mcp_state, mcp_error, unit) io" where
  "mcp_loop cx xc [] = retI ()"
| "mcp_loop cx xc (line # lines) =
     (if trim line = [] then mcp_loop cx xc lines
      else
        bindI (liftE (map_err ME_Json (mx_from_str cx line))) (\<lambda>message s.
          (case handle cx xc message s of
             (None, s') \<Rightarrow> mcp_loop cx xc lines s'
           | (Some response, s') \<Rightarrow> bindI (send_response cx response) (\<lambda>_. mcp_loop cx xc lines) s')))"

text \<open>
  The whole server. \<open>var\<close> is the environment, an unset variable or one that is not Unicode being an error;
  \<open>enter\<close> gives the state of a connected client; \<open>lines\<close> are the lines up to the first that cannot be read.
\<close>

definition mcp_main ::
  "mcp_codec \<Rightarrow> 'c execution_client \<Rightarrow> 'w dialer \<Rightarrow> (string \<Rightarrow> string + string) \<Rightarrow> (client_state \<Rightarrow> 'c) \<Rightarrow> writer \<Rightarrow>
     string list \<Rightarrow> 'w host \<Rightarrow> mcp_error + (mcp_error + unit) \<times> 'c mcp_state"
where
  "mcp_main cx xc d var enter out lines h =
     bindE (map_err ME_Var (var ''ATE_MCP_GUEST_PROGRAM'')) (\<lambda>guest_program.
     bindE (map_err ME_Var (var ''ATE_MCP_WORKSPACE'')) (\<lambda>workspace.
       let config = \<lparr>cc_distribution = (case var ''ATE_MCP_DISTRIBUTION'' of Inl _ \<Rightarrow> ''Ubuntu'' | Inr v \<Rightarrow> v),
                     cc_guest_program = guest_program, cc_workspace = workspace\<rparr> in
       bindE (map_err ME_Client (fst (client_connect d config h))) (\<lambda>client.
         Inr (mcp_loop cx xc lines \<lparr>mp_client = enter client, mp_next_id = 1, mp_stdout = out\<rparr>))))"



section \<open>What is answered\<close>

definition wants_answer :: "rpc_message \<Rightarrow> bool" where
  "wants_answer m \<longleftrightarrow> rm_id m \<noteq> None \<and> rm_method m \<notin> set quiet_methods"

definition calls_tool :: "rpc_message \<Rightarrow> bool" where
  "calls_tool m \<longleftrightarrow> rm_id m \<noteq> None \<and> rm_method m = ''tools/call'' \<and> json_str (rm_params m) ''name'' \<noteq> None"

definition well_formed_response :: "rpc_response \<Rightarrow> bool" where
  "well_formed_response r \<longleftrightarrow>
     (\<exists>v. v \<noteq> JNull \<and> r = rpc_ok (rr_id r) v) \<or> (\<exists>message. r = rpc_err (rr_id r) (-32603) message)"

lemma on_client_frame:
  "on_client m s = (r, s') \<Longrightarrow> mp_stdout s' = mp_stdout s \<and> mp_next_id s' = mp_next_id s"
  by (auto simp: on_client_def split: prod.splits)

lemma json_object_not_null: "json_object kvs \<noteq> JNull"
  by (simp add: json_object_def)

lemma tools_list_frame:
  assumes "tools_list xc s = (r, s')"
  shows "mp_stdout s' = mp_stdout s" "mp_next_id s' = mp_next_id s" "r \<noteq> Inr JNull"
  using assms on_client_frame
  by (auto simp: tools_list_def bindI_def retI_def json_object_not_null split: prod.splits sum.splits)

lemma tools_call_frame:
  assumes "tools_call cx xc name arguments s = (r, s')"
  shows "mp_stdout s' = mp_stdout s" "mp_next_id s' = mp_next_id s + 1" "r \<noteq> Inr JNull"
  using assms
  by (auto simp: tools_call_def Let_def bindI_def retI_def json_object_not_null split: prod.splits sum.splits
      dest!: on_client_frame)

lemma map_errI_eq: "map_errI g m w = (r, w') \<longleftrightarrow> (\<exists>q. m w = (q, w') \<and> r = map_err g q)"
  by (auto simp: map_errI_def split: prod.splits)

text \<open>Exactly the two notifications yield \<^verbatim>\<open>null\<close>; only \<^verbatim>\<open>tools/call\<close> with a name takes a number.\<close>

lemma rpc_result_frame:
  assumes "rpc_result cx xc rpc_method params s = (r, s')"
  shows "mp_stdout s' = mp_stdout s" "r = Inr JNull \<longleftrightarrow> rpc_method \<in> set quiet_methods"
    "mp_next_id s' = mp_next_id s + (if rpc_method = ''tools/call'' \<and> json_str params ''name'' \<noteq> None then 1 else 0)"
proof -
  have call: "rpc_method = ''tools/call'' \<Longrightarrow> rpc_result cx xc rpc_method params s = rpc_call cx xc params s"
    by (simp add: rpc_result_def quiet_methods_def)
  have call_frame: "mp_stdout t = mp_stdout s \<and> q \<noteq> Inr JNull \<and>
      mp_next_id t = mp_next_id s + (if json_str params ''name'' \<noteq> None then 1 else 0)"
    if "rpc_call cx xc params s = (q, t)" for q t
    using that tools_call_frame(1,2) tools_call_frame(3) [of cx xc _ _ s "Inr JNull" t]
    by (cases "json_str params ''name''") (auto simp: rpc_call_def failI_def map_errI_eq map_err_eq_Inr)
  let ?frame = "\<lambda>b. mp_stdout s' = mp_stdout s \<and> mp_next_id s' = mp_next_id s \<and> (r = Inr JNull \<longleftrightarrow> b)"
  have pure: "retI v s = (r, s') \<Longrightarrow> ?frame (v = JNull)" "failI e s = (r, s') \<Longrightarrow> ?frame False" for v and e :: string
    by (auto simp: retI_def failI_def)
  have listed: "?frame False" if "map_errI client_error_text (tools_list xc) s = (r, s')"
    using that tools_list_frame(1,2) tools_list_frame(3) [of xc s "Inr JNull" s'] by (auto simp: map_errI_eq map_err_eq_Inr)
  have other: "?frame (rpc_method \<in> set quiet_methods)" if "rpc_method \<noteq> ''tools/call''"
  proof -
    note r = assms [unfolded rpc_result_def]
    consider (init) "rpc_method = ''initialize''" | (quiet) "rpc_method \<in> set quiet_methods" "rpc_method \<noteq> ''initialize''"
      | (ping) "rpc_method = ''ping''" | (list) "rpc_method = ''tools/list''"
      | (unknown) "rpc_method \<noteq> ''initialize''" "rpc_method \<notin> set quiet_methods" "rpc_method \<noteq> ''ping''" "rpc_method \<noteq> ''tools/list''"
      by blast
    then show ?thesis
    proof cases
      case init
      with r pure(1) [of initialize_result] show ?thesis by (simp add: initialize_result_def json_object_not_null quiet_methods_def)
    next
      case quiet
      with r pure(1) [of JNull] show ?thesis by simp
    next
      case ping
      with r pure(1) [of "JObject []"] show ?thesis by (simp add: quiet_methods_def)
    next
      case list
      with r listed show ?thesis by (simp add: quiet_methods_def)
    next
      case unknown
      with r that pure(2) show ?thesis by simp
    qed
  qed
  show "mp_stdout s' = mp_stdout s" "r = Inr JNull \<longleftrightarrow> rpc_method \<in> set quiet_methods"
    "mp_next_id s' = mp_next_id s + (if rpc_method = ''tools/call'' \<and> json_str params ''name'' \<noteq> None then 1 else 0)"
    using assms call call_frame [of r s'] other
    by (cases "rpc_method = ''tools/call''"; simp add: quiet_methods_def)+
qed

lemma handle_frame:
  assumes "handle cx xc m s = (r, s')"
  shows "mp_stdout s' = mp_stdout s" "r = None \<longleftrightarrow> \<not> wants_answer m"
    "r = Some response \<Longrightarrow> rm_id m = Some (rr_id response) \<and> well_formed_response response"
    "mp_next_id s' = mp_next_id s + (if calls_tool m then 1 else 0)"
  using assms rpc_result_frame [of cx xc "rm_method m" "rm_params m" s]
  by (auto simp: handle_def wants_answer_def calls_tool_def well_formed_response_def rpc_ok_def rpc_err_def
      split: option.splits prod.splits sum.splits if_splits)

text \<open>
  What was exchanged over a message: the call of the client it led to, with what the client returned, and the answer.
\<close>

datatype client_call =
    Executed execution_request "client_error + execution_result"
  | Listed "client_error + tool_descriptor list"

record exchange =
  ex_message :: rpc_message
  ex_call :: "client_call option"
  ex_reply :: "rpc_response option"

text \<open>The client takes the calls, returns what they record and ends in the second state.\<close>

fun client_runs :: "'c execution_client \<Rightarrow> 'c \<Rightarrow> client_call list \<Rightarrow> 'c \<Rightarrow> bool" where
  "client_runs xc c [] c' \<longleftrightarrow> c' = c"
| "client_runs xc c (Executed request outcome # calls) c' \<longleftrightarrow>
     (case xc_execute xc request None c of (r, c1) \<Rightarrow> r = outcome \<and> client_runs xc c1 calls c')"
| "client_runs xc c (Listed outcome # calls) c' \<longleftrightarrow>
     (case xc_list_tools xc c of (r, c1) \<Rightarrow> r = outcome \<and> client_runs xc c1 calls c')"

definition lists_tools :: "rpc_message \<Rightarrow> bool" where
  "lists_tools m \<longleftrightarrow> rm_id m \<noteq> None \<and> rm_method m = ''tools/list''"

text \<open>The request asks for the tool and the arguments named in the message, for none if it names none.\<close>

definition asked_for :: "rpc_message \<Rightarrow> execution_request \<Rightarrow> bool" where
  "asked_for m request \<longleftrightarrow>
     json_str (rm_params m) ''name'' = Some (er_tool request) \<and>
     (json_get (rm_params m) ''arguments'' = Some (er_arguments request) \<or>
      json_get (rm_params m) ''arguments'' = None \<and> er_arguments request = JObject [])"

text \<open>The answer passes on what the client returned: its error, or the text and the flag of the result.\<close>

fun relays :: "mcp_codec \<Rightarrow> client_error + execution_result \<Rightarrow> rpc_response \<Rightarrow> bool" where
  "relays cx (Inl e) a \<longleftrightarrow> a = rpc_err (rr_id a) (-32603) (client_error_text e)"
| "relays cx (Inr result) a \<longleftrightarrow>
     (\<exists>v block. a = rpc_ok (rr_id a) v \<and> json_get v ''isError'' = Some (JBool (res_is_error result)) \<and>
        json_get v ''content'' = Some (JArray [block]) \<and> json_str block ''text'' = Some (to_text cx (res_content result)))"

fun relays_tools :: "client_error + tool_descriptor list \<Rightarrow> rpc_response \<Rightarrow> bool" where
  "relays_tools (Inl e) a \<longleftrightarrow> a = rpc_err (rr_id a) (-32603) (client_error_text e)"
| "relays_tools (Inr tools) a \<longleftrightarrow>
     (\<exists>v ts. a = rpc_ok (rr_id a) v \<and> json_get v ''tools'' = Some (JArray ts) \<and>
        map (\<lambda>t. json_str t ''name'') ts = map (Some \<circ> td_name) tools)"

declare relays.simps [simp del] relays_tools.simps [simp del]

definition exchange_ok :: "mcp_codec \<Rightarrow> exchange \<Rightarrow> bool" where
  "exchange_ok cx x \<longleftrightarrow>
     (case ex_reply x of
        None \<Rightarrow> \<not> wants_answer (ex_message x) \<and> ex_call x = None
      | Some a \<Rightarrow>
          wants_answer (ex_message x) \<and> rm_id (ex_message x) = Some (rr_id a) \<and> well_formed_response a \<and>
          (case ex_call x of
             None \<Rightarrow> \<not> calls_tool (ex_message x) \<and> \<not> lists_tools (ex_message x) \<and>
               (rr_error a = None \<longleftrightarrow> rm_method (ex_message x) \<in> {''initialize'', ''ping''})
           | Some (Executed request outcome) \<Rightarrow>
               calls_tool (ex_message x) \<and> asked_for (ex_message x) request \<and> relays cx outcome a
           | Some (Listed outcome) \<Rightarrow> lists_tools (ex_message x) \<and> relays_tools outcome a))"

text \<open>The calls of a list of exchanges, its answers, the ids of its executions, and the ids the counter stands for.\<close>

definition calls_of :: "exchange list \<Rightarrow> client_call list" where
  "calls_of xs = List.map_filter ex_call xs"

definition replies_of :: "exchange list \<Rightarrow> rpc_response list" where
  "replies_of xs = List.map_filter ex_reply xs"

fun executed_ids :: "client_call list \<Rightarrow> string list" where
  "executed_ids [] = []"
| "executed_ids (Executed request _ # calls) = er_id request # executed_ids calls"
| "executed_ids (Listed _ # calls) = executed_ids calls"

definition numbered :: "64 word \<Rightarrow> nat \<Rightarrow> string list" where
  "numbered n k = map (\<lambda>j. mcp_execution_id (n + word_of_nat j)) [0..<k]"

lemma numbered_0 [simp]: "numbered n 0 = []"
  by (simp add: numbered_def)

lemma numbered_Suc [simp]: "numbered n (Suc k) = mcp_execution_id n # numbered (n + 1) k"
proof -
  have "[0..<Suc k] = 0 # map Suc [0..<k]" by (metis map_Suc_upt upt_conv_Cons zero_less_Suc)
  then show ?thesis by (simp add: numbered_def comp_def add.assoc)
qed

lemma exchanges_Nil [simp]: "calls_of [] = []" "replies_of [] = []"
  by (simp_all add: calls_of_def replies_of_def List.map_filter_def)

lemma exchanges_Cons [simp]:
  "calls_of (x # xs) = (case ex_call x of None \<Rightarrow> calls_of xs | Some c \<Rightarrow> c # calls_of xs)"
  "replies_of (x # xs) = (case ex_reply x of None \<Rightarrow> replies_of xs | Some a \<Rightarrow> a # replies_of xs)"
  by (simp_all add: calls_of_def replies_of_def List.map_filter_def split: option.splits)

text \<open>One line per response.\<close>

definition lines_of :: "mcp_codec \<Rightarrow> rpc_response list \<Rightarrow> byte list \<Rightarrow> bool" where
  "lines_of cx rs bytes \<longleftrightarrow>
     (\<exists>payloads. map (mx_to_vec cx) rs = map Inr payloads \<and> bytes = concat (map (\<lambda>p. p @ [10]) payloads))"

lemma lines_of_Nil [simp]: "lines_of cx [] bytes \<longleftrightarrow> bytes = []"
  by (simp add: lines_of_def)

lemma lines_of_Cons:
  "lines_of cx (a # rs) bytes \<longleftrightarrow> (\<exists>p rest. mx_to_vec cx a = Inr p \<and> bytes = p @ [10] @ rest \<and> lines_of cx rs rest)"
  unfolding lines_of_def by (fastforce simp: Cons_eq_map_conv map_eq_Cons_conv)

text \<open>
  The ways the loop ends, \<open>bytes\<close> being what it has written over the exchanges and \<open>left\<close> the parsed lines it has not
  served: everything is served; the next line does not parse; the answer to the last message cannot be
  rendered; or writing it fails after a proper piece of its line.
\<close>

fun mcp_ending ::
  "mcp_codec \<Rightarrow> exchange list \<Rightarrow> byte list \<Rightarrow> (string + rpc_message) list \<Rightarrow> mcp_error + unit \<Rightarrow> bool"
where
  "mcp_ending cx xs bytes left (Inr _) \<longleftrightarrow> left = [] \<and> lines_of cx (replies_of xs) bytes"
| "mcp_ending cx xs bytes left (Inl (ME_Json e)) \<longleftrightarrow>
     (\<exists>rest. left = Inl e # rest \<and> lines_of cx (replies_of xs) bytes) \<or>
     (\<exists>ys y a. xs = ys @ [y] \<and> ex_reply y = Some a \<and> mx_to_vec cx a = Inl e \<and> lines_of cx (replies_of ys) bytes)"
| "mcp_ending cx xs bytes left (Inl (ME_Io e)) \<longleftrightarrow>
     (\<exists>ys y a payload written piece. xs = ys @ [y] \<and> ex_reply y = Some a \<and> mx_to_vec cx a = Inr payload \<and>
        lines_of cx (replies_of ys) written \<and> strict_prefix piece (payload @ [10]) \<and> bytes = written @ piece)"
| "mcp_ending cx xs bytes left (Inl _) \<longleftrightarrow> False"

text \<open>A run is over a list of exchanges, one for each of the first lines that are not blank.\<close>

definition mcp_run ::
  "mcp_codec \<Rightarrow> 'c execution_client \<Rightarrow> string list \<Rightarrow> 'c mcp_state \<Rightarrow> mcp_error + unit \<Rightarrow> 'c mcp_state \<Rightarrow> exchange list \<Rightarrow> bool"
where
  "mcp_run cx xc lines s r s' xs \<longleftrightarrow>
     (\<exists>left bytes.
        map (mx_from_str cx) (filter (\<lambda>line. trim line \<noteq> []) lines) = map (Inr \<circ> ex_message) xs @ left \<and>
        list_all (exchange_ok cx) xs \<and>
        client_runs xc (mp_client s) (calls_of xs) (mp_client s') \<and>
        executed_ids (calls_of xs) = numbered (mp_next_id s) (length (filter (calls_tool \<circ> ex_message) xs)) \<and>
        mp_next_id s' = mp_next_id s + word_of_nat (length (filter (calls_tool \<circ> ex_message) xs)) \<and>
        wr_bytes (mp_stdout s') = wr_bytes (mp_stdout s) @ bytes \<and>
        mcp_ending cx xs bytes left r)"

lemma mcp_ending_Cons:
  assumes "mcp_ending cx xs bytes left r"
    and "\<And>a. ex_reply x = Some a \<Longrightarrow> mx_to_vec cx a = Inr payload"
    and "written = (if ex_reply x = None then bytes else payload @ [10] @ bytes)"
  shows "mcp_ending cx (x # xs) written left r"
proof -
  have more: "lines_of cx (replies_of (x # ys)) (if ex_reply x = None then b else payload @ [10] @ b)"
    if "lines_of cx (replies_of ys) b" for ys b
    using that assms(2) by (auto simp: lines_of_Cons split: option.splits)
  show ?thesis
  proof (cases r)
    case (Inr u)
    with assms(1) more [of xs bytes] show ?thesis unfolding assms(3) by simp
  next
    case (Inl e)
    show ?thesis
    proof (cases e)
      case (ME_Json e')
      from assms(1) [unfolded Inl ME_Json] consider
        (line) rest where "left = Inl e' # rest" "lines_of cx (replies_of xs) bytes"
        | (last) ys y a where "xs = ys @ [y]" "ex_reply y = Some a" "mx_to_vec cx a = Inl e'" "lines_of cx (replies_of ys) bytes"
        by auto
      then show ?thesis
      proof cases
        case line
        with more [OF line(2)] show ?thesis unfolding Inl ME_Json assms(3) by simp
      next
        case last
        with more [OF last(4)] show ?thesis
          unfolding Inl ME_Json assms(3) mcp_ending.simps by (intro disjI2 exI [of _ "x # ys"]) simp
      qed
    next
      case (ME_Io e')
      from assms(1) [unfolded Inl ME_Io] obtain ys y a p w piece where i:
        "xs = ys @ [y]" "ex_reply y = Some a" "mx_to_vec cx a = Inr p" "lines_of cx (replies_of ys) w"
        "strict_prefix piece (p @ [10])" "bytes = w @ piece" by auto
      have "written = (if ex_reply x = None then w else payload @ [10] @ w) @ piece"
        by (simp add: assms(3) i(6))
      with i(1-3,5) more [OF i(4)] show ?thesis
        unfolding Inl ME_Io mcp_ending.simps
        by (intro exI [of _ "x # ys"] exI [of _ y] exI [of _ a] exI [of _ p] exI conjI) (assumption | simp)+
    qed (use assms(1) Inl in auto)
  qed
qed

text \<open>One message, up to its answer.\<close>

lemma tools_call_exchange:
  assumes "rm_id m = Some i" and "rm_method m = ''tools/call''" and "json_str (rm_params m) ''name'' = Some name"
    and "handle cx xc m s = (a, s')"
  shows "\<exists>request outcome. er_id request = mcp_execution_id (mp_next_id s) \<and>
    client_runs xc (mp_client s) [Executed request outcome] (mp_client s') \<and>
    exchange_ok cx \<lparr>ex_message = m, ex_call = Some (Executed request outcome), ex_reply = a\<rparr>"
proof -
  define arguments where "arguments = (case json_get (rm_params m) ''arguments'' of None \<Rightarrow> JObject [] | Some v \<Rightarrow> v)"
  define request where "request = \<lparr>er_id = mcp_execution_id (mp_next_id s), er_tool = name, er_arguments = arguments\<rparr>"
  obtain outcome c where run: "xc_execute xc request None (mp_client s) = (outcome, c)" by fastforce
  have called: "rpc_result cx xc (rm_method m) (rm_params m) =
      map_errI client_error_text (tools_call cx xc name arguments)"
    using assms by (simp add: rpc_result_def quiet_methods_def rpc_call_def arguments_def)
  have asked: "asked_for m request"
    using assms by (auto simp: asked_for_def request_def arguments_def split: option.splits)
  have wants: "wants_answer m" "calls_tool m"
    using assms by (simp_all add: wants_answer_def calls_tool_def quiet_methods_def)
  have "\<exists>response. mp_client s' = c \<and> a = Some response \<and> relays cx outcome response"
    using assms(1,4) run
    by (cases outcome)
      (auto simp: handle_def called map_errI_def tools_call_def Let_def request_def bindI_def on_client_def retI_def
        relays.simps rpc_ok_def rpc_err_def json_object_not_null json_str_def)
  then obtain response where r: "mp_client s' = c" "a = Some response" "relays cx outcome response" by blast
  from r run wants asked handle_frame(3) [OF assms(4) r(2)] show ?thesis
    by (intro exI [of _ request] exI [of _ outcome]) (auto simp: exchange_ok_def request_def)
qed

lemma tools_list_exchange:
  assumes "rm_id m = Some i" and "rm_method m = ''tools/list''" and "handle cx xc m s = (a, s')"
  shows "\<exists>outcome. client_runs xc (mp_client s) [Listed outcome] (mp_client s') \<and>
    exchange_ok cx \<lparr>ex_message = m, ex_call = Some (Listed outcome), ex_reply = a\<rparr>"
proof -
  obtain outcome c where run: "xc_list_tools xc (mp_client s) = (outcome, c)" by fastforce
  have called: "rpc_result cx xc (rm_method m) (rm_params m) = map_errI client_error_text (tools_list xc)"
    using assms by (simp add: rpc_result_def quiet_methods_def)
  have wants: "wants_answer m" "lists_tools m"
    using assms by (simp_all add: wants_answer_def lists_tools_def quiet_methods_def)
  have "\<exists>response. mp_client s' = c \<and> a = Some response \<and> relays_tools outcome response"
    using assms(1,3) run
    by (cases outcome)
      (auto simp: handle_def called map_errI_def tools_list_def bindI_def on_client_def retI_def
        relays_tools.simps rpc_ok_def rpc_err_def json_object_not_null json_str_def to_mcp_tool_def comp_def)
  then obtain response where r: "mp_client s' = c" "a = Some response" "relays_tools outcome response" by blast
  from r run wants handle_frame(3) [OF assms(3) r(2)] show ?thesis
    by (intro exI [of _ outcome]) (auto simp: exchange_ok_def)
qed

lemma own_exchange:
  assumes "handle cx xc m s = (a, s')" and "\<not> calls_tool m" and "\<not> lists_tools m"
  shows "mp_client s' = mp_client s \<and> exchange_ok cx \<lparr>ex_message = m, ex_call = None, ex_reply = a\<rparr>"
proof (cases "rm_id m")
  case None
  with assms show ?thesis by (auto simp: handle_def exchange_ok_def wants_answer_def)
next
  case (Some i)
  have result: "rpc_result cx xc (rm_method m) (rm_params m) s = (q, t) \<Longrightarrow>
      t = s \<and> (isl q \<or> q = Inr JNull \<longleftrightarrow> rm_method m \<notin> {''initialize'', ''ping''})" for q t
    using assms(2,3) Some
    by (auto simp: rpc_result_def rpc_call_def retI_def failI_def calls_tool_def lists_tools_def quiet_methods_def
        initialize_result_def json_object_not_null split: if_splits option.splits)
  obtain q t where q: "rpc_result cx xc (rm_method m) (rm_params m) s = (q, t)" by fastforce
  from result [OF q] q assms(1) Some
  have same: "s' = s" and error: "a = Some response \<Longrightarrow> rr_error response = None \<longleftrightarrow> rm_method m \<in> {''initialize'', ''ping''}"
    for response
    by (auto simp: handle_def rpc_ok_def rpc_err_def split: sum.splits if_splits)
  from same error assms(2,3) handle_frame(2,3) [OF assms(1)] show ?thesis
    by (cases a) (auto simp: exchange_ok_def)
qed

lemma handle_exchange:
  assumes "handle cx xc m s = (a, s')"
  obtains x where "ex_message x = m" "ex_reply x = a" "exchange_ok cx x"
    "client_runs xc (mp_client s) (calls_of [x]) (mp_client s')"
    "executed_ids (calls_of [x]) = numbered (mp_next_id s) (length (filter (calls_tool \<circ> ex_message) [x]))"
proof -
  have kinds: "\<not> (calls_tool m \<and> lists_tools m)" by (auto simp: calls_tool_def lists_tools_def)
  consider (call) "calls_tool m" | (list) "lists_tools m" | (own) "\<not> calls_tool m" "\<not> lists_tools m" by blast
  then show thesis
  proof cases
    case call
    then obtain i name where "rm_id m = Some i" "rm_method m = ''tools/call''" "json_str (rm_params m) ''name'' = Some name"
      by (auto simp: calls_tool_def)
    from tools_call_exchange [OF this assms] call show thesis
      by (elim exE conjE, intro that) (auto simp del: client_runs.simps)
  next
    case list
    then obtain i where "rm_id m = Some i" "rm_method m = ''tools/list''" by (auto simp: lists_tools_def)
    from tools_list_exchange [OF this assms] list kinds show thesis
      by (elim exE conjE, intro that) (auto simp del: client_runs.simps)
  next
    case own
    from own_exchange [OF assms own] own show thesis
      by (intro that [of "\<lparr>ex_message = m, ex_call = None, ex_reply = a\<rparr>"]) auto
  qed
qed

lemma client_runs_append:
  "client_runs xc c calls c1 \<Longrightarrow> client_runs xc c1 calls' c2 \<Longrightarrow> client_runs xc c (calls @ calls') c2"
  by (induction xc c calls c1 rule: client_runs.induct) (auto split: prod.splits)

lemma executed_ids_append [simp]: "executed_ids (calls @ calls') = executed_ids calls @ executed_ids calls'"
  by (induction calls rule: executed_ids.induct) simp_all

lemma calls_of_Cons: "calls_of (x # xs) = calls_of [x] @ calls_of xs"
  by (simp split: option.splits)

lemma send_response_cases:
  assumes "send_response cx a s = (q, s')"
  obtains (sent) payload where "q = Inr ()" "mx_to_vec cx a = Inr payload"
      "wr_bytes (mp_stdout s') = wr_bytes (mp_stdout s) @ payload @ [10]"
    | (unrendered) e where "q = Inl (ME_Json e)" "mx_to_vec cx a = Inl e" "mp_stdout s' = mp_stdout s"
    | (cut) e payload piece where "q = Inl (ME_Io e)" "mx_to_vec cx a = Inr payload"
      "strict_prefix piece (payload @ [10])" "wr_bytes (mp_stdout s') = wr_bytes (mp_stdout s) @ piece"
proof -
  have cut_prefix: "strict_prefix (take n bs) bs" if "\<not> length bs \<le> n" for n and bs :: "byte list"
    using that by (metis nat_le_linear length_take min.absorb2 strict_prefix_def take_is_prefix)
  show thesis
  proof (cases "mx_to_vec cx a")
    case (Inl e)
    with assms unrendered show thesis by (auto simp: send_response_def)
  next
    case (Inr payload)
    show thesis
    proof (cases "\<exists>n e. wr_limit (mp_stdout s) = Some (n, e) \<and> \<not> length (payload @ [10]) \<le> n")
      case True
      then obtain n e where "wr_limit (mp_stdout s) = Some (n, e)" "\<not> length (payload @ [10]) \<le> n" by blast
      then have "strict_prefix (take n (payload @ [10])) (payload @ [10])" "q = Inl (ME_Io (IoFailure e))"
        "wr_bytes (mp_stdout s') = wr_bytes (mp_stdout s) @ take n (payload @ [10])"
        using assms Inr cut_prefix [of "payload @ [10]" n] by (auto simp: send_response_def write_all_def)
      then show thesis using cut [OF _ Inr] by blast
    next
      case False
      with assms Inr sent show thesis
        by (auto simp: send_response_def write_all_def split: option.splits)
    qed
  qed
qed

lemma send_response_keeps:
  "send_response cx a s = (q, s') \<Longrightarrow> mp_client s' = mp_client s \<and> mp_next_id s' = mp_next_id s"
  by (auto simp: send_response_def split: sum.splits prod.splits)

lemma mcp_run_Cons:
  assumes "trim line \<noteq> []" and "mx_from_str cx line = Inr m" and "handle cx xc m s = (ex_reply x, s1)"
    and "ex_message x = m" and "exchange_ok cx x" and "client_runs xc (mp_client s) (calls_of [x]) (mp_client s1)"
    and "executed_ids (calls_of [x]) = numbered (mp_next_id s) (length (filter (calls_tool \<circ> ex_message) [x]))"
    and "mp_client s2 = mp_client s1" and "mp_next_id s2 = mp_next_id s1"
    and "wr_bytes (mp_stdout s2) = wr_bytes (mp_stdout s1) @ (if ex_reply x = None then [] else payload @ [10])"
    and "\<And>a. ex_reply x = Some a \<Longrightarrow> mx_to_vec cx a = Inr payload"
    and "mcp_run cx xc lines s2 r s' xs"
  shows "mcp_run cx xc (line # lines) s r s' (x # xs)"
proof -
  note frame = handle_frame(1,4) [OF assms(3)]
  from assms(12) obtain left bytes where run:
    "map (mx_from_str cx) (filter (\<lambda>line. trim line \<noteq> []) lines) = map (Inr \<circ> ex_message) xs @ left"
    "list_all (exchange_ok cx) xs" "client_runs xc (mp_client s2) (calls_of xs) (mp_client s')"
    "executed_ids (calls_of xs) = numbered (mp_next_id s2) (length (filter (calls_tool \<circ> ex_message) xs))"
    "mp_next_id s' = mp_next_id s2 + word_of_nat (length (filter (calls_tool \<circ> ex_message) xs))"
    "wr_bytes (mp_stdout s') = wr_bytes (mp_stdout s2) @ bytes" "mcp_ending cx xs bytes left r"
    unfolding mcp_run_def by blast
  let ?written = "if ex_reply x = None then bytes else payload @ [10] @ bytes"
  have "client_runs xc (mp_client s) (calls_of (x # xs)) (mp_client s')"
    using client_runs_append [OF assms(6)] run(3) assms(8) unfolding calls_of_Cons [of x xs] by simp
  moreover have "executed_ids (calls_of (x # xs)) =
      numbered (mp_next_id s) (length (filter (calls_tool \<circ> ex_message) (x # xs)))"
    using assms(4,7,9) run(4) frame unfolding calls_of_Cons [of x xs] executed_ids_append by simp
  moreover have "mp_next_id s' = mp_next_id s + word_of_nat (length (filter (calls_tool \<circ> ex_message) (x # xs)))"
    using assms(4,9) run(5) frame by simp
  moreover have "wr_bytes (mp_stdout s') = wr_bytes (mp_stdout s) @ ?written"
    using run(6) assms(10) frame by simp
  moreover have "mcp_ending cx (x # xs) ?written left r"
    using mcp_ending_Cons [OF run(7) assms(11) refl] .
  moreover have "map (mx_from_str cx) (filter (\<lambda>line. trim line \<noteq> []) (line # lines)) =
      map (Inr \<circ> ex_message) (x # xs) @ left"
    using run(1) assms(1,2,4) by simp
  ultimately show ?thesis
    unfolding mcp_run_def using run(2) assms(5)
    by (intro exI [of _ left] exI [of _ ?written] conjI) (assumption | simp)+
qed

lemma mcp_run_ends:
  assumes "trim line \<noteq> []" and "mx_from_str cx line = Inr m" and "handle cx xc m s = (ex_reply x, s1)"
    and "ex_message x = m" and "exchange_ok cx x" and "client_runs xc (mp_client s) (calls_of [x]) (mp_client s1)"
    and "executed_ids (calls_of [x]) = numbered (mp_next_id s) (length (filter (calls_tool \<circ> ex_message) [x]))"
    and "mp_client s' = mp_client s1" and "mp_next_id s' = mp_next_id s1"
    and "wr_bytes (mp_stdout s') = wr_bytes (mp_stdout s1) @ bytes"
    and "\<And>left. mcp_ending cx [x] bytes left r"
  shows "mcp_run cx xc (line # lines) s r s' [x]"
  using assms handle_frame(1,4) [OF assms(3)]
  unfolding mcp_run_def
  by (intro exI [of _ "map (mx_from_str cx) (filter (\<lambda>line. trim line \<noteq> []) lines)"] exI [of _ bytes])
    (simp del: mcp_ending.simps)

lemma mcp_loop_run: "mcp_loop cx xc lines s = (r, s') \<Longrightarrow> \<exists>xs. mcp_run cx xc lines s r s' xs"
proof (induction lines arbitrary: s)
  case Nil
  then show ?case by (intro exI [of _ "[]"]) (auto simp: retI_def mcp_run_def)
next
  case (Cons line lines)
  show ?case
  proof (cases "trim line = []")
    case True
    with Cons show ?thesis by (simp add: mcp_run_def)
  next
    case kept: False
    show ?thesis
    proof (cases "mx_from_str cx line")
      case (Inl e)
      with kept Cons.prems show ?thesis
        by (intro exI [of _ "[]"]) (auto simp: bindI_def liftE_def mcp_run_def)
    next
      case (Inr m)
      obtain a s1 where h: "handle cx xc m s = (a, s1)" by fastforce
      from handle_exchange [OF h] obtain x where x: "ex_message x = m" "ex_reply x = a" "exchange_ok cx x"
        "client_runs xc (mp_client s) (calls_of [x]) (mp_client s1)"
        "executed_ids (calls_of [x]) = numbered (mp_next_id s) (length (filter (calls_tool \<circ> ex_message) [x]))" .
      note served = mcp_run_Cons [OF kept Inr h [folded x(2)] x(1,3-5)]
      note ended = mcp_run_ends [OF kept Inr h [folded x(2)] x(1,3-5)]
      show ?thesis
      proof (cases a)
        case None
        with Cons.prems kept Inr h have "mcp_loop cx xc lines s1 = (r, s')" by (simp add: bindI_def liftE_def)
        with Cons.IH served [of s1 "[]"] x(2) None show ?thesis by fastforce
      next
        case (Some response)
        obtain q s2 where sent: "send_response cx response s1 = (q, s2)" by fastforce
        note keeps = send_response_keeps [OF sent]
        from Cons.prems kept Inr h Some sent
        have rest: "(case q of Inl e \<Rightarrow> r = Inl e \<and> s' = s2 | Inr _ \<Rightarrow> mcp_loop cx xc lines s2 = (r, s'))"
          by (auto simp: bindI_def liftE_def split: sum.splits)
        from sent show ?thesis
        proof (cases rule: send_response_cases)
          case (sent payload)
          with rest Cons.IH served [of s2 payload] keeps x(2) Some show ?thesis by fastforce
        next
          case (unrendered e)
          with rest ended [of s2 "[]" r] keeps x(2) Some show ?thesis by (auto intro: exI [of _ "[x]"])
        next
          case (cut e payload piece)
          with rest ended [of s2 piece r] keeps x(2) Some show ?thesis by fastforce
        qed
      qed
    qed
  qed
qed

text \<open>
  (C38) Answers match requests and calls. However its loop ends, the server has served the messages of the first lines
  that are not blank, each with one exchange. A message without an id and the two notifications are neither answered nor passed
  on. Every other is answered under its own id. A call of a tool is passed on as one execution of the
  tool and the arguments it names, a listing as one listing; nothing else reaches the client. The answer carries the error
  of the client, or the text and the error flag of the result, or the names of the tools; of the other messages exactly \<^verbatim>\<open>initialize\<close>
  and \<^verbatim>\<open>ping\<close> are answered with a result. The executions have the consecutive ids that begin at the counter, which has moved by
  as many. Without an error all lines are served and the output is one line for each answer, in order. The
  loop ends with an error only when the next line does not parse, all answers being written, when the answer to the last message
  cannot be rendered, or when writing it fails, which leaves a proper piece of its line behind those before it.
\<close>

theorem mcp_answers:
  assumes "mcp_loop cx xc lines s = (r, s')"
  shows "\<exists>xs left bytes.
    map (mx_from_str cx) (filter (\<lambda>line. trim line \<noteq> []) lines) = map (Inr \<circ> ex_message) xs @ left \<and>
    list_all (exchange_ok cx) xs \<and>
    client_runs xc (mp_client s) (calls_of xs) (mp_client s') \<and>
    executed_ids (calls_of xs) = numbered (mp_next_id s) (length (filter (calls_tool \<circ> ex_message) xs)) \<and>
    mp_next_id s' = mp_next_id s + word_of_nat (length (filter (calls_tool \<circ> ex_message) xs)) \<and>
    wr_bytes (mp_stdout s') = wr_bytes (mp_stdout s) @ bytes \<and>
    mcp_ending cx xs bytes left r"
  using mcp_loop_run [OF assms] unfolding mcp_run_def by blast


subsection \<open>A concrete run\<close>

definition demo_rpc :: rpc_message where
  "demo_rpc = \<lparr>rm_id = Some (JString ''1''), rm_method = ''tools/call'', rm_params = JObject [(''name'', JString ''Read'')]\<rparr>"

definition demo_codec :: mcp_codec where
  "demo_codec =
     \<lparr>mx_from_str = (\<lambda>line. if line = ''x'' then Inr demo_rpc else Inl ''expected value''),
      mx_pretty = (\<lambda>_. Some ''{}''), mx_to_vec = (\<lambda>_. Inr [7])\<rparr>"

definition demo_xc :: "string list execution_client" where
  "demo_xc =
     \<lparr>xc_execute = (\<lambda>request _ ids.
        (Inr \<lparr>res_execution_id = er_id request, res_tool = er_tool request, res_content = JNull, res_is_error = False\<rparr>,
         ids @ [er_id request])),
      xc_list_tools = (\<lambda>ids. (Inl Disconnected, ids))\<rparr>"

definition demo_mcp :: "string list mcp_state" where
  "demo_mcp = \<lparr>mp_client = [], mp_next_id = 1, mp_stdout = \<lparr>wr_bytes = [], wr_limit = None\<rparr>\<rparr>"

lemma demo_mcp_run:
  "mcp_loop demo_codec demo_xc [''x''] demo_mcp =
    (Inr (), \<lparr>mp_client = [''mcp-1''], mp_next_id = 2, mp_stdout = \<lparr>wr_bytes = [7, 10], wr_limit = None\<rparr>\<rparr>)"
  by code_simp

text \<open>The client that keeps the ids has been asked for exactly one execution, \<^verbatim>\<open>mcp-1\<close> of the tool \<^verbatim>\<open>Read\<close>.\<close>

theorem mcp_answers_witness:
  "\<exists>x request outcome response.
     exchange_ok demo_codec x \<and> ex_message x = demo_rpc \<and> ex_call x = Some (Executed request outcome) \<and>
     er_id request = ''mcp-1'' \<and> er_tool request = ''Read'' \<and> ex_reply x = Some response \<and> mx_to_vec demo_codec response = Inr [7]"
proof -
  have kept: "filter (\<lambda>line. trim line \<noteq> []) [''x''] = [''x'']" by code_simp
  have calls: "calls_tool demo_rpc" "json_str (rm_params demo_rpc) ''name'' = Some ''Read''" by code_simp+
  have first: "numbered (mp_next_id demo_mcp) 1 = [''mcp-1'']" by code_simp
  from mcp_answers [OF demo_mcp_run] kept obtain xs left where xs:
    "map (mx_from_str demo_codec) [''x''] = map (Inr \<circ> ex_message) xs @ left" "left = []"
    "list_all (exchange_ok demo_codec) xs"
    "executed_ids (calls_of xs) = numbered (mp_next_id demo_mcp) (length (filter (calls_tool \<circ> ex_message) xs))" by auto
  then obtain x where x: "xs = [x]" "ex_message x = demo_rpc" "exchange_ok demo_codec x"
    by (auto simp: demo_codec_def)
  with xs(4) calls first have ids: "executed_ids (calls_of [x]) = [''mcp-1'']" by simp
  then obtain request outcome where c: "ex_call x = Some (Executed request outcome)" "er_id request = ''mcp-1''"
    by (auto split: option.splits elim: executed_ids.elims)
  from x(3) c(1) calls(2) x(2) have "er_tool request = ''Read''" "ex_reply x \<noteq> None"
    by (auto simp: exchange_ok_def asked_for_def split: option.splits)
  with x c show ?thesis by (auto simp: demo_codec_def)
qed


section \<open>Where the server departs from JSON-RPC\<close>

text \<open>A line that does not parse ends the whole server instead of being answered with a parse error.\<close>

lemma bad_line_ends_server:
  "mx_from_str cx line = Inl e \<Longrightarrow> trim line \<noteq> [] \<Longrightarrow> mcp_loop cx xc (line # lines) s = (Inl (ME_Json e), s)"
  by (simp add: bindI_def liftE_def)

text \<open>An unknown method is answered with the code of an internal error, -32603, and not with -32601.\<close>

lemma unknown_method_code:
  assumes "rm_id m = Some i"
    and "rm_method m \<notin> {''initialize'', ''notifications/initialized'', ''notifications/cancelled'', ''ping'', ''tools/list'', ''tools/call''}"
  shows "handle cx xc m s = (Some (rpc_err i (-32603) (''method not found: '' @ rm_method m)), s)"
  using assms by (simp add: handle_def rpc_result_def quiet_methods_def failI_def)

text \<open>Execution ids are told apart by their numbers.\<close>

lemma mcp_execution_id_inj: "mcp_execution_id a = mcp_execution_id b \<longleftrightarrow> a = b"
proof
  assume "mcp_execution_id a = mcp_execution_id b"
  then have "read_nat (show_nat (unat a)) = read_nat (show_nat (unat b))" by (simp add: mcp_execution_id_def)
  then have "unat a = unat b" by (simp add: read_show_nat)
  then show "a = b" by (rule unsigned_word_eqI)
qed simp

end
