(* ===== verification/Packing.thy ===== *)
theory Packing
  imports Package
begin

text \<open>
  Building a package (\<^verbatim>\<open>pack_directory\<close> and \<^verbatim>\<open>ensure_safe_tree\<close> of \<^verbatim>\<open>executor-plugin/src/package.rs\<close>), on the tree of theory
  \<open>FileTree\<close>. The archive writer and the compressor are one parameter, a function from the directory to the bytes it has
  written and its result; \<open>decode\<close> is what the decompressor and the archive reader make of bytes.
\<close>

section \<open>The check of the tree\<close>

text \<open>A failing entry of the directory iterator counts as a failing \<^verbatim>\<open>symlink_metadata\<close> of the entry.\<close>

definition node_depth :: "nodes \<Rightarrow> nat" where
  "node_depth ns = foldr (\<lambda>x d. max (length (fst x)) d) ns 0"

lemma node_depth_bound: "map_of ns p = Some n \<Longrightarrow> length p \<le> node_depth ns"
  by (induction ns) (auto simp: node_depth_def split: if_splits)

lemma lstat_found: "fst (fs_call (fs_lstat p) t) = Inr n \<Longrightarrow> map_of (tr_nodes t) p = Some n"
  by (auto simp: fs_call_def take_fault_def fs_lstat_def result_simps split: list.splits fault.splits sum.splits option.splits)

lemma lstat_depth: "fst (fs_call (fs_lstat p) t) = Inr n \<Longrightarrow> length p \<le> node_depth (tr_nodes t)"
  using lstat_found node_depth_bound by blast

function safe_dir :: "nodes \<Rightarrow> path \<Rightarrow> fault list \<Rightarrow> (store_error + unit) \<times> fault list"
  and safe_names :: "nodes \<Rightarrow> path \<Rightarrow> string list \<Rightarrow> fault list \<Rightarrow> (store_error + unit) \<times> fault list"
where
  "safe_dir ns p faults =
     (case fs_call (fs_read_dir p) \<lparr>tr_nodes = ns, tr_faults = faults\<rparr> of
        (Inl e, t) \<Rightarrow> (Inl (SE_Io e), tr_faults t)
      | (Inr names, t) \<Rightarrow> safe_names ns p names (tr_faults t))"
| "safe_names ns p [] faults = (Inr (), faults)"
| "safe_names ns p (name # names) faults =
     (case fst (fs_call (fs_lstat (p @ [Normal name])) \<lparr>tr_nodes = ns, tr_faults = faults\<rparr>) of
        Inl e \<Rightarrow> (Inl (SE_Io e), tl faults)
      | Inr (NFile _ _) \<Rightarrow> safe_names ns p names (tl faults)
      | Inr (NDir _) \<Rightarrow>
          (case safe_dir ns (p @ [Normal name]) (tl faults) of
             (Inl e, f) \<Rightarrow> (Inl e, f)
           | (Inr _, f) \<Rightarrow> safe_names ns p names f)
      | Inr _ \<Rightarrow>
          (Inl (SE_Invalid (''package contains a link or special file: '' @ path_display (p @ [Normal name]))), tl faults))"
  by pat_completeness auto
termination
  by (relation "inv_image (less_than <*lex*> less_than <*lex*> less_than)
        (\<lambda>x. case x of Inl (ns, p, _) \<Rightarrow> (Suc (node_depth ns) - length p, 1, 0)
            | Inr (ns, p, names, _) \<Rightarrow> (Suc (node_depth ns) - length p, 0, length names))")
    (auto dest: lstat_depth)

declare safe_dir.simps [simp del]

definition ensure_safe_tree :: "path \<Rightarrow> unit store" where
  "ensure_safe_tree directory t =
     (case safe_dir (tr_nodes t) directory (tr_faults t) of (r, faults) \<Rightarrow> (r, t\<lparr>tr_faults := faults\<rparr>))"

text \<open>
  What has been written is part of the outcome, since the writer keeps it when packing fails.
\<close>

definition pack_directory ::
  "manifest_deps \<Rightarrow> (path \<Rightarrow> tree \<Rightarrow> ((fs_error + unit) \<times> string) \<times> tree) \<Rightarrow> path \<Rightarrow> tree \<Rightarrow> ((store_error + unit) \<times> string) \<times> tree"
where
  "pack_directory deps append_dir_all directory t =
     (case bindI (read_manifest deps directory) (\<lambda>manifest.
             bindI (liftE (map_err SE_Invalid (manifest_validate (mdep_version deps) (mdep_validator deps) manifest))) (\<lambda>_.
               ensure_safe_tree directory)) t of
        (Inl e, t') \<Rightarrow> ((Inl e, []), t')
      | (Inr _, t') \<Rightarrow>
          (case append_dir_all directory t' of ((r, written), t'') \<Rightarrow> ((map_err SE_Io r, written), t'')))"


section \<open>What the check finds\<close>

text \<open>Every place that is reached through directories only.\<close>

inductive reached :: "nodes \<Rightarrow> path \<Rightarrow> path \<Rightarrow> bool" for ns where
  reached_start: "reached ns p p"
| reached_step: "reached ns p q \<Longrightarrow> map_of ns q = Some (NDir m) \<Longrightarrow> reached ns p (q @ [Normal name])"

lemma reached_first:
  "reached ns p q \<Longrightarrow> q \<noteq> p \<Longrightarrow> \<exists>name m. map_of ns p = Some (NDir m) \<and> reached ns (p @ [Normal name]) q"
proof (induction rule: reached.induct)
  case (reached_step p q m name)
  show ?case
  proof (cases "q = p")
    case True
    have "reached ns (p @ [Normal name]) (q @ [Normal name])" unfolding True by (rule reached_start)
    with True reached_step.hyps(2) show ?thesis by blast
  next
    case False
    then obtain first n where "map_of ns p = Some (NDir n)" and r: "reached ns (p @ [Normal first]) q"
      using reached_step.IH by blast
    moreover from r reached_step.hyps(2) have "reached ns (p @ [Normal first]) (q @ [Normal name])"
      by (rule reached.reached_step)
    ultimately show ?thesis by blast
  qed
qed simp

lemma reached_exists:
  "reached ns p q \<Longrightarrow> map_of ns q = Some n \<Longrightarrow> \<exists>x. map_of ns p = Some x"
  by (cases "q = p") (auto dest: reached_first)

lemma in_dir_names: "map_of ns (p @ [Normal name]) = Some n \<Longrightarrow> name \<in> set (dir_names ns p)"
proof -
  assume "map_of ns (p @ [Normal name]) = Some n"
  then have "(p @ [Normal name], n) \<in> set ns" by (rule map_of_SomeD)
  moreover have "name \<in> set ((\<lambda>(q, _). case q of [] \<Rightarrow> [] | _ \<Rightarrow>
      (case last q of Normal n \<Rightarrow> if butlast q = p then [n] else [] | _ \<Rightarrow> [])) (p @ [Normal name], n))"
    by (cases p) simp_all
  ultimately show ?thesis unfolding dir_names_def set_concat set_map image_image by (rule UN_I)
qed

fun plain_node :: "node \<Rightarrow> bool" where
  "plain_node (NFile _ _) \<longleftrightarrow> True"
| "plain_node (NDir _) \<longleftrightarrow> True"
| "plain_node _ \<longleftrightarrow> False"

definition only_plain_below :: "nodes \<Rightarrow> path \<Rightarrow> bool" where
  "only_plain_below ns p \<longleftrightarrow> (\<forall>q n. reached ns p q \<longrightarrow> q \<noteq> p \<longrightarrow> map_of ns q = Some n \<longrightarrow> plain_node n)"

definition only_plain_child :: "nodes \<Rightarrow> path \<Rightarrow> string \<Rightarrow> bool" where
  "only_plain_child ns p name \<longleftrightarrow>
     (\<exists>n. map_of ns (p @ [Normal name]) = Some n \<and> plain_node n) \<and> only_plain_below ns (p @ [Normal name])"

lemma read_dir_found:
  "fs_call (fs_read_dir p) t = (Inr names, t') \<Longrightarrow> names = dir_names (tr_nodes t) p \<and> tr_nodes t' = tr_nodes t"
  by (auto simp: fs_call_def take_fault_def fs_read_dir_def split: list.splits fault.splits sum.splits option.splits node.splits)

lemma only_plain_below_children:
  assumes "list_all (only_plain_child ns p) (dir_names ns p)"
  shows "only_plain_below ns p"
  unfolding only_plain_below_def
proof (intro allI impI)
  fix q n assume q: "reached ns p q" "q \<noteq> p" "map_of ns q = Some n"
  obtain name where r: "reached ns (p @ [Normal name]) q" using reached_first q(1,2) by blast
  with q(3) in_dir_names [of ns p name] have "name \<in> set (dir_names ns p)" by (auto dest: reached_exists)
  with assms have c: "only_plain_child ns p name" by (simp add: list_all_iff)
  show "plain_node n"
  proof (cases "q = p @ [Normal name]")
    case True
    with c q(3) show ?thesis by (auto simp: only_plain_child_def)
  next
    case False
    with c r q(3) show ?thesis unfolding only_plain_child_def only_plain_below_def by blast
  qed
qed

lemma only_plain_below_file: "map_of ns p = Some (NFile c m) \<Longrightarrow> only_plain_below ns p"
  by (auto simp: only_plain_below_def dest: reached_first)

lemma safe_dir_plain:
  "safe_dir ns p faults = (Inr u, f) \<Longrightarrow> only_plain_below ns p"
  "safe_names ns p names faults = (Inr u, f) \<Longrightarrow> list_all (only_plain_child ns p) names"
proof (induction ns p faults and ns p names faults arbitrary: u f and u f rule: safe_dir_safe_names.induct)
  case (1 ns p faults)
  then show ?case by (auto simp: safe_dir.simps [of ns] split: prod.splits sum.splits dest!: read_dir_found intro: only_plain_below_children)
next
  case (2 ns p faults)
  then show ?case by simp
next
  case (3 ns p name names faults)
  let ?l = "fst (fs_call (fs_lstat (p @ [Normal name])) \<lparr>tr_nodes = ns, tr_faults = faults\<rparr>)"
  show ?case
  proof (cases ?l)
    case (Inl e)
    with 3 show ?thesis by simp
  next
    case (Inr n)
    with lstat_found have found: "map_of ns (p @ [Normal name]) = Some n" by fastforce
    show ?thesis
    proof (cases n)
      case (NFile c m)
      with 3 Inr found show ?thesis by (auto simp: only_plain_child_def dest: only_plain_below_file)
    next
      case (NDir m)
      with 3 Inr found show ?thesis
        by (auto simp: only_plain_child_def split: prod.splits sum.splits)
    qed (use 3 Inr in auto)
  qed
qed


section \<open>What is packed is accepted\<close>

text \<open>
  The documented behaviour of \<^verbatim>\<open>append_dir_all(".", directory)\<close>: every entry is a file or a directory below the directory (or the directory
  itself), with its data, under its relative path, and the file \<^verbatim>\<open>tool.json\<close> is among them. The \<^verbatim>\<open>tar\<close> crate
  leaves a leading \<^verbatim>\<open>./\<close> out of the header of all but the directory itself; nothing here depends on whether it does.
\<close>

definition below_dot :: "string \<Rightarrow> path" where
  "below_dot s = (case path_components s of CurDir # cs \<Rightarrow> cs | cs \<Rightarrow> cs)"

definition entry_of :: "nodes \<Rightarrow> path \<Rightarrow> tar_entry \<Rightarrow> bool" where
  "entry_of ns directory e \<longleftrightarrow>
     te_error e = None \<and>
     (case te_path e of
        Inl _ \<Rightarrow> False
      | Inr s \<Rightarrow>
          s \<noteq> [] \<and> list_all is_normal (below_dot s) \<and>
          (case map_of ns (directory @ below_dot s) of
             Some (NFile data _) \<Rightarrow> te_kind e = EntryFile \<and> te_data e = data
           | Some (NDir _) \<Rightarrow> te_kind e = EntryDir
           | _ \<Rightarrow> False))"

definition manifest_entry :: "tar_entry \<Rightarrow> bool" where
  "manifest_entry e \<longleftrightarrow>
     te_kind e = EntryFile \<and> (case te_path e of Inl _ \<Rightarrow> False | Inr s \<Rightarrow> below_dot s = tool_json)"

definition archive_of :: "nodes \<Rightarrow> path \<Rightarrow> archive \<Rightarrow> bool" where
  "archive_of ns directory archive \<longleftrightarrow>
     (case archive of
        Inl _ \<Rightarrow> False
      | Inr items \<Rightarrow>
          list_all (\<lambda>i. case i of Inl _ \<Rightarrow> False | Inr e \<Rightarrow> entry_of ns directory e) items \<and>
          list_ex (\<lambda>i. case i of Inl _ \<Rightarrow> False | Inr e \<Rightarrow> manifest_entry e) items)"

lemma stripped_below_dot:
  "(case strip_prefix (path_components s) [CurDir] of Some q \<Rightarrow> q | None \<Rightarrow> path_components s) = below_dot s"
  by (auto simp: below_dot_def strip_prefix_def split: list.split path_component.split)

lemma is_tool_json_below: "is_tool_json e s \<longleftrightarrow> te_kind e = EntryFile \<and> below_dot s = tool_json"
  by (simp add: is_tool_json_def stripped_below_dot tool_json_def)

lemma normals_safe:
  assumes "s \<noteq> []" and "list_all is_normal (below_dot s)"
  shows "safe_relative s"
proof -
  have "is_plain c" if "is_normal c" for c using that by (cases c) (simp_all add: is_plain_def)
  with assms(2) have "list_all is_plain (below_dot s)" by (simp add: list_all_iff)
  then have "list_all is_plain (path_components s)"
    by (auto simp: below_dot_def is_plain_def split: list.splits path_component.splits)
  with assms(1) show ?thesis by (simp add: safe_relative_def)
qed

lemma entry_of_accepted:
  assumes "entry_of ns directory e"
  obtains s where "entry_path e = Inr s" "te_path e = Inr s"
    "is_tool_json e s \<Longrightarrow> \<exists>m. map_of ns (directory @ tool_json) = Some (NFile (te_data e) m)"
proof -
  from assms obtain s where p: "te_path e = Inr s" "s \<noteq> []" "list_all is_normal (below_dot s)" "te_kind e \<noteq> EntryOther"
    "te_kind e = EntryFile \<Longrightarrow> \<exists>m. map_of ns (directory @ below_dot s) = Some (NFile (te_data e) m)"
    by (auto simp: entry_of_def split: sum.splits option.splits node.splits)
  then have "entry_path e = Inr s" using normals_safe by (simp add: entry_path_def)
  moreover have "\<exists>m. map_of ns (directory @ tool_json) = Some (NFile (te_data e) m)" if "is_tool_json e s"
    using that p(5) by (simp add: is_tool_json_below)
  ultimately show ?thesis using that p(1) by blast
qed

lemma manifest_entry_found: "manifest_entry e \<Longrightarrow> \<exists>s. te_path e = Inr s \<and> is_tool_json e s"
  by (auto simp: manifest_entry_def is_tool_json_below split: sum.splits)

lemma read_manifest_found:
  assumes "read_manifest deps directory t = (Inr m, t')"
  shows "tr_nodes t' = tr_nodes t \<and> (\<exists>c k. map_of (tr_nodes t) (directory @ tool_json) = Some (NFile c k) \<and>
    valid_utf8 c \<and> parse_manifest deps c = Inr m)"
proof -
  have "path_join directory tool_json = directory @ tool_json"
    by (simp add: path_join_def tool_json_path is_absolute_def)
  with assms show ?thesis
    by (auto simp: read_manifest_def fs_def fs_call_def take_fault_def fs_read_to_string_def fs_read_def result_simps
        split: prod.splits list.splits fault.splits sum.splits option.splits node.splits if_splits)
qed

text \<open>Scanning the entries finds the manifest of the directory, as often as its file occurs.\<close>

lemma validate_packed:
  assumes "map_of ns (directory @ tool_json) = Some (NFile c k)" and "length c \<le> 1048576" and "valid_utf8 c"
    and "parse_manifest deps c = Inr m"
  shows "list_all (\<lambda>i. case i of Inl _ \<Rightarrow> False | Inr e \<Rightarrow> entry_of ns directory e) items \<Longrightarrow>
    validate_entries deps items found =
      Inr (if list_ex (\<lambda>i. case i of Inl _ \<Rightarrow> False | Inr e \<Rightarrow> \<exists>s. te_path e = Inr s \<and> is_tool_json e s) items then Some m else found)"
proof (induction items arbitrary: found)
  case Nil
  then show ?case by simp
next
  case (Cons i items)
  then obtain e where i: "i = Inr e" and e: "entry_of ns directory e" by (cases i) auto
  from entry_of_accepted [OF e] obtain s where s: "entry_path e = Inr s" "te_path e = Inr s"
    "is_tool_json e s \<Longrightarrow> \<exists>m. map_of ns (directory @ tool_json) = Some (NFile (te_data e) m)" by blast
  show ?case
  proof (cases "is_tool_json e s")
    case True
    with s(3) assms(1) have data: "te_data e = c" by simp
    have "te_error e = None" using e by (simp add: entry_of_def)
    with data assms(2,3) have "read_entry 1048577 e = Inr c" by (simp add: read_entry_def)
    with True i s Cons assms(2,4) show ?thesis by (auto simp: bindE_def)
  next
    case False
    with i s Cons show ?thesis by (auto simp: bindE_def)
  qed
qed

definition packs :: "(path \<Rightarrow> tree \<Rightarrow> ((fs_error + unit) \<times> string) \<times> tree) \<Rightarrow> (string \<Rightarrow> archive) \<Rightarrow> path \<Rightarrow> bool" where
  "packs append_dir_all decode directory \<longleftrightarrow>
     (\<forall>t written t'. append_dir_all directory t = ((Inr (), written), t') \<longrightarrow> only_plain_below (tr_nodes t) directory \<longrightarrow>
        (\<exists>c k. map_of (tr_nodes t) (directory @ tool_json) = Some (NFile c k)) \<longrightarrow>
        archive_of (tr_nodes t) directory (decode written))"

lemma list_ex_mono: "list_ex P xs \<Longrightarrow> (\<And>x. P x \<Longrightarrow> Q x) \<Longrightarrow> list_ex Q xs"
  by (auto simp: list_ex_iff)

lemma validate_archive_of:
  assumes "archive_of ns directory archive" and "map_of ns (directory @ tool_json) = Some (NFile c k)"
    and "length c \<le> 1048576" and "valid_utf8 c" and "parse_manifest deps c = Inr m"
  shows "validate_package deps archive = Inr m"
proof -
  from assms(1) obtain items where a: "archive = Inr items"
    and e: "list_all (\<lambda>i. case i of Inl _ \<Rightarrow> False | Inr e \<Rightarrow> entry_of ns directory e) items"
    and f: "list_ex (\<lambda>i. case i of Inl _ \<Rightarrow> False | Inr e \<Rightarrow> manifest_entry e) items"
    by (auto simp: archive_of_def split: sum.splits)
  from f have "list_ex (\<lambda>i. case i of Inl _ \<Rightarrow> False | Inr e \<Rightarrow> \<exists>s. te_path e = Inr s \<and> is_tool_json e s) items"
    by (rule list_ex_mono) (auto dest: manifest_entry_found split: sum.splits)
  with validate_packed [OF assms(2-5) e] a show ?thesis by (simp add: validate_package_def bindE_def ok_or_def)
qed

text \<open>
  (C37) What is packed is accepted. When packing a directory succeeds, there is no link and no special file in it, and the
  package, read back, passes the validation with the very manifest of the directory, as long as \<^verbatim>\<open>tool.json\<close> is within the
  1 MiB that the validation reads. Of the archive writer and the decompressor it is only assumed that what is read back is
  the entries of the directory.
\<close>

theorem pack_accepted:
  assumes "pack_directory deps append_dir_all directory t = ((Inr (), written), t')"
    and "packs append_dir_all decode directory"
    and "\<forall>c k. map_of (tr_nodes t) (directory @ tool_json) = Some (NFile c k) \<longrightarrow> length c \<le> 1048576"
  shows "only_plain_below (tr_nodes t) directory \<and>
    (\<exists>m. fst (read_manifest deps directory t) = Inr m \<and> validate_package deps (decode written) = Inr m)"
proof -
  from assms(1) obtain m t1 t2 where m: "read_manifest deps directory t = (Inr m, t1)"
    and safe: "ensure_safe_tree directory t1 = (Inr (), t2)" and a: "append_dir_all directory t2 = ((Inr (), written), t')"
    by (auto simp: pack_directory_def bindI_def liftE_def map_err_def split: prod.splits sum.splits)
  from read_manifest_found [OF m] obtain c k where c: "tr_nodes t1 = tr_nodes t"
    "map_of (tr_nodes t) (directory @ tool_json) = Some (NFile c k)" "valid_utf8 c" "parse_manifest deps c = Inr m" by blast
  from safe have plain: "only_plain_below (tr_nodes t1) directory" and t2: "tr_nodes t2 = tr_nodes t1"
    by (auto simp: ensure_safe_tree_def split: prod.splits dest: safe_dir_plain)
  with assms(2) a c have "archive_of (tr_nodes t) directory (decode written)" unfolding packs_def by metis
  from validate_archive_of [OF this c(2) _ c(3,4)] assms(3) c(2) have "validate_package deps (decode written) = Inr m" by blast
  with plain c(1) m show ?thesis by auto
qed

definition demo_src :: tree where
  "demo_src =
     \<lparr>tr_nodes = [([RootDir], NDir 0x1ED), (demo_root, NDir 0x1ED), (demo_root @ tool_json, NFile ''x'' 0x1A4)], tr_faults = []\<rparr>"

text \<open>A writer for directories that hold only their manifest: it writes the text of the manifest.\<close>

definition demo_append :: "path \<Rightarrow> tree \<Rightarrow> ((fs_error + unit) \<times> string) \<times> tree" where
  "demo_append directory t =
     (case (is_dir_node (tr_nodes t) directory, dir_names (tr_nodes t) directory, map_of (tr_nodes t) (directory @ tool_json)) of
        (True, [_], Some (NFile c _)) \<Rightarrow> ((Inr (), c), t)
      | _ \<Rightarrow> ((Inl (io_error_of ''unsupported''), []), t))"

definition demo_decode :: "string \<Rightarrow> archive" where
  "demo_decode written =
     Inr [Inr \<lparr>te_kind = EntryDir, te_path = Inr ''./'', te_data = [], te_error = None\<rparr>,
          Inr \<lparr>te_kind = EntryFile, te_path = Inr ''tool.json'', te_data = written, te_error = None\<rparr>]"

lemma demo_pack: "case pack_directory demo_deps demo_append demo_root demo_src of ((r, w), t') \<Rightarrow> r = Inr () \<and> w = ''x''"
  by code_simp

lemma demo_below: "below_dot ''./'' = []" "below_dot ''tool.json'' = tool_json" "list_all is_normal tool_json"
  by code_simp+

lemma demo_packs: "packs demo_append demo_decode directory"
  unfolding packs_def
proof (intro allI impI)
  fix t written t'
  assume "demo_append directory t = ((Inr (), written), t')"
  then obtain k where "is_dir_node (tr_nodes t) directory" "map_of (tr_nodes t) (directory @ tool_json) = Some (NFile written k)"
    by (auto simp: demo_append_def split: bool.splits list.splits option.splits node.splits)
  then show "archive_of (tr_nodes t) directory (demo_decode written)"
    by (auto simp: archive_of_def demo_decode_def entry_of_def manifest_entry_def demo_below is_dir_node_def
        split: option.splits node.splits)
qed

theorem pack_accepted_witness:
  "only_plain_below (tr_nodes demo_src) demo_root \<and>
   (\<exists>m. validate_package demo_deps (demo_decode ''x'') = Inr m)"
proof -
  have "map_of (tr_nodes demo_src) (demo_root @ tool_json) = Some (NFile ''x'' 0x1A4)" by code_simp
  then have "\<forall>c k. map_of (tr_nodes demo_src) (demo_root @ tool_json) = Some (NFile c k) \<longrightarrow> length c \<le> 1048576" by simp
  moreover obtain t' where "pack_directory demo_deps demo_append demo_root demo_src = ((Inr (), ''x''), t')"
    using demo_pack by (auto split: prod.splits)
  ultimately show ?thesis using pack_accepted [OF _ demo_packs] by blast
qed

text \<open>
  Packing does not look at the size: a directory whose manifest is larger than 1 MiB is packed, and no validation accepts the
  package.
\<close>

lemma large_manifest_refused:
  assumes "archive_of ns directory archive" and "map_of ns (directory @ tool_json) = Some (NFile c k)"
    and "1048576 < length c"
  shows "\<exists>e. validate_package deps archive = Inl e"
proof -
  have refused: "list_all (\<lambda>i. case i of Inl _ \<Rightarrow> False | Inr e \<Rightarrow> entry_of ns directory e) items \<Longrightarrow>
      list_ex (\<lambda>i. case i of Inl _ \<Rightarrow> False | Inr e \<Rightarrow> \<exists>s. te_path e = Inr s \<and> is_tool_json e s) items \<Longrightarrow>
      \<exists>x. validate_entries deps items found = Inl x" for items found
  proof (induction items arbitrary: found)
    case (Cons i items)
    then obtain e where i: "i = Inr e" and e: "entry_of ns directory e" by (cases i) auto
    from entry_of_accepted [OF e] obtain s where s: "entry_path e = Inr s" "te_path e = Inr s"
      "is_tool_json e s \<Longrightarrow> \<exists>m. map_of ns (directory @ tool_json) = Some (NFile (te_data e) m)" by blast
    show ?case
    proof (cases "is_tool_json e s")
      case True
      with s(3) assms(2) have "te_data e = c" by simp
      with assms(3) have "\<exists>x. bindE (read_entry 1048577 e) (\<lambda>raw. if 1048576 < length raw then Inl (SE_Invalid ''tool.json exceeds 1 MiB'')
          else bindE (map_err SE_Invalid (parse_manifest deps raw)) (\<lambda>m. validate_entries deps items (Some m))) = Inl x"
        by (auto simp: read_entry_def Let_def bindE_def split: option.splits)
      with True i s show ?thesis by (simp add: bindE_def)
    next
      case False
      with i s Cons show ?thesis by (auto simp: bindE_def)
    qed
  qed simp
  from assms(1) obtain items where a: "archive = Inr items"
    and e: "list_all (\<lambda>i. case i of Inl _ \<Rightarrow> False | Inr e \<Rightarrow> entry_of ns directory e) items"
    and f: "list_ex (\<lambda>i. case i of Inl _ \<Rightarrow> False | Inr e \<Rightarrow> manifest_entry e) items"
    by (auto simp: archive_of_def split: sum.splits)
  from f have "list_ex (\<lambda>i. case i of Inl _ \<Rightarrow> False | Inr e \<Rightarrow> \<exists>s. te_path e = Inr s \<and> is_tool_json e s) items"
    by (rule list_ex_mono) (auto dest: manifest_entry_found split: sum.splits)
  from refused [OF e this] obtain x where "validate_entries deps items None = Inl x" by blast
  with a show ?thesis by (simp add: validate_package_def bindE_def)
qed

end
