(* ===== verification/Cli.thy ===== *)
theory Cli
  imports Packing Config
begin

text \<open>
  The command line client \<^verbatim>\<open>ate\<close> (\<^verbatim>\<open>ate-cli/src/main.rs\<close>) and the commands of the daemon it runs inside WSL
  (\<^verbatim>\<open>main\<close> and \<^verbatim>\<open>manage_tools\<close> of \<^verbatim>\<open>wsl-executor-daemon/src/main.rs\<close>). The file system is the tree of theory \<open>FileTree\<close>; the
  processes started are recorded with what they were fed, and how they end is a parameter, as are the tar and gzip crates and
  \<^verbatim>\<open>serde_json\<close>.
\<close>

section \<open>Arguments\<close>

definition cli_required :: "string list \<Rightarrow> nat \<Rightarrow> string \<Rightarrow> string + string" where
  "cli_required args index message =
     (if index < length args \<and> \<not> prefix ''--'' (args ! index) then Inr (args ! index) else Inl message)"

definition cli_option :: "string list \<Rightarrow> string \<Rightarrow> string option" where
  "cli_option args name = map_option snd (find (\<lambda>(a, b). a = name) (zip args (tl args)))"

definition validate_cli_id :: "string \<Rightarrow> string + unit" where
  "validate_cli_id value =
     (if length value \<le> 128 \<and> 2 \<le> length (split_on CHR ''.'' value) \<and>
         list_all (\<lambda>part. part \<noteq> [] \<and> list_all (\<lambda>b. is_ascii_lowercase b \<or> is_ascii_digit b \<or> b = CHR ''-'') part)
           (split_on CHR ''.'' value)
      then Inr () else Inl ''invalid plugin id'')"

definition cli_usage :: string where
  "cli_usage = ''usage: ate tool <pack|validate|install|list|enable|disable|remove> ...''"

definition wsl_command :: "string \<Rightarrow> string \<Rightarrow> string list" where
  "wsl_command distribution script = [''--distribution'', distribution, ''--exec'', ''sh'', ''-lc'', script]"

text \<open>What every script starts with, and the script of an operation on the plugins.\<close>

definition exec_daemon :: string where
  \<open>exec_daemon = ''exec "$HOME/.local/bin/ate-daemon" tool ''\<close>

definition manage_script :: "string \<Rightarrow> string option \<Rightarrow> string" where
  "manage_script operation i =
     (case i of Some i \<Rightarrow> exec_daemon @ operation @ '' '' @ i | None \<Rightarrow> exec_daemon @ operation)"

definition install_script :: "bool \<Rightarrow> string" where
  "install_script replace = (if replace then exec_daemon @ ''install --replace'' else exec_daemon @ ''install'')"


section \<open>The client\<close>

text \<open>The processes started, each with what reached its standard input (\<open>None\<close> when it has that of the client).\<close>

record cli_world =
  cw_tree :: tree
  cw_started :: "(string list \<times> string option) list"

text \<open>
  \<open>ce_spawn\<close>: why \<^verbatim>\<open>wsl.exe\<close> could not be started, if so; \<open>ce_pipe\<close>: how much of the bytes the process takes,
  and the error if it does not take them all; \<open>ce_wait\<close>: whether it succeeded, and the status as text.
\<close>

record cli_env =
  ce_deps :: manifest_deps
  ce_append_dir_all :: "path \<Rightarrow> tree \<Rightarrow> ((fs_error + unit) \<times> string) \<times> tree"
  ce_decode :: "string \<Rightarrow> archive"
  ce_spawn :: "string list \<Rightarrow> string option"
  ce_pipe :: "string \<Rightarrow> (string + unit) \<times> string"
  ce_wait :: "string list \<Rightarrow> string option \<Rightarrow> string + bool \<times> string"
  ce_pretty :: "plugin_manifest \<Rightarrow> string + string"

definition on_tree :: "(tree, 'e, 'a) io \<Rightarrow> (cli_world, 'e, 'a) io" where
  "on_tree m w = (case m (cw_tree w) of (r, t) \<Rightarrow> (r, w\<lparr>cw_tree := t\<rparr>))"

definition cli_fs :: "(nodes \<Rightarrow> fs_error + 'a \<times> nodes) \<Rightarrow> (cli_world, string, 'a) io" where
  "cli_fs f = on_tree (\<lambda>t. case fs_call f t of (r, t') \<Rightarrow> (map_err fe_text r, t'))"

definition started :: "string list \<Rightarrow> string option \<Rightarrow> cli_world \<Rightarrow> cli_world" where
  "started command fed w = w\<lparr>cw_started := cw_started w @ [(command, fed)]\<rparr>"

definition ensure_success :: "bool \<times> string \<Rightarrow> string + unit" where
  "ensure_success status = (if fst status then Inr () else Inl (''WSL command exited with '' @ snd status))"

definition validate_source :: "cli_env \<Rightarrow> path \<Rightarrow> (cli_world, string, plugin_manifest) io" where
  "validate_source env p w =
     (if dir_at (cw_tree w) p then
        bindI (cli_fs (fs_read_to_string (path_join p tool_json))) (\<lambda>raw.
          liftE (map_err (\<lambda>e. ''invalid manifest: '' @ e) (parse_manifest (ce_deps env) raw)))
      else
        bindI (cli_fs (fs_read p)) (\<lambda>bytes.
          liftE (map_err store_error_text (validate_package (ce_deps env) (ce_decode env bytes))))) w"

text \<open>What \<^verbatim>\<open>install\<close> sends to the process: the directory packed, or the file as it is.\<close>

definition feed :: "cli_env \<Rightarrow> path \<Rightarrow> cli_world \<Rightarrow> ((string + unit) \<times> string) \<times> cli_world" where
  "feed env p w =
     (if dir_at (cw_tree w) p then
        (case pack_directory (ce_deps env) (ce_append_dir_all env) p (cw_tree w) of
           ((r, sent), t) \<Rightarrow> ((map_err store_error_text r, sent), w\<lparr>cw_tree := t\<rparr>))
      else
        (case cli_fs (fs_read p) w of
           (Inl e, w') \<Rightarrow> ((Inl e, []), w')
         | (Inr bytes, w') \<Rightarrow> (ce_pipe env bytes, w')))"

definition cli_install :: "cli_env \<Rightarrow> string list \<Rightarrow> (cli_world, string, unit) io" where
  "cli_install env args =
     bindI (liftE (cli_required args 2 ''install requires a directory or .atepkg'')) (\<lambda>source.
     let p = path_components source in
     bindI (validate_source env p) (\<lambda>_.
     let distribution = (case cli_option args ''--distribution'' of None \<Rightarrow> ''Ubuntu'' | Some d \<Rightarrow> d);
         command = wsl_command distribution (install_script (''--replace'' \<in> set args)) in
     case ce_spawn env command of
       Some e \<Rightarrow> failI e
     | None \<Rightarrow>
         (\<lambda>w. case feed env p w of
            ((Inl e, sent), w') \<Rightarrow> (Inl e, started command (Some sent) w')
          | ((Inr _, sent), w') \<Rightarrow>
              (bindE (ce_wait env command (Some sent)) ensure_success, started command (Some sent) w'))))"

definition cli_manage :: "cli_env \<Rightarrow> string \<Rightarrow> string list \<Rightarrow> (cli_world, string, unit) io" where
  "cli_manage env operation args =
     (let distribution = (case cli_option args ''--distribution'' of None \<Rightarrow> ''Ubuntu'' | Some d \<Rightarrow> d) in
      bindI (liftE (if operation = ''list'' then Inr None
                    else bindE (cli_required args 2 ''operation requires a plugin id'') (\<lambda>i. Inr (Some i)))) (\<lambda>i.
      bindI (liftE (case i of None \<Rightarrow> Inr () | Some i \<Rightarrow> validate_cli_id i)) (\<lambda>_.
        let command = wsl_command distribution (manage_script operation i) in
        case ce_spawn env command of
          Some e \<Rightarrow> failI e
        | None \<Rightarrow> (\<lambda>w. (bindE (ce_wait env command None) ensure_success, started command None w)))))"

text \<open>The output file is created before the directory is looked at, and keeps what was written when packing fails.\<close>

definition cli_pack :: "cli_env \<Rightarrow> string list \<Rightarrow> (cli_world, string, unit) io" where
  "cli_pack env args =
     bindI (liftE (cli_required args 2 ''pack requires a directory'')) (\<lambda>source.
     bindI (liftE (ok_or ''pack requires --output <file>'' (cli_option args ''--output''))) (\<lambda>output.
     bindI (cli_fs (fs_create_file (path_components output))) (\<lambda>_ w.
       (case pack_directory (ce_deps env) (ce_append_dir_all env) (path_components source) (cw_tree w) of
          ((r, written), t) \<Rightarrow>
            (map_err store_error_text r,
             w\<lparr>cw_tree := t\<lparr>tr_nodes := append_data (path_components output) written (tr_nodes t)\<rparr>\<rparr>)))))"

text \<open>The client as a whole, with the text it prints.\<close>

definition cli_run :: "cli_env \<Rightarrow> string list \<Rightarrow> (cli_world, string, string) io" where
  "cli_run env args =
     (if take 1 args \<noteq> [''tool''] \<or> length args < 2 then failI cli_usage
      else if args ! 1 = ''pack'' then bindI (cli_pack env args) (\<lambda>_. retI [])
      else if args ! 1 = ''validate'' then
        bindI (liftE (cli_required args 2 ''validate requires a directory or .atepkg'')) (\<lambda>source.
        bindI (validate_source env (path_components source)) (\<lambda>manifest.
        bindI (liftE (ce_pretty env manifest)) (\<lambda>shown. retI (shown @ [CHR 0x0A]))))
      else if args ! 1 = ''install'' then bindI (cli_install env args) (\<lambda>_. retI [])
      else if args ! 1 \<in> {''list'', ''enable'', ''disable'', ''remove''}
      then bindI (cli_manage env (args ! 1) args) (\<lambda>_. retI [])
      else failI cli_usage)"


section \<open>The commands of the daemon\<close>

datatype daemon_command =
    RunTool
  | RunServe
  | RunEnsureRunning "string list"
  | RunStatus
  | RunStop
  | RunStdio
  | RunUnknown string

text \<open>The dispatch of \<^verbatim>\<open>main\<close>; \<open>argv\<close> is the command line with the program first.\<close>

definition daemon_command_of :: "string list \<Rightarrow> daemon_command" where
  "daemon_command_of argv =
     (let args = drop 1 argv; command = command_of args in
      if command = ''tool'' then RunTool
      else if command = ''serve'' then RunServe
      else if command = ''ensure-running'' \<or> command = ''start'' then RunEnsureRunning (config_args args)
      else if command = ''status'' then RunStatus
      else if command = ''stop'' then RunStop
      else if command = ''stdio'' then RunStdio
      else RunUnknown command)"

datatype manage_output =
    InstalledPlugin installed_plugin
  | ListedPlugins "installed_plugin list" "string list"
  | ChangedPlugin string

text \<open>\<open>n1\<close>, \<open>n2\<close> are the clock readings, \<open>pid\<close> the process id, \<open>archive\<close> what the standard input decodes to.\<close>

definition manage_store ::
  "manifest_deps \<Rightarrow> string option \<Rightarrow> nat \<Rightarrow> nat \<Rightarrow> nat \<Rightarrow> path \<Rightarrow> archive \<Rightarrow> string list \<Rightarrow> (tree, string, manage_output) io"
where
  "manage_store deps path_var pid n1 n2 root archive args =
     (let store = \<lambda>m t. (case m t of (r, t') \<Rightarrow> (map_err store_error_text r, t')) in
      case args of
        [] \<Rightarrow> failI ''usage: ate-daemon tool <install|list|enable|disable|remove>''
      | operation # rest \<Rightarrow>
          if operation = ''install'' then
            store (bindI (install deps path_var pid n1 n2 root archive (''--replace'' \<in> set args)) (\<lambda>plugin.
              retI (InstalledPlugin plugin)))
          else if operation = ''list'' then
            store (bindI (discover deps path_var root) (\<lambda>(plugins, diagnostics). retI (ListedPlugins plugins diagnostics)))
          else if operation \<in> {''enable'', ''disable'', ''remove''} then
            (case rest of
               [] \<Rightarrow> failI ''tool operation requires a plugin id''
             | i # _ \<Rightarrow>
                 store (bindI
                   (if operation = ''enable'' then set_enabled deps root i True
                    else if operation = ''disable'' then set_enabled deps root i False
                    else remove_plugin deps pid n1 root i) (\<lambda>_. retI (ChangedPlugin i))))
          else failI ''usage: ate-daemon tool <install|list|enable|disable|remove>'')"

definition manage_tools ::
  "manifest_deps \<Rightarrow> string option \<Rightarrow> nat \<Rightarrow> nat \<Rightarrow> nat \<Rightarrow> path option \<Rightarrow> archive \<Rightarrow> daemon_config \<Rightarrow> string list \<Rightarrow>
     (tree, string, manage_output) io"
where
  "manage_tools deps path_var pid n1 n2 home archive config argv =
     bindI (liftE (ok_or ''could not resolve plugin directory'' (or_else (dc_plugin_dir config) (default_plugin_dir home)))) (\<lambda>root.
       manage_store deps path_var pid n1 n2 root archive (drop 2 argv))"



section \<open>From the client to the store\<close>

text \<open>A word the shell takes as it is: no blank, no quote, nothing that is expanded.\<close>

definition shell_word :: "string \<Rightarrow> bool" where
  "shell_word s \<longleftrightarrow>
     s \<noteq> [] \<and> list_all (\<lambda>b. is_ascii_lowercase b \<or> is_ascii_digit b \<or> b = CHR ''-'' \<or> b = CHR ''.'') s"

lemma validate_cli_id_iff: "validate_cli_id i = Inr u \<longleftrightarrow> valid_plugin_id i"
  by (simp add: validate_cli_id_def valid_plugin_id_def)

lemma valid_plugin_id_word:
  assumes "valid_plugin_id i"
  shows "shell_word i"
proof -
  let ?ok = "\<lambda>b. is_ascii_lowercase b \<or> is_ascii_digit b \<or> b = CHR ''-''"
  have parts: "list_all (list_all ?ok) (split_on CHR ''.'' i)"
    using assms by (auto simp: valid_plugin_id_def list_all_iff)
  have joined: "list_all (list_all ?ok) ps \<Longrightarrow> list_all (\<lambda>b. ?ok b \<or> b = CHR ''.'') (join_with ''.'' ps)" for ps
    by (induction "''.''" ps rule: join_with.induct) (auto simp: list_all_iff)
  from joined [OF parts] have "list_all (\<lambda>b. ?ok b \<or> b = CHR ''.'') i" by (simp only: split_on_concat)
  moreover have "i \<noteq> []" by (rule valid_plugin_id_chars(2) [OF assms])
  ultimately show ?thesis by (auto simp: shell_word_def list_all_iff)
qed

lemma tool_command: "daemon_command_of ([program, ''tool'', operation] @ words) = RunTool"
  if "operation \<noteq> config_flag" and "length words \<le> 1"
proof -
  have "\<not> is_config_value (''tool'' # operation # words) ''tool''"
    using that by (cases words) (auto simp: is_config_value_def config_flag_def)
  then have "command_of (''tool'' # operation # words) = ''tool''" by (simp add: command_of_def)
  then show ?thesis by (simp add: daemon_command_of_def Let_def)
qed

lemma manage_script_words:
  "manage_script operation i =
     join_with '' '' ([''exec'', ''\"$HOME/.local/bin/ate-daemon\"'', ''tool'', operation] @ (case i of None \<Rightarrow> [] | Some i \<Rightarrow> [i]))"
  by (simp add: manage_script_def exec_daemon_def split: option.split)

text \<open>
  (C39) What reaches the shell of WSL. Listing, enabling, disabling and removing start at most one process and touch no file;
  its script is exactly the five words the operation consists of (four for \<^verbatim>\<open>list\<close>), and the words that come from the user hold only lower-case
  letters, digits, dots and dashes, so the shell takes the script apart into these words again and the daemon that
  receives them runs its \<^verbatim>\<open>tool\<close> command. Whatever else is asked for starts nothing and is an error.
\<close>

theorem cli_reaches_daemon:
  assumes "cli_manage env operation args w = (r, w')" and "operation \<in> {''list'', ''enable'', ''disable'', ''remove''}"
  shows "cw_tree w' = cw_tree w \<and>
    (cw_started w' = cw_started w \<and> (\<exists>e. r = Inl e) \<or>
     (\<exists>distribution words.
        cw_started w' = cw_started w @
          [(wsl_command distribution
              (join_with '' '' ([''exec'', ''\"$HOME/.local/bin/ate-daemon\"'', ''tool'', operation] @ words)), None)] \<and>
        list_all shell_word (operation # words) \<and>
        words = (if operation = ''list'' then [] else [args ! 2]) \<and> list_all valid_plugin_id words \<and>
        daemon_command_of ([program, ''tool'', operation] @ words) = RunTool))"
proof -
  let ?d = "case cli_option args ''--distribution'' of None \<Rightarrow> ''Ubuntu'' | Some d \<Rightarrow> d"
  let ?run = "\<lambda>words. cw_started w' = cw_started w @
      [(wsl_command ?d (join_with '' '' ([''exec'', ''\"$HOME/.local/bin/ate-daemon\"'', ''tool'', operation] @ words)), None)] \<and>
      cw_tree w' = cw_tree w \<or> w' = w \<and> (\<exists>e. r = Inl e)"
  have op: "shell_word operation" "operation \<noteq> config_flag"
    using assms(2) by (auto simp: shell_word_def is_ascii_lowercase_def is_ascii_digit_def config_flag_def)
  show ?thesis
  proof (cases "operation = ''list''")
    case True
    with assms(1) have "?run []"
      by (auto simp: cli_manage_def Let_def bindI_def liftE_def failI_def started_def manage_script_words split: option.splits)
    moreover have "daemon_command_of ([program, ''tool'', operation] @ []) = RunTool" by (rule tool_command) (use op in simp_all)
    ultimately show ?thesis using op(1) True by auto
  next
    case False
    show ?thesis
    proof (cases "cli_required args 2 ''operation requires a plugin id''")
      case (Inl e)
      with assms(1) False show ?thesis by (auto simp: cli_manage_def Let_def bindI_def liftE_def bindE_def)
    next
      case (Inr i)
      then have i: "i = args ! 2" by (auto simp: cli_required_def split: if_splits)
      show ?thesis
      proof (cases "validate_cli_id i")
        case refused: (Inl e)
        with assms(1) False Inr have "r = Inl e \<and> w' = w" by (simp add: cli_manage_def Let_def bindI_def liftE_def bindE_def)
        then show ?thesis by simp
      next
        case valid: (Inr u)
        then have "valid_plugin_id i" by (simp add: validate_cli_id_iff)
        moreover have "?run [i]"
          using assms(1) False Inr valid
          by (auto simp: cli_manage_def Let_def bindI_def liftE_def bindE_def failI_def started_def manage_script_words
              split: option.splits)
        moreover have "daemon_command_of ([program, ''tool'', operation] @ [i]) = RunTool" by (rule tool_command) (use op in simp_all)
        ultimately show ?thesis using op(1) False i valid_plugin_id_word by auto
      qed
    qed
  qed
qed

definition demo_env :: cli_env where
  "demo_env =
     \<lparr>ce_deps = demo_deps, ce_append_dir_all = demo_append, ce_decode = (\<lambda>_. Inr []), ce_spawn = (\<lambda>_. None),
      ce_pipe = (\<lambda>bytes. (Inr (), bytes)), ce_wait = (\<lambda>_ _. Inr (True, ''exit code: 0'')), ce_pretty = (\<lambda>_. Inr [])\<rparr>"

definition demo_cli :: cli_world where
  "demo_cli = \<lparr>cw_tree = demo_tree, cw_started = []\<rparr>"

theorem cli_reaches_daemon_witness:
  "\<exists>distribution. cw_started (snd (cli_manage demo_env ''enable'' [''tool'', ''enable'', ''com.example''] demo_cli)) =
     [(wsl_command distribution
         (join_with '' '' [''exec'', ''\"$HOME/.local/bin/ate-daemon\"'', ''tool'', ''enable'', ''com.example'']), None)]"
proof -
  obtain r w' where run: "cli_manage demo_env ''enable'' [''tool'', ''enable'', ''com.example''] demo_cli = (r, w')" by fastforce
  have "r = Inr ()" using run by (auto simp: cli_manage_def cli_required_def validate_cli_id_def demo_env_def Let_def bindI_def
        liftE_def bindE_def ensure_success_def is_ascii_lowercase_def is_ascii_digit_def)
  with cli_reaches_daemon [OF run] run show ?thesis by (auto simp: demo_cli_def)
qed

text \<open>
  The client and the store agree on ids: the client refuses exactly the ids that the store would refuse when asked to enable, disable or
  remove them, provided the parser reads back the manifest the store makes up for the check, and the parsers of
  versions and schemas accept the constants in it.
\<close>

definition made_up_manifest :: "string \<Rightarrow> plugin_manifest" where
  "made_up_manifest i =
     \<lparr>pm_schema_version = 1, pm_id = i, pm_version = ''0.0.0'', pm_entrypoint = [''x''], pm_required_commands = [],
      pm_max_concurrency = 1,
      pm_tools = [\<lparr>ptm_name = ''x'', ptm_description = ''x'', ptm_input_schema = JObject [], ptm_concurrency_safe = False\<rparr>]\<rparr>"

theorem cli_id_agrees:
  assumes "mdep_from_str deps (fake_manifest i) = Inr (made_up_manifest i)"
    and "mdep_version deps ''0.0.0'' = None" and "\<exists>v. mdep_validator deps (JObject []) = Inr v"
  shows "validate_cli_id i = Inr () \<longleftrightarrow> validate_id deps i = Inr ()"
  using assms
  by (auto simp: validate_cli_id_iff validate_id_def parse_manifest_def manifest_parse_def manifest_validate_def
      made_up_manifest_def bindE_def valid_tool_name_def is_ascii_alphanumeric_def is_ascii_lowercase_def)

theorem cli_id_agrees_witness:
  "validate_id (demo_deps\<lparr>mdep_from_str := \<lambda>_. Inr (made_up_manifest ''com.example'')\<rparr>) ''com.example'' = Inr ()"
proof -
  let ?deps = "demo_deps\<lparr>mdep_from_str := \<lambda>_. Inr (made_up_manifest ''com.example'')\<rparr>"
  have "mdep_from_str ?deps (fake_manifest ''com.example'') = Inr (made_up_manifest ''com.example'')"
    "mdep_version ?deps ''0.0.0'' = None" "\<exists>v. mdep_validator ?deps (JObject []) = Inr v"
    by (simp_all add: demo_deps_def)
  note agree = cli_id_agrees [OF this]
  have "validate_cli_id ''com.example'' = Inr ()"
    by (simp add: validate_cli_id_def is_ascii_lowercase_def is_ascii_digit_def)
  with agree show ?thesis by simp
qed


section \<open>Where the daemon misreads its command line\<close>

text \<open>
  \<^verbatim>\<open>main\<close> looks past \<^verbatim>\<open>--config\<close> for the command, but \<^verbatim>\<open>manage_tools\<close> takes its operation from the third argument: with the
  configuration first, every operation on the plugins is refused with the usage.
\<close>

lemma config_first_breaks_tool:
  "daemon_command_of [program, ''--config'', ''a.json'', ''tool'', ''list''] = RunTool"
  "manage_store deps path_var pid n1 n2 root archive (drop 2 [program, ''--config'', ''a.json'', ''tool'', ''list'']) t =
     (Inl ''usage: ate-daemon tool <install|list|enable|disable|remove>'', t)"
  by (simp_all add: daemon_command_of_def command_of_def is_config_value_def config_flag_def manage_store_def failI_def)

text \<open>\<^verbatim>\<open>ate tool pack\<close> has emptied the output file before it finds out that there is nothing to pack.\<close>

lemma failed_pack_empties_output:
  assumes "cli_required args 2 ''pack requires a directory'' = Inr source" and "cli_option args ''--output'' = Some output"
    and "tr_faults (cw_tree w) = []" and "node_at (cw_tree w) (path_components output) = Some (NFile c m)"
    and "is_dir_node (tr_nodes (cw_tree w)) (butlast (path_components output))"
    and "map_of (tr_nodes (cw_tree w)) (path_join (path_components source) tool_json) = None"
    and "path_join (path_components source) tool_json \<noteq> path_components output"
  shows "\<exists>e w'. cli_pack env args w = (Inl e, w') \<and> node_at (cw_tree w') (path_components output) = Some (NFile [] m)"
proof -
  have "cli_fs (fs_create_file (path_components output)) w =
      (Inr (), w\<lparr>cw_tree := (cw_tree w)\<lparr>tr_nodes := put (path_components output) (NFile [] m) (tr_nodes (cw_tree w))\<rparr>\<rparr>)"
    using assms(3-5) by (simp add: cli_fs_def on_tree_def fs_call_def take_fault_def fs_create_file_def node_at_def)
  then show ?thesis
    using assms
    by (simp add: cli_pack_def bindI_def liftE_def ok_or_def pack_directory_def read_manifest_def fs_def fs_call_def
        take_fault_def fs_read_to_string_def fs_read_def bindE_def map_of_changes append_data_def node_at_def)
qed

end
