(* ===== verification/ProcessGroup.thy ===== *)
theory ProcessGroup
  imports Shell
begin

text \<open>
  The processes of one command (\<^verbatim>\<open>NativeShell::run\<close>, \<^verbatim>\<open>GroupKiller\<close> and the preparation of the child in
  \<^verbatim>\<open>wsl-runtime/src/native.rs\<close>): a step relation on the run and on the processes the command has started, which fork, end
  and leave the process group as they like. The places where the run waits are the phases, and the future may be
  dropped at each of them, as a timeout of the scheduler does.
\<close>

section \<open>Before the program starts\<close>

datatype rlimit_resource = RLIMIT_AS | RLIMIT_CPU | RLIMIT_NPROC

text \<open>\<open>setrlimit resource cur max\<close> is the system call, its error a text.\<close>

definition apply_rlimit ::
  "(rlimit_resource \<Rightarrow> 64 word \<Rightarrow> 64 word \<Rightarrow> string + unit) \<Rightarrow> rlimit_resource \<Rightarrow> 64 word option \<Rightarrow> string + unit"
where
  "apply_rlimit setrlimit resource limit = (case limit of None \<Rightarrow> Inr () | Some n \<Rightarrow> setrlimit resource n n)"

definition pre_exec ::
  "string + unit \<Rightarrow> (rlimit_resource \<Rightarrow> 64 word \<Rightarrow> 64 word \<Rightarrow> string + unit) \<Rightarrow> native_command \<Rightarrow> string + unit"
where
  "pre_exec setpgid setrlimit c =
     bindE setpgid (\<lambda>_.
     bindE (apply_rlimit setrlimit RLIMIT_AS (nc_memory c)) (\<lambda>_.
     bindE (apply_rlimit setrlimit RLIMIT_CPU (nc_cpu c)) (\<lambda>_.
     apply_rlimit setrlimit RLIMIT_NPROC (nc_processes c))))"


section \<open>A run and its processes\<close>

text \<open>
  The child leads the group. \<open>Selecting\<close>: in the \<^verbatim>\<open>select!\<close>; \<open>Reaping\<close>: waiting for the killed child; \<open>Collecting\<close>: waiting
  for the output, after a cancellation or not; \<open>Dropped\<close>: the future was dropped, with the guard armed or not.
\<close>

datatype run_phase = Selecting | Reaping | Collecting bool | Returned bool | WaitError | DroppedRun bool

datatype leader = Running | Zombie | Reaped

record command_run =
  pg_phase :: run_phase
  pg_armed :: bool
  pg_leader :: leader
  pg_members :: "nat set"
  pg_escaped :: "nat set"
  pg_kills :: "leader list"

definition run_started :: command_run where
  "run_started =
     \<lparr>pg_phase = Selecting, pg_armed = True, pg_leader = Running, pg_members = {}, pg_escaped = {}, pg_kills = []\<rparr>"

definition killed_leader :: "leader \<Rightarrow> leader" where
  "killed_leader l = (if l = Running then Zombie else l)"

text \<open>The signal reaches whoever is in the group; what state the leader was in is kept.\<close>

definition kill_group :: "command_run \<Rightarrow> command_run" where
  "kill_group s = s\<lparr>pg_members := {}, pg_leader := killed_leader (pg_leader s), pg_kills := pg_kills s @ [pg_leader s]\<rparr>"

definition drop_killer :: "command_run \<Rightarrow> command_run" where
  "drop_killer s = (if pg_armed s then kill_group s else s)"

text \<open>
  \<^verbatim>\<open>kill_on_drop\<close> of the child itself. Nobody else reaps children of this process, so a wait that fails leaves the child as it is.
\<close>

definition drop_child :: "command_run \<Rightarrow> command_run" where
  "drop_child s = s\<lparr>pg_leader := killed_leader (pg_leader s)\<rparr>"

definition run_cancelled :: "command_run \<Rightarrow> command_run" where
  "run_cancelled s = (kill_group s)\<lparr>pg_phase := Reaping\<rparr>"

definition run_disarm :: "bool \<Rightarrow> leader \<Rightarrow> command_run \<Rightarrow> command_run" where
  "run_disarm terminated l s = s\<lparr>pg_leader := l, pg_armed := False, pg_phase := Collecting terminated\<rparr>"

definition run_wait_error :: "command_run \<Rightarrow> command_run" where
  "run_wait_error s = (drop_child (drop_killer s))\<lparr>pg_phase := WaitError\<rparr>"

definition run_dropped :: "command_run \<Rightarrow> command_run" where
  "run_dropped s = (drop_child (drop_killer s))\<lparr>pg_phase := DroppedRun (pg_armed s)\<rparr>"

inductive run_step :: "command_run \<Rightarrow> command_run \<Rightarrow> bool" where
  forks: "pg_leader s = Running \<or> pg_members s \<noteq> {} \<Longrightarrow> run_step s (s\<lparr>pg_members := insert q (pg_members s)\<rparr>)"
| member_ends: "run_step s (s\<lparr>pg_members := pg_members s - {q}\<rparr>)"
| leaves_group:
    "q \<in> pg_members s \<Longrightarrow> run_step s (s\<lparr>pg_members := pg_members s - {q}, pg_escaped := insert q (pg_escaped s)\<rparr>)"
| escaped_forks: "pg_escaped s \<noteq> {} \<Longrightarrow> run_step s (s\<lparr>pg_escaped := insert q (pg_escaped s)\<rparr>)"
| escaped_ends: "run_step s (s\<lparr>pg_escaped := pg_escaped s - {q}\<rparr>)"
| leader_ends: "pg_leader s = Running \<Longrightarrow> run_step s (s\<lparr>pg_leader := Zombie\<rparr>)"
| cancelled: "pg_phase s = Selecting \<Longrightarrow> run_step s (run_cancelled s)"
| reaped_cancelled: "pg_phase s = Reaping \<Longrightarrow> pg_leader s = Zombie \<Longrightarrow> run_step s (run_disarm True Reaped s)"
| reap_fails: "pg_phase s = Reaping \<Longrightarrow> run_step s (run_disarm True (pg_leader s) s)"
| reaped: "pg_phase s = Selecting \<Longrightarrow> pg_leader s = Zombie \<Longrightarrow> run_step s (run_disarm False Reaped s)"
| wait_fails: "pg_phase s = Selecting \<Longrightarrow> run_step s (run_wait_error s)"
| collected: "pg_phase s = Collecting b \<Longrightarrow> run_step s (s\<lparr>pg_phase := Returned b\<rparr>)"
| dropped: "pg_phase s = Selecting \<or> pg_phase s = Reaping \<or> pg_phase s = Collecting b \<Longrightarrow> run_step s (run_dropped s)"

abbreviation run_reach :: "command_run \<Rightarrow> bool" where
  "run_reach \<equiv> reach (\<lambda>s. s = run_started) run_step"


section \<open>Nothing of the group survives an interruption\<close>

text \<open>The phases in which the group has been killed.\<close>

fun interrupted :: "run_phase \<Rightarrow> bool" where
  "interrupted Reaping \<longleftrightarrow> True"
| "interrupted (Collecting b) \<longleftrightarrow> b"
| "interrupted (Returned b) \<longleftrightarrow> b"
| "interrupted WaitError \<longleftrightarrow> True"
| "interrupted (DroppedRun b) \<longleftrightarrow> b"
| "interrupted Selecting \<longleftrightarrow> False"

definition run_inv :: "command_run \<Rightarrow> bool" where
  "run_inv s \<longleftrightarrow>
     (pg_phase s = Selecting \<or> pg_phase s = Reaping \<longrightarrow> pg_armed s \<and> pg_leader s \<noteq> Reaped) \<and>
     (\<forall>b. pg_phase s = Collecting b \<longrightarrow> \<not> pg_armed s) \<and>
     (interrupted (pg_phase s) \<longrightarrow> pg_members s = {} \<and> pg_leader s \<noteq> Running) \<and>
     list_all (\<lambda>l. l \<noteq> Reaped) (pg_kills s)"

lemmas run_ops = run_cancelled_def run_disarm_def run_wait_error_def run_dropped_def drop_killer_def drop_child_def
  kill_group_def killed_leader_def

lemma run_inv_step: "run_step s s' \<Longrightarrow> run_inv s \<Longrightarrow> run_inv s'"
  by (induction rule: run_step.induct) (auto simp: run_inv_def run_ops)

interpretation group: step_invariant "\<lambda>s. s = run_started" run_step run_inv
proof unfold_locales
  show "run_inv s" if "s = run_started" for s using that by (simp add: run_inv_def run_started_def)
  show "run_inv t" if "run_inv s" "run_step s t" for s t using run_inv_step that by blast
qed

text \<open>
  (C40) The process group of a command. However the processes of a command fork, end and leave its group, and wherever the run is
  cancelled, fails or is dropped, from then on no process is left in the group when the run was interrupted before it had
  seen the command end; and no signal is ever sent to the group of a child that has been reaped, whose number another process
  could have taken.
\<close>

theorem group_killed:
  assumes "run_reach s"
  shows "(interrupted (pg_phase s) \<longrightarrow> pg_members s = {} \<and> pg_leader s \<noteq> Running) \<and>
    list_all (\<lambda>l. l \<noteq> Reaped) (pg_kills s)"
  using group.reach_inv [OF assms] by (simp add: run_inv_def)

definition demo_forked :: command_run where
  "demo_forked = run_started\<lparr>pg_members := {1}\<rparr>"

lemma run_reach_step: "run_reach s \<Longrightarrow> run_step s t \<Longrightarrow> run_reach t"
  by (rule reach.reach_step)

lemma demo_forked_reach: "run_reach demo_forked"
proof -
  have "run_step run_started demo_forked"
    using run_step.forks [of run_started 1] by (simp add: demo_forked_def run_started_def)
  moreover have "run_reach run_started" by (simp add: reach.reach_start)
  ultimately show ?thesis using run_reach_step by blast
qed

theorem group_killed_witness:
  "pg_members (run_dropped demo_forked) = {} \<and> pg_leader (run_dropped demo_forked) = Zombie"
proof -
  have step: "run_step demo_forked (run_dropped demo_forked)"
    by (rule run_step.dropped) (simp add: demo_forked_def run_started_def)
  have "interrupted (pg_phase (run_dropped demo_forked))"
    by (simp add: run_ops demo_forked_def run_started_def)
  with group_killed [OF run_reach_step [OF demo_forked_reach step]]
  have "pg_members (run_dropped demo_forked) = {}" by blast
  then show ?thesis by (simp add: run_ops demo_forked_def run_started_def)
qed


section \<open>What does survive\<close>

text \<open>
  The guard is disarmed before the output is awaited: when the command has ended and a process it left behind keeps the
  pipe open, a timeout drops the run there, and nothing is killed.
\<close>

lemma dropped_while_collecting:
  "\<exists>s. run_reach s \<and> pg_phase s = DroppedRun False \<and> 1 \<in> pg_members s \<and> pg_kills s = []"
proof -
  let ?a = "demo_forked\<lparr>pg_leader := Zombie\<rparr>"
  let ?b = "run_disarm False Reaped ?a"
  have 1: "run_step demo_forked ?a" by (rule run_step.leader_ends) (simp add: demo_forked_def run_started_def)
  have 2: "run_step ?a ?b" by (rule run_step.reaped) (simp_all add: demo_forked_def run_started_def)
  have 3: "run_step ?b (run_dropped ?b)" by (rule run_step.dropped [where b = False]) (simp add: run_disarm_def)
  note run_reach_step [OF run_reach_step [OF run_reach_step [OF demo_forked_reach 1] 2] 3]
  moreover have "pg_phase (run_dropped ?b) = DroppedRun False" "1 \<in> pg_members (run_dropped ?b)" "pg_kills (run_dropped ?b) = []"
    by (simp_all add: run_ops demo_forked_def run_started_def)
  ultimately show ?thesis by blast
qed

text \<open>A process that has left the group survives a cancellation too.\<close>

lemma escaped_survives_cancellation:
  "\<exists>s. run_reach s \<and> pg_phase s = Returned True \<and> 1 \<in> pg_escaped s"
proof -
  let ?a = "demo_forked\<lparr>pg_members := pg_members demo_forked - {1}, pg_escaped := insert 1 (pg_escaped demo_forked)\<rparr>"
  let ?b = "run_cancelled ?a"
  let ?c = "run_disarm True (pg_leader ?b) ?b"
  have 1: "run_step demo_forked ?a" by (rule run_step.leaves_group) (simp add: demo_forked_def)
  have 2: "run_step ?a ?b" by (rule run_step.cancelled) (simp add: demo_forked_def run_started_def)
  have 3: "run_step ?b ?c" by (rule run_step.reap_fails) (simp add: run_cancelled_def)
  have 4: "run_step ?c (?c\<lparr>pg_phase := Returned True\<rparr>)" by (rule run_step.collected) (simp add: run_disarm_def)
  note run_reach_step [OF run_reach_step [OF run_reach_step [OF run_reach_step [OF demo_forked_reach 1] 2] 3] 4]
  moreover have "1 \<in> pg_escaped (?c\<lparr>pg_phase := Returned True\<rparr>)"
    by (simp add: run_ops demo_forked_def run_started_def)
  ultimately show ?thesis by (intro exI [of _ "?c\<lparr>pg_phase := Returned True\<rparr>"]) simp
qed

text \<open>The program starts only in a group of its own and under every limit that is set.\<close>

lemma pre_exec_applies:
  "pre_exec setpgid setrlimit c = Inr () \<longleftrightarrow>
     setpgid = Inr () \<and> (\<forall>n. nc_memory c = Some n \<longrightarrow> setrlimit RLIMIT_AS n n = Inr ()) \<and>
     (\<forall>n. nc_cpu c = Some n \<longrightarrow> setrlimit RLIMIT_CPU n n = Inr ()) \<and>
     (\<forall>n. nc_processes c = Some n \<longrightarrow> setrlimit RLIMIT_NPROC n n = Inr ())"
  by (auto simp: pre_exec_def apply_rlimit_def result_simps split: option.split)

end
